(* ===== verification/Bytes.thy ===== *)
theory Bytes
  imports Main "HOL-Library.Sublist" "HOL-Library.Code_Target_Numeral"
begin

text \<open>
  The byte strings of the program and the part of the C++ standard library it uses on them.
  A \<open>std::string\<close> is a \<^typ>\<open>string\<close>: a list of \<^typ>\<open>char\<close>, which are bytes.
  The character classes are those of the C locale. \<open>find\<close>, \<open>substr\<close>, stream extraction
  and \<open>std::getline\<close> are written with the library's documented results; sizes are
  natural numbers (a \<open>size_t\<close> that cannot wrap, being the size of a string in memory).
\<close>

named_theorems ctype_defs "character classes as ranges of byte values"

section \<open>Bytes and character classes\<close>

definition uc :: "char \<Rightarrow> nat" where
  "uc c = of_char c"

definition isdigit :: "char \<Rightarrow> bool" where
  [ctype_defs]: "isdigit c \<longleftrightarrow> 48 \<le> uc c \<and> uc c \<le> 57"

definition isupper :: "char \<Rightarrow> bool" where
  [ctype_defs]: "isupper c \<longleftrightarrow> 65 \<le> uc c \<and> uc c \<le> 90"

definition islower :: "char \<Rightarrow> bool" where
  [ctype_defs]: "islower c \<longleftrightarrow> 97 \<le> uc c \<and> uc c \<le> 122"

definition isalnum :: "char \<Rightarrow> bool" where
  [ctype_defs]: "isalnum c \<longleftrightarrow> isdigit c \<or> isupper c \<or> islower c"

definition isxdigit :: "char \<Rightarrow> bool" where
  [ctype_defs]: "isxdigit c \<longleftrightarrow>
     isdigit c \<or> (65 \<le> uc c \<and> uc c \<le> 70) \<or> (97 \<le> uc c \<and> uc c \<le> 102)"

definition isspace :: "char \<Rightarrow> bool" where
  [ctype_defs]: "isspace c \<longleftrightarrow> uc c = 32 \<or> (9 \<le> uc c \<and> uc c \<le> 13)"

definition tolower :: "char \<Rightarrow> char" where
  "tolower c = (if isupper c then char_of (uc c + 32) else c)"

definition lowercase :: "string \<Rightarrow> string" where
  "lowercase s = map tolower s"

abbreviation CR :: char where "CR \<equiv> CHR 0x0D"
abbreviation LF :: char where "LF \<equiv> CHR 0x0A"
abbreviation TAB :: char where "TAB \<equiv> CHR 0x09"
abbreviation SP :: char where "SP \<equiv> CHR 0x20"
abbreviation NUL :: char where "NUL \<equiv> CHR 0x00"
abbreviation DQUOTE :: char where "DQUOTE \<equiv> CHR 0x22"
abbreviation BACKSLASH :: char where "BACKSLASH \<equiv> CHR 0x5C"

definition crlf :: string where
  "crlf = [CR, LF]"

lemma uc_less_256 [simp]: "uc c < 256"
  by (simp add: uc_def)

lemma uc_inject [simp]: "uc c = uc d \<longleftrightarrow> c = d"
  by (simp add: uc_def)

lemma uc_char_of [simp]: "n < 256 \<Longrightarrow> uc (char_of n) = n"
  by (simp add: uc_def)

lemma char_of_uc [simp]: "char_of (uc c) = c"
  by (simp add: uc_def)

lemma tolower_not_upper [simp]: "\<not> isupper (tolower c)"
  by (auto simp: tolower_def isupper_def)

lemma tolower_idem [simp]: "tolower (tolower c) = tolower c"
  by (simp add: tolower_def [of "tolower c"])

lemma tolower_fixed: "\<not> isupper c \<Longrightarrow> tolower c = c"
  by (simp add: tolower_def)

lemma isalnum_tolower [simp]: "isalnum (tolower c) = isalnum c"
  by (auto simp: tolower_def ctype_defs)

lemma lowercase_Nil [simp]: "lowercase [] = []"
  by (simp add: lowercase_def)

lemma length_lowercase [simp]: "length (lowercase s) = length s"
  by (simp add: lowercase_def)

lemma lowercase_idem [simp]: "lowercase (lowercase s) = lowercase s"
  by (simp add: lowercase_def)

lemma lowercase_eq_Nil [simp]: "lowercase s = [] \<longleftrightarrow> s = []"
  by (simp add: lowercase_def)

lemma lowercase_append [simp]: "lowercase (s @ t) = lowercase s @ lowercase t"
  by (simp add: lowercase_def)

lemma lowercase_fixed: "(\<And>c. c \<in> set s \<Longrightarrow> \<not> isupper c) \<Longrightarrow> lowercase s = s"
  by (induction s) (auto simp: lowercase_def tolower_fixed)

lemma set_lowercase_not_upper: "c \<in> set (lowercase s) \<Longrightarrow> \<not> isupper c"
  by (auto simp: lowercase_def)

section \<open>Stripping characters off both ends\<close>

text \<open>
  The loops \<open>while (!v.empty() && P(v.front())) v.erase(v.begin())\<close> and
  \<open>while (!v.empty() && P(v.back())) v.pop_back()\<close>.
\<close>

definition strip_front :: "(char \<Rightarrow> bool) \<Rightarrow> string \<Rightarrow> string" where
  "strip_front P s = dropWhile P s"

definition strip_back :: "(char \<Rightarrow> bool) \<Rightarrow> string \<Rightarrow> string" where
  "strip_back P s = rev (dropWhile P (rev s))"

definition strip :: "(char \<Rightarrow> bool) \<Rightarrow> string \<Rightarrow> string" where
  "strip P s = strip_back P (strip_front P s)"

definition clean_ends :: "(char \<Rightarrow> bool) \<Rightarrow> string \<Rightarrow> bool" where
  "clean_ends P s \<longleftrightarrow> s = [] \<or> (\<not> P (hd s) \<and> \<not> P (last s))"

lemma clean_ends_Nil [simp]: "clean_ends P []"
  by (simp add: clean_ends_def)

lemma strip_front_fixed: "s = [] \<or> \<not> P (hd s) \<Longrightarrow> strip_front P s = s"
  by (cases s) (auto simp: strip_front_def)

lemma strip_back_fixed: "s = [] \<or> \<not> P (last s) \<Longrightarrow> strip_back P s = s"
  by (cases s rule: rev_cases) (auto simp: strip_back_def)

lemma strip_fixed: "clean_ends P s \<Longrightarrow> strip P s = s"
  by (auto simp: clean_ends_def strip_def strip_front_fixed strip_back_fixed)

lemma strip_back_last: "strip_back P s \<noteq> [] \<Longrightarrow> \<not> P (last (strip_back P s))"
  by (metis hd_dropWhile last_rev rev_is_Nil_conv strip_back_def)

lemma strip_front_hd: "strip_front P s \<noteq> [] \<Longrightarrow> \<not> P (hd (strip_front P s))"
  by (simp add: strip_front_def hd_dropWhile)

lemma prefix_strip_back: "prefix (strip_back P s) s"
  unfolding strip_back_def
  by (metis rev_rev_ident suffix_dropWhile suffix_to_prefix)

lemma suffix_strip_front: "suffix (strip_front P s) s"
  unfolding strip_front_def by (rule suffix_dropWhile)

lemma strip_clean_ends: "clean_ends P (strip P s)"
proof (cases "strip P s = []")
  case False
  have "prefix (strip P s) (strip_front P s)"
    by (simp add: strip_def prefix_strip_back)
  then have "hd (strip P s) = hd (strip_front P s)" "strip_front P s \<noteq> []"
    using False by (auto simp: prefix_def)
  then show ?thesis
    using False strip_front_hd [of P s] strip_back_last [of P "strip_front P s"]
    by (simp add: clean_ends_def strip_def)
qed (simp add: clean_ends_def)

lemma strip_idem [simp]: "strip P (strip P s) = strip P s"
  by (rule strip_fixed) (rule strip_clean_ends)

lemma set_strip: "set (strip P s) \<subseteq> set s"
  using prefix_strip_back [of P "strip_front P s"] suffix_strip_front [of P s]
  by (auto simp: strip_def dest!: set_mono_prefix set_mono_suffix)

lemma strip_Nil [simp]: "strip P [] = []"
  by (simp add: strip_fixed clean_ends_def)

lemma strip_front_append_skip: "(\<And>c. c \<in> set a \<Longrightarrow> P c) \<Longrightarrow> strip_front P (a @ s) = strip_front P s"
  by (simp add: strip_front_def dropWhile_append2)

lemma length_strip: "length (strip P s) \<le> length s"
  using prefix_length_le [OF prefix_strip_back [of P "strip_front P s"]]
    suffix_length_le [OF suffix_strip_front [of P s]]
  by (simp add: strip_def)

lemma strip_padded:
  assumes "clean_ends P s" "\<And>c. c \<in> set a \<Longrightarrow> P c" "\<And>c. c \<in> set b \<Longrightarrow> P c"
  shows "strip P (a @ s @ b) = s"
proof (cases "s = []")
  case True
  have "strip_front P (a @ b) = []" using assms(2,3) by (auto simp: strip_front_def dropWhile_eq_Nil_conv)
  with True show ?thesis by (simp add: strip_def strip_back_def)
next
  case False
  then have s: "strip_front P s = s" "strip_back P s = s"
    using assms(1) by (auto simp: clean_ends_def strip_front_fixed strip_back_fixed)
  have "strip_front P (a @ s @ b) = strip_front P (s @ b)" using assms(2) by (rule strip_front_append_skip)
  also have "\<dots> = s @ b" using False assms(1) by (cases s) (auto simp: strip_front_def clean_ends_def)
  finally have "strip P (a @ s @ b) = rev (dropWhile P (rev b @ rev s))" by (simp add: strip_def strip_back_def)
  also have "dropWhile P (rev b @ rev s) = dropWhile P (rev s)" using assms(3) by (intro dropWhile_append2) simp
  also have "rev \<dots> = s" using s(2) by (simp add: strip_back_def)
  finally show ?thesis .
qed

lemma isspace_tolower [simp]: "isspace (tolower c) = isspace c"
  by (auto simp: tolower_def ctype_defs)

lemma tolower_eq_symbol: "\<not> isupper d \<Longrightarrow> \<not> islower d \<Longrightarrow> tolower c = d \<longleftrightarrow> c = d"
  by (auto simp: tolower_def isupper_def islower_def)

lemma in_lowercase_symbol: "\<not> isupper d \<Longrightarrow> \<not> islower d \<Longrightarrow> d \<in> set (lowercase s) \<longleftrightarrow> d \<in> set s"
proof -
  assume d: "\<not> isupper d" "\<not> islower d"
  have "d \<in> set (lowercase s) \<longleftrightarrow> (\<exists>c \<in> set s. tolower c = d)" by (auto simp: lowercase_def)
  then show ?thesis by (simp add: tolower_eq_symbol [OF d])
qed

lemma clean_ends_lowercase: "clean_ends isspace (lowercase s) = clean_ends isspace s"
  by (cases s) (auto simp: clean_ends_def lowercase_def last_map)

end
