(* ===== verification/Search.thy ===== *)
theory Search
  imports Bytes
begin

text \<open>
  Searching and cutting byte strings: \<open>std::string::find\<close>, \<open>substr\<close>,
  \<open>rfind(prefix, 0) == 0\<close>, \<open>find_last_of\<close>, word extraction from a stream
  (\<open>stream >> word\<close>) and \<open>std::getline\<close>. A position that is not found
  (\<open>std::string::npos\<close>) is \<^const>\<open>None\<close>.
\<close>

section \<open>find and substr\<close>

fun index_of :: "string \<Rightarrow> string \<Rightarrow> nat option" where
  "index_of n [] = (if n = [] then Some 0 else None)"
| "index_of n (c # s) = (if prefix n (c # s) then Some 0 else map_option Suc (index_of n s))"

text \<open>\<open>s.find(n, pos)\<close>\<close>

definition find_from :: "string \<Rightarrow> string \<Rightarrow> nat \<Rightarrow> nat option" where
  "find_from s n pos =
     (if pos \<le> length s then map_option (\<lambda>i. pos + i) (index_of n (drop pos s)) else None)"

definition find_str :: "string \<Rightarrow> string \<Rightarrow> nat option" where
  "find_str s n = find_from s n 0"

definition find_char :: "string \<Rightarrow> char \<Rightarrow> nat option" where
  "find_char s c = find_from s [c] 0"

text \<open>\<open>s.substr(pos, n)\<close> for \<open>pos \<le> s.size()\<close>, as every call of the program has it.\<close>

definition substr :: "string \<Rightarrow> nat \<Rightarrow> nat \<Rightarrow> string" where
  "substr s pos n = take n (drop pos s)"

definition contains_str :: "string \<Rightarrow> string \<Rightarrow> bool" where
  "contains_str s n \<longleftrightarrow> find_str s n \<noteq> None"

lemma index_of_Some_iff_prefix:
  "index_of n s = Some i \<Longrightarrow> prefix n (drop i s) \<and> i + length n \<le> length s"
proof (induction s arbitrary: i)
  case (Cons c s)
  then show ?case
    by (auto split: if_splits dest: prefix_length_le)
qed (auto split: if_splits)

lemma index_of_least: "index_of n s = Some i \<Longrightarrow> j < i \<Longrightarrow> \<not> prefix n (drop j s)"
proof (induction s arbitrary: i j)
  case (Cons c s)
  then show ?case
    by (cases j) (auto split: if_splits)
qed (auto split: if_splits)

lemma index_of_None_iff: "index_of n s = None \<longleftrightarrow> (\<forall>j \<le> length s. \<not> prefix n (drop j s))"
proof (induction s)
  case Nil
  then show ?case by (cases n) auto
next
  case (Cons c s)
  have "(\<forall>j \<le> length (c # s). \<not> prefix n (drop j (c # s))) \<longleftrightarrow>
      \<not> prefix n (c # s) \<and> (\<forall>j \<le> length s. \<not> prefix n (drop j s))"
    by (auto simp: All_less_Suc2 less_Suc_eq_le [symmetric])
  with Cons.IH show ?case by auto
qed

lemma index_of_eqI:
  assumes "prefix n (drop i s)" "i \<le> length s" "\<And>j. j < i \<Longrightarrow> \<not> prefix n (drop j s)"
  shows "index_of n s = Some i"
proof (cases "index_of n s")
  case None
  with assms(1,2) show ?thesis by (auto simp: index_of_None_iff)
next
  case (Some k)
  then have "prefix n (drop k s)" and least: "\<And>j. j < k \<Longrightarrow> \<not> prefix n (drop j s)"
    by (auto dest: index_of_Some_iff_prefix index_of_least)
  with assms(1,3) have "\<not> k < i" "\<not> i < k" by blast+
  with Some show ?thesis by simp
qed

text \<open>The first occurrence is not moved by what follows it.\<close>

lemma index_of_append:
  assumes "index_of n s = Some i"
  shows "index_of n (s @ t) = Some i"
proof (rule index_of_eqI)
  have pre: "prefix n (drop i s)" and le: "i + length n \<le> length s"
    using index_of_Some_iff_prefix [OF assms] by auto
  then show "prefix n (drop i (s @ t))" and "i \<le> length (s @ t)"
    by (auto simp: prefix_def)
  fix j assume "j < i"
  then have no: "\<not> prefix n (drop j s)" by (rule index_of_least [OF assms])
  have "length n \<le> length (drop j s)" using le \<open>j < i\<close> by simp
  moreover have "drop j (s @ t) = drop j s @ t" using le \<open>j < i\<close> by simp
  ultimately show "\<not> prefix n (drop j (s @ t))"
    using no by (metis prefix_length_prefix prefixI)
qed

lemma find_from_Some:
  assumes "find_from s n pos = Some i"
  shows "pos \<le> i" "i + length n \<le> length s" "prefix n (drop i s)"
  using assms index_of_Some_iff_prefix [of n "drop pos s" "i - pos"]
  by (auto simp: find_from_def add.commute split: if_splits)

lemma find_from_bounds: "find_from s n pos = Some i \<Longrightarrow> pos \<le> i \<and> i + length n \<le> length s"
  using find_from_Some(1,2) by blast

lemma find_from_append: "find_from s n pos = Some i \<Longrightarrow> find_from (s @ t) n pos = Some i"
  by (auto simp: find_from_def index_of_append split: if_splits)

lemma find_from_prepend:
  "find_from (p @ s) n (length p + k) = map_option (\<lambda>i. length p + i) (find_from s n k)"
  by (auto simp: find_from_def option.map_comp comp_def add.assoc)

lemma find_from_prepend0 [simp]:
  "find_from (p @ s) n (length p) = map_option (\<lambda>i. length p + i) (find_from s n 0)"
  using find_from_prepend [of p s n 0] by simp

lemma find_from_0: "find_from s n 0 = index_of n s"
  by (cases "index_of n s") (auto simp: find_from_def)

lemma find_from_None_iff:
  "pos \<le> length s \<Longrightarrow> find_from s n pos = None \<longleftrightarrow> (\<forall>j. pos \<le> j \<and> j \<le> length s \<longrightarrow> \<not> prefix n (drop j s))"
proof -
  assume le: "pos \<le> length s"
  have "(\<forall>j \<le> length (drop pos s). \<not> prefix n (drop j (drop pos s))) \<longleftrightarrow>
      (\<forall>j. pos \<le> j \<and> j \<le> length s \<longrightarrow> \<not> prefix n (drop j s))" (is "?L \<longleftrightarrow> ?R")
  proof
    assume L: ?L
    show ?R
    proof (intro allI impI)
      fix j assume "pos \<le> j \<and> j \<le> length s"
      then show "\<not> prefix n (drop j s)" using L [rule_format, of "j - pos"] by (simp add: diff_le_mono)
    qed
  next
    assume R: ?R
    show ?L
    proof (intro allI impI)
      fix j assume "j \<le> length (drop pos s)"
      then show "\<not> prefix n (drop j (drop pos s))" using R [rule_format, of "j + pos"] le by simp
    qed
  qed
  then show ?thesis
    using le by (simp add: find_from_def index_of_None_iff)
qed

lemma find_from_least: "find_from s n pos = Some i \<Longrightarrow> pos \<le> j \<Longrightarrow> j < i \<Longrightarrow> \<not> prefix n (drop j s)"
  using index_of_least [of n "drop pos s" "i - pos" "j - pos"]
  by (auto simp: find_from_def add.commute less_diff_conv2 split: if_splits)

text \<open>Finding one character.\<close>

lemma index_of_char: "index_of [c] s = (if c \<in> set s then Some (length (takeWhile (\<lambda>d. d \<noteq> c) s)) else None)"
  by (induction s) auto

lemma find_char_eq:
  "find_char s c = (if c \<in> set s then Some (length (takeWhile (\<lambda>d. d \<noteq> c) s)) else None)"
  by (simp add: find_char_def find_from_0 index_of_char)

lemma find_char_None [simp]: "find_char s c = None \<longleftrightarrow> c \<notin> set s"
  by (simp add: find_char_eq)

lemma takeWhile_neq: "c \<notin> set a \<Longrightarrow> takeWhile (\<lambda>d. d \<noteq> c) (a @ c # b) = a"
  by (induction a) auto

lemma dropWhile_neq: "c \<notin> set a \<Longrightarrow> dropWhile (\<lambda>d. d \<noteq> c) (a @ c # b) = c # b"
  by (induction a) auto

lemma find_char_append: "c \<notin> set a \<Longrightarrow> find_char (a @ c # b) c = Some (length a)"
  by (simp add: find_char_eq takeWhile_neq)

lemma find_char_split:
  assumes "find_char s c = Some i"
  shows "s = substr s 0 i @ c # drop (Suc i) s" "c \<notin> set (substr s 0 i)" "i < length s"
proof -
  let ?t = "takeWhile (\<lambda>d. d \<noteq> c) s"
  have i: "i = length ?t" and c: "c \<in> set s"
    using assms by (auto simp: find_char_eq split: if_splits)
  then have "dropWhile (\<lambda>d. d \<noteq> c) s \<noteq> []" by (auto simp: dropWhile_eq_Nil_conv)
  then obtain r where r: "dropWhile (\<lambda>d. d \<noteq> c) s = c # r"
    using hd_dropWhile [of "\<lambda>d. d \<noteq> c" s] by (cases "dropWhile (\<lambda>d. d \<noteq> c) s") auto
  have s: "s = ?t @ c # r" using takeWhile_dropWhile_id [of "\<lambda>d. d \<noteq> c" s] r by simp
  have t: "substr s 0 i = ?t"
    unfolding substr_def i by (subst s) (simp add: takeWhile_eq_take [symmetric] takeWhile_append)
  have "drop (Suc i) s = r"
    unfolding i by (subst (2) s) simp
  then show "s = substr s 0 i @ c # drop (Suc i) s" using s t by simp
  show "c \<notin> set (substr s 0 i)" unfolding t by (auto dest: set_takeWhileD)
  have "length s = length (?t @ c # r)" using s by simp
  then show "i < length s" by (simp add: i)
qed

text \<open>Finding the line end \<open>"\r\n"\<close> after a piece without carriage returns.\<close>

lemma index_of_crlf: "CR \<notin> set line \<Longrightarrow> index_of crlf (line @ crlf @ rest) = Some (length line)"
  by (induction line) (auto simp: crlf_def)

lemma find_from_crlf:
  "CR \<notin> set line \<Longrightarrow> find_from (pre @ line @ crlf @ rest) crlf (length pre) = Some (length pre + length line)"
  by (simp add: find_from_0 index_of_crlf)

section \<open>Prefix test, words and lines of a stream\<close>

text \<open>\<open>s.rfind(p, 0) == 0\<close>\<close>

definition starts_with :: "string \<Rightarrow> string \<Rightarrow> bool" where
  "starts_with s p \<longleftrightarrow> prefix p s"

text \<open>
  \<open>stream >> word\<close>: skip white space, take the longest run without white space; an
  empty word means the extraction failed (and left the target string empty).
\<close>

definition next_word :: "string \<Rightarrow> string \<times> string" where
  "next_word s =
     (let r = dropWhile isspace s
      in (takeWhile (\<lambda>c. \<not> isspace c) r, dropWhile (\<lambda>c. \<not> isspace c) r))"

text \<open>
  \<open>std::getline(stream, line, d)\<close>: \<^const>\<open>None\<close> when nothing is left (the stream then
  fails), otherwise the characters up to the delimiter, which is consumed.
\<close>

definition getline_delim :: "char \<Rightarrow> string \<Rightarrow> (string \<times> string) option" where
  "getline_delim d s =
     (if s = [] then None
      else Some (takeWhile (\<lambda>c. c \<noteq> d) s, drop 1 (dropWhile (\<lambda>c. c \<noteq> d) s)))"

abbreviation getline :: "string \<Rightarrow> (string \<times> string) option" where
  "getline \<equiv> getline_delim LF"

lemma getline_delim_shorter: "getline_delim d s = Some (l, r) \<Longrightarrow> length r < length s"
proof -
  assume "getline_delim d s = Some (l, r)"
  then have s: "s \<noteq> []" and r: "r = drop 1 (dropWhile (\<lambda>c. c \<noteq> d) s)"
    by (auto simp: getline_delim_def split: if_splits)
  show ?thesis
  proof (cases "dropWhile (\<lambda>c. c \<noteq> d) s")
    case Nil
    with s r show ?thesis by simp
  next
    case (Cons x xs)
    have "length (dropWhile (\<lambda>c. c \<noteq> d) s) \<le> length s" by (rule length_dropWhile_le)
    with Cons r show ?thesis by simp
  qed
qed

text \<open>\<open>while (std::getline(stream, line, d)) lines.push_back(line)\<close>\<close>

function all_lines_delim :: "char \<Rightarrow> string \<Rightarrow> string list" where
  "all_lines_delim d s =
     (case getline_delim d s of None \<Rightarrow> [] | Some (l, r) \<Rightarrow> l # all_lines_delim d r)"
  by pat_completeness auto
termination
  by (relation "measure (\<lambda>(d, s). length s)") (auto intro: getline_delim_shorter)

declare all_lines_delim.simps [simp del]

lemma all_lines_Nil [simp]: "all_lines_delim d [] = []"
  by (subst all_lines_delim.simps) (simp add: getline_delim_def)

lemma getline_delim_append: "d \<notin> set l \<Longrightarrow> getline_delim d (l @ d # r) = Some (l, r)"
  by (simp add: getline_delim_def takeWhile_neq dropWhile_neq)

lemma getline_delim_last: "d \<notin> set l \<Longrightarrow> l \<noteq> [] \<Longrightarrow> getline_delim d l = Some (l, [])"
proof -
  assume "d \<notin> set l" "l \<noteq> []"
  then have "takeWhile (\<lambda>c. c \<noteq> d) l = l" and dw: "dropWhile (\<lambda>c. c \<noteq> d) l = []"
    by (auto simp: takeWhile_eq_all_conv dropWhile_eq_Nil_conv)
  then show ?thesis using \<open>l \<noteq> []\<close> by (simp only: getline_delim_def dw) simp
qed

lemma all_lines_append: "d \<notin> set l \<Longrightarrow> all_lines_delim d (l @ d # r) = l # all_lines_delim d r"
  by (subst all_lines_delim.simps) (simp add: getline_delim_append)

lemma all_lines_last: "d \<notin> set l \<Longrightarrow> l \<noteq> [] \<Longrightarrow> all_lines_delim d l = [l]"
  by (subst all_lines_delim.simps) (simp add: getline_delim_last)

lemma getline_delim_no_delim: "getline_delim d s = Some (l, r) \<Longrightarrow> d \<notin> set l"
  by (auto simp: getline_delim_def dest: set_takeWhileD split: if_splits)

lemma getline_delim_set: "getline_delim d s = Some (l, r) \<Longrightarrow> set l \<subseteq> set s \<and> set r \<subseteq> set s"
  by (auto simp: getline_delim_def dest: set_takeWhileD set_dropWhileD in_set_dropD split: if_splits)

lemma all_lines_no_delim: "l \<in> set (all_lines_delim d s) \<Longrightarrow> d \<notin> set l"
proof (induction d s rule: all_lines_delim.induct)
  case (1 d s)
  show ?case
  proof (cases "getline_delim d s")
    case None
    with "1.prems" show ?thesis by (simp add: all_lines_delim.simps [of d s])
  next
    case (Some p)
    obtain x r where p: "p = (x, r)" by (cases p)
    with Some have "d \<notin> set x" by (simp add: getline_delim_no_delim)
    moreover have "l = x \<or> l \<in> set (all_lines_delim d r)"
      using "1.prems" Some p by (simp add: all_lines_delim.simps [of d s])
    ultimately show ?thesis using "1.IH" [OF Some, of x r] p by auto
  qed
qed

lemma next_word_no_space: "c \<in> set (fst (next_word s)) \<Longrightarrow> \<not> isspace c"
  by (auto simp: next_word_def Let_def dest: set_takeWhileD)

lemma next_word_word:
  assumes "w \<noteq> []" "\<And>c. c \<in> set w \<Longrightarrow> \<not> isspace c" "s = [] \<or> isspace (hd s)"
  shows "next_word (w @ s) = (w, s)"
proof -
  have "dropWhile isspace (w @ s) = w @ s" using assms(1,2) by (cases w) auto
  moreover have "takeWhile (\<lambda>c. \<not> isspace c) (w @ s) = w"
    using assms(2,3) by (cases s) (auto simp: takeWhile_append2 takeWhile_append)
  moreover have "dropWhile (\<lambda>c. \<not> isspace c) (w @ s) = s"
    using assms(2,3) by (cases s) (auto simp: dropWhile_append2 dropWhile_append dropWhile_eq_Nil_conv)
  ultimately show ?thesis by (simp add: next_word_def Let_def)
qed

lemma next_word_skip: "isspace c \<Longrightarrow> next_word (c # s) = next_word s"
  by (simp add: next_word_def)

lemma next_word_Nil [simp]: "next_word [] = ([], [])"
  by (simp add: next_word_def)

end
