(* ===== verification/Numbers.thy ===== *)
theory Numbers
  imports Search
begin

text \<open>
  Numbers as text: \<open>std::to_string\<close>, \<open>std::hex\<close> output and the \<open>std::sto*\<close> family
  on an LP64 target (\<open>size_t\<close>, \<open>unsigned long\<close> and \<open>unsigned long long\<close> of 64
  bits, \<open>int\<close> of 32). The readers skip white space, take one optional sign and the
  longest run of digits, ignore what follows, and throw \<open>std::invalid_argument\<close> or
  \<open>std::out_of_range\<close>; the unsigned ones negate modulo \<open>2^64\<close> after a minus sign.
\<close>

section \<open>Printing\<close>

definition digit_char :: "nat \<Rightarrow> char" where
  "digit_char d = char_of (if d < 10 then 48 + d else 87 + d)"

function show_base :: "nat \<Rightarrow> nat \<Rightarrow> string" where
  "show_base b n = (if n < b \<or> b \<le> 1 then [digit_char n] else show_base b (n div b) @ [digit_char (n mod b)])"
  by pat_completeness auto
termination
  by (relation "measure snd") auto

declare show_base.simps [simp del]

definition to_string :: "nat \<Rightarrow> string" where
  "to_string n = show_base 10 n"

definition to_string_int :: "int \<Rightarrow> string" where
  "to_string_int i = (if i < 0 then CHR ''-'' # to_string (nat (- i)) else to_string (nat i))"

definition to_hex :: "nat \<Rightarrow> string" where
  "to_hex n = show_base 16 n"

section \<open>Reading\<close>

datatype num_error = InvalidArgument | OutOfRange

definition digits_val :: "string \<Rightarrow> nat" where
  "digits_val ds = foldl (\<lambda>a c. 10 * a + (uc c - 48)) 0 ds"

definition num_sign :: "string \<Rightarrow> bool \<times> string" where
  "num_sign s =
     (case dropWhile isspace s of
        [] \<Rightarrow> (False, [])
      | c # r \<Rightarrow> if c = CHR ''-'' then (True, r) else if c = CHR ''+'' then (False, r) else (False, c # r))"

text \<open>The sign, the magnitude and the number of characters consumed; None without a digit.\<close>

definition scan_number :: "string \<Rightarrow> (bool \<times> nat \<times> nat) option" where
  "scan_number s =
     (let (neg, r) = num_sign s; ds = takeWhile isdigit r
      in if ds = [] then None else Some (neg, digits_val ds, length s - length r + length ds))"

definition stoull :: "string \<Rightarrow> num_error + nat" where
  "stoull s =
     (case scan_number s of
        None \<Rightarrow> Inl InvalidArgument
      | Some (neg, v, _) \<Rightarrow>
          if 2 ^ 64 \<le> v then Inl OutOfRange
          else Inr (if neg then (2 ^ 64 - v) mod 2 ^ 64 else v))"

definition stoll :: "string \<Rightarrow> num_error + int \<times> nat" where
  "stoll s =
     (case scan_number s of
        None \<Rightarrow> Inl InvalidArgument
      | Some (neg, v, n) \<Rightarrow>
          let i = (if neg then - int v else int v)
          in if i < - (2 ^ 63) \<or> 2 ^ 63 \<le> i then Inl OutOfRange else Inr (i, n))"

definition stoi :: "string \<Rightarrow> num_error + int" where
  "stoi s =
     (case scan_number s of
        None \<Rightarrow> Inl InvalidArgument
      | Some (neg, v, _) \<Rightarrow>
          let i = (if neg then - int v else int v)
          in if i < - (2 ^ 31) \<or> 2 ^ 31 \<le> i then Inl OutOfRange else Inr i)"

section \<open>Facts\<close>

lemma show_base_not_Nil [simp]: "show_base b n \<noteq> []"
  by (subst show_base.simps) auto

lemma Nil_not_show_base [simp]: "[] \<noteq> show_base b n"
  by (metis show_base_not_Nil)

lemma to_string_not_Nil [simp]: "to_string n \<noteq> []"
  by (simp add: to_string_def)

lemma isdigit_digit_char: "d < 10 \<Longrightarrow> isdigit (digit_char d)"
  by (simp add: digit_char_def isdigit_def)

lemma uc_digit_char: "d < 10 \<Longrightarrow> uc (digit_char d) = 48 + d"
  by (simp add: digit_char_def)

lemma show_base_chars: "c \<in> set (show_base b n) \<Longrightarrow> 1 < b \<Longrightarrow> \<exists>d < b. c = digit_char d"
proof (induction b n rule: show_base.induct)
  case (1 b n)
  show ?case
  proof (cases "n < b \<or> c = digit_char (n mod b)")
    case True
    then have "c = digit_char (n mod b)" using "1.prems" by (auto simp: show_base.simps [of b n])
    moreover have "n mod b < b" using "1.prems" by simp
    ultimately show ?thesis by blast
  next
    case False
    with "1.prems" have "c \<in> set (show_base b (n div b))" by (simp add: show_base.simps [of b n])
    with False "1.prems" show ?thesis by (intro "1.IH") auto
  qed
qed

lemma to_string_digits: "c \<in> set (to_string n) \<Longrightarrow> isdigit c"
  using show_base_chars [of c 10 n] by (auto simp: to_string_def isdigit_digit_char)

lemma digits_val_append: "digits_val (a @ [c]) = 10 * digits_val a + (uc c - 48)"
  by (simp add: digits_val_def)

lemma digits_val_show: "digits_val (show_base 10 n) = n"
proof (induction n rule: less_induct)
  case (less n)
  show ?case
  proof (cases "n < 10")
    case True
    then show ?thesis
      by (simp add: show_base.simps [of 10 n] digits_val_def uc_digit_char)
  next
    case False
    then have "n div 10 < n" by simp
    from less.IH [OF this] False show ?thesis
      by (simp add: show_base.simps [of 10 n] digits_val_append uc_digit_char)
  qed
qed

lemma digits_val_to_string [simp]: "digits_val (to_string n) = n"
  by (simp add: to_string_def digits_val_show)

text \<open>Texts of digits only.\<close>

definition all_digits :: "string \<Rightarrow> bool" where
  "all_digits s \<longleftrightarrow> s \<noteq> [] \<and> list_all isdigit s"

lemma all_digits_to_string [simp]: "all_digits (to_string n)"
  by (auto simp: all_digits_def list_all_iff to_string_digits)

lemma isdigit_not_space: "isdigit c \<Longrightarrow> \<not> isspace c"
  by (auto simp: ctype_defs)

lemma isdigit_not_sign: "isdigit c \<Longrightarrow> c \<noteq> CHR ''-'' \<and> c \<noteq> CHR ''+''"
  by (auto simp: isdigit_def uc_def)

lemma num_sign_digits: "all_digits s \<Longrightarrow> num_sign s = (False, s)"
  by (cases s) (auto simp: num_sign_def all_digits_def isdigit_not_space isdigit_not_sign)

lemma scan_number_digits: "all_digits s \<Longrightarrow> scan_number s = Some (False, digits_val s, length s)"
proof -
  assume d: "all_digits s"
  then have tw: "takeWhile isdigit s = s" and ne: "s \<noteq> []"
    by (auto simp: all_digits_def list_all_iff takeWhile_eq_all_conv)
  show ?thesis using ne by (simp only: scan_number_def num_sign_digits [OF d] tw Let_def prod.case) simp
qed

lemma stoull_digits:
  "all_digits s \<Longrightarrow> stoull s = (if 2 ^ 64 \<le> digits_val s then Inl OutOfRange else Inr (digits_val s))"
  by (simp add: stoull_def scan_number_digits)

lemma stoull_to_string [simp]: "n < 2 ^ 64 \<Longrightarrow> stoull (to_string n) = Inr n"
  by (simp add: stoull_digits)

lemma stoull_bound: "stoull s = Inr n \<Longrightarrow> n < 2 ^ 64"
  by (auto simp: stoull_def split: option.splits prod.splits if_splits)

lemma stoll_to_string: "n < 2 ^ 63 \<Longrightarrow> stoll (to_string n) = Inr (int n, length (to_string n))"
proof -
  assume n: "n < 2 ^ 63"
  then have "int n < 2 ^ 63" by simp
  then have "\<not> (int n < - (2 ^ 63) \<or> 2 ^ 63 \<le> int n)" by linarith
  then show ?thesis by (simp add: stoll_def scan_number_digits)
qed

lemma stoi_bound: "stoi s = Inr i \<Longrightarrow> - (2 ^ 31) \<le> i \<and> i < 2 ^ 31"
  by (auto simp: stoi_def Let_def split: option.splits prod.splits if_splits)

text \<open>Printing is injective, and a hexadecimal digit is never the separator \<open>-\<close>.\<close>

lemma digit_char_inject: "c < 16 \<Longrightarrow> d < 16 \<Longrightarrow> digit_char c = digit_char d \<longleftrightarrow> c = d"
proof -
  assume c: "c < 16" and d: "d < 16"
  have "digit_char c = digit_char d \<longleftrightarrow> uc (digit_char c) = uc (digit_char d)"
    by (simp only: uc_inject)
  also have "\<dots> \<longleftrightarrow> c = d"
    using c d by (auto simp: digit_char_def)
  finally show ?thesis .
qed

lemma show_base_inject:
  assumes "1 < b" "b \<le> 16"
  shows "show_base b n = show_base b m \<longleftrightarrow> n = m"
proof -
  have "show_base b n = show_base b m \<Longrightarrow> n = m"
  proof (induction n arbitrary: m rule: less_induct)
    case (less n)
    show ?case
    proof (cases "n < b \<or> m < b")
      case True
      with less.prems assms show ?thesis
        by (auto simp: show_base.simps [of b n] show_base.simps [of b m] digit_char_inject
            split: if_splits)
    next
      case False
      then have eq: "show_base b (n div b) = show_base b (m div b)" and "digit_char (n mod b) = digit_char (m mod b)"
        using less.prems assms by (auto simp: show_base.simps [of b n] show_base.simps [of b m])
      moreover have "n mod b < 16" "m mod b < 16"
        using assms by (auto intro: less_le_trans [OF mod_less_divisor])
      ultimately have "n mod b = m mod b" by (simp add: digit_char_inject)
      moreover have "n div b = m div b"
        using False assms by (intro less.IH [OF _ eq]) auto
      ultimately show ?thesis by (metis div_mult_mod_eq)
    qed
  qed
  then show ?thesis by blast
qed

lemma to_hex_inject [simp]: "to_hex n = to_hex m \<longleftrightarrow> n = m"
  by (simp add: to_hex_def show_base_inject)

lemma to_string_inject [simp]: "to_string n = to_string m \<longleftrightarrow> n = m"
  by (simp add: to_string_def show_base_inject)

lemma to_hex_chars: "c \<in> set (to_hex n) \<Longrightarrow> isxdigit c \<and> \<not> isupper c"
  using show_base_chars [of c 16 n]
  by (auto simp: to_hex_def digit_char_def ctype_defs split: if_splits)

end
