(* ===== verification/Http.thy ===== *)
theory Http
  imports Numbers "HOL-Library.AList" "HOL-Library.Multiset"
begin

text \<open>
  \<open>src/src/Http.hpp\<close>: the request and response structures and the serialisation of a
  response. The header map of a request is only read by key, so it is a map; the extra headers
  of a response are iterated over, so they are an association list with one entry per key
  (\<open>m[k] = v\<close> is \<^const>\<open>AList.update\<close>), and the iteration order of the
  \<open>std::unordered_map\<close>, which the standard leaves open, is the argument \<open>ord\<close>: a
  function that permutes the entries (\<open>iteration_order\<close>).
\<close>

section \<open>Requests and responses\<close>

record http_request =
  rq_method :: string
  rq_target :: string
  rq_version :: string
  rq_headers :: "string \<rightharpoonup> string"
  rq_body :: string
  rq_hasContentLength :: bool
  rq_contentLength :: nat

type_synonym header_list = "(string \<times> string) list"

record http_response =
  rs_status :: int
  rs_reason :: string
  rs_contentType :: string
  rs_body :: string
  rs_sharedBody :: "string option"
  rs_headOnly :: bool
  rs_tls :: bool
  rs_exposeServerHeader :: bool
  rs_cacheControl :: string
  rs_extraHeaders :: header_list

definition default_request :: http_request where
  "default_request =
     \<lparr>rq_method = [], rq_target = [], rq_version = [], rq_headers = Map.empty, rq_body = [],
      rq_hasContentLength = False, rq_contentLength = 0\<rparr>"

definition default_response :: http_response where
  "default_response =
     \<lparr>rs_status = 200, rs_reason = ''OK'', rs_contentType = ''text/plain; charset=utf-8'',
      rs_body = [], rs_sharedBody = None, rs_headOnly = False, rs_tls = False,
      rs_exposeServerHeader = False, rs_cacheControl = ''no-store'', rs_extraHeaders = []\<rparr>"

definition bodyData :: "http_response \<Rightarrow> string" where
  "bodyData r = (case rs_sharedBody r of Some b \<Rightarrow> b | None \<Rightarrow> rs_body r)"

definition bodySize :: "http_response \<Rightarrow> nat" where
  "bodySize r = (case rs_sharedBody r of Some b \<Rightarrow> length b | None \<Rightarrow> length (rs_body r))"

lemma bodySize_bodyData: "bodySize r = length (bodyData r)"
  by (simp add: bodySize_def bodyData_def split: option.split)

section \<open>Serialisation\<close>

text \<open>The header lines, without their line ends, in the order the code appends them.\<close>

definition headerLines :: "(header_list \<Rightarrow> header_list) \<Rightarrow> http_response \<Rightarrow> string list" where
  "headerLines ord r =
     [''HTTP/1.1 '' @ to_string_int (rs_status r) @ '' '' @ rs_reason r] @
     (if rs_exposeServerHeader r then [''Server: HydrogenHttpd''] else []) @
     [''Connection: close'',
      ''Content-Length: '' @ to_string (bodySize r),
      ''Content-Type: '' @ rs_contentType r] @
     (if rs_cacheControl r \<noteq> [] then [''Cache-Control: '' @ rs_cacheControl r] else []) @
     [''X-Content-Type-Options: nosniff'',
      ''X-Frame-Options: DENY'',
      ''X-XSS-Protection: 0'',
      ''Referrer-Policy: strict-origin-when-cross-origin'',
      ''Permissions-Policy: geolocation=(), microphone=(), camera=(), payment=(), usb=(), interest-cohort=()'',
      ''Cross-Origin-Opener-Policy: same-origin'',
      ''Cross-Origin-Resource-Policy: same-origin'',
      ''Content-Security-Policy: default-src 'self'; object-src 'none'; frame-ancestors 'none'; base-uri 'self'; form-action 'self';''] @
     (if rs_tls r then [''Strict-Transport-Security: max-age=31536000; includeSubDomains''] else []) @
     map (\<lambda>(name, value). name @ '': '' @ value) (ord (rs_extraHeaders r))"

definition join_lines :: "string list \<Rightarrow> string" where
  "join_lines ls = concat (map (\<lambda>l. l @ crlf) ls)"

definition headersToString :: "(header_list \<Rightarrow> header_list) \<Rightarrow> http_response \<Rightarrow> string" where
  "headersToString ord r = join_lines (headerLines ord r) @ crlf"

definition response_toString :: "(header_list \<Rightarrow> header_list) \<Rightarrow> http_response \<Rightarrow> string" where
  "response_toString ord r = headersToString ord r @ (if rs_headOnly r then [] else bodyData r)"

definition iteration_order :: "(header_list \<Rightarrow> header_list) \<Rightarrow> bool" where
  "iteration_order ord \<longleftrightarrow> (\<forall>m. mset (ord m) = mset m)"

lemma iteration_order_set: "iteration_order ord \<Longrightarrow> set (ord m) = set m"
  unfolding iteration_order_def by (metis set_mset_mset)

lemma join_lines_simps [simp]:
  "join_lines [] = []"
  "join_lines (l # ls) = l @ crlf @ join_lines ls"
  "join_lines (ls @ ls') = join_lines ls @ join_lines ls'"
  by (simp_all add: join_lines_def)

section \<open>Framing of lines\<close>

text \<open>
  Pieces without a line end joined by line ends: the first empty line is the one that
  closes the block.
\<close>

definition crlf2 :: string where
  "crlf2 = [CR, LF, CR, LF]"

lemma index_of_skip:
  "(\<And>j. j < length p \<Longrightarrow> \<not> prefix n (drop j (p @ s))) \<Longrightarrow>
     index_of n (p @ s) = map_option (\<lambda>i. length p + i) (index_of n s)"
proof (induction p)
  case Nil
  then show ?case by (cases "index_of n s") auto
next
  case (Cons c p)
  have "\<not> prefix n (c # p @ s)" using Cons.prems [of 0] by simp
  moreover have "index_of n (p @ s) = map_option (\<lambda>i. length p + i) (index_of n s)"
  proof (rule Cons.IH)
    fix j assume "j < length p"
    then show "\<not> prefix n (drop j (p @ s))" using Cons.prems [of "Suc j"] by simp
  qed
  ultimately show ?case by (cases "index_of n s") auto
qed

text \<open>A line that has no carriage return or no line feed contains no line end.\<close>

definition unbroken :: "string \<Rightarrow> bool" where
  "unbroken l \<longleftrightarrow> CR \<notin> set l \<or> LF \<notin> set l"

lemma no_crlf2_in_line:
  assumes "unbroken l" "j < length l"
  shows "\<not> prefix crlf2 (drop j (l @ crlf @ s))"
proof
  assume p: "prefix crlf2 (drop j (l @ crlf @ s))"
  have d: "drop j (l @ crlf @ s) = l ! j # drop (Suc j) (l @ crlf @ s)"
    using assms(2) by (simp add: Cons_nth_drop_Suc [symmetric])
  with p have cr: "l ! j = CR" and lf: "prefix [LF] (drop (Suc j) (l @ crlf @ s))"
    by (auto simp: crlf2_def prefix_def)
  show False
  proof (cases "Suc j < length l")
    case True
    then have "drop (Suc j) (l @ crlf @ s) = l ! Suc j # drop (Suc (Suc j)) (l @ crlf @ s)"
      by (simp add: Cons_nth_drop_Suc [symmetric])
    with lf have "l ! Suc j = LF" by simp
    with cr True assms show False by (metis unbroken_def nth_mem)
  next
    case False
    with assms(2) have "drop (Suc j) (l @ crlf @ s) = crlf @ s" by simp
    with lf show False by (simp add: crlf_def)
  qed
qed

lemma no_crlf_before_line:
  assumes "unbroken l" "l \<noteq> []"
  shows "\<not> prefix crlf (l @ crlf @ s)"
proof (cases l)
  case (Cons a k)
  then show ?thesis using assms(1) by (cases k) (auto simp: crlf_def unbroken_def)
qed (use assms in simp)

lemma index_of_crlf2_line:
  assumes "unbroken l" "\<not> prefix crlf s"
  shows "index_of crlf2 (l @ crlf @ s) = map_option (\<lambda>i. length l + 2 + i) (index_of crlf2 s)"
proof -
  have "index_of crlf2 ((l @ crlf) @ s) = map_option (\<lambda>i. length (l @ crlf) + i) (index_of crlf2 s)"
  proof (rule index_of_skip)
    fix j assume j: "j < length (l @ crlf)"
    consider "j < length l" | "j = length l" | "j = Suc (length l)"
      using j by (force simp: crlf_def)
    then show "\<not> prefix crlf2 (drop j ((l @ crlf) @ s))"
    proof cases
      case 1
      then show ?thesis using no_crlf2_in_line [OF assms(1)] by simp
    next
      case 2
      then show ?thesis using assms(2) by (simp add: crlf2_def crlf_def)
    next
      case 3
      then show ?thesis by (simp add: crlf2_def crlf_def)
    qed
  qed
  then show ?thesis by (simp add: crlf_def add.assoc)
qed

lemma index_of_crlf2_lines:
  assumes "ls \<noteq> []" "\<And>l. l \<in> set ls \<Longrightarrow> unbroken l" "\<And>l. l \<in> set (tl ls) \<Longrightarrow> l \<noteq> []"
  shows "index_of crlf2 (join_lines ls @ crlf @ s) = Some (length (join_lines ls) - 2)"
  using assms
proof (induction ls)
  case (Cons l ls)
  show ?case
  proof (cases ls)
    case Nil
    have "index_of crlf2 (l @ crlf @ crlf @ s) = Some (length l)"
    proof (rule index_of_eqI)
      show "prefix crlf2 (drop (length l) (l @ crlf @ crlf @ s))"
        by (simp add: crlf2_def crlf_def)
      show "\<And>j. j < length l \<Longrightarrow> \<not> prefix crlf2 (drop j (l @ crlf @ crlf @ s))"
        using no_crlf2_in_line Cons.prems(2) by simp
    qed simp
    then show ?thesis using Nil by (simp add: crlf_def)
  next
    case (Cons l' ls')
    then have "\<not> prefix crlf (join_lines ls @ crlf @ s)"
      using no_crlf_before_line [of l' "join_lines ls' @ crlf @ s"] Cons.prems(2,3) by simp
    then have "index_of crlf2 (l @ crlf @ join_lines ls @ crlf @ s) =
        map_option (\<lambda>i. length l + 2 + i) (index_of crlf2 (join_lines ls @ crlf @ s))"
      using Cons.prems(2) by (intro index_of_crlf2_line) auto
    also have "index_of crlf2 (join_lines ls @ crlf @ s) = Some (length (join_lines ls) - 2)"
      using Cons Cons.prems by (intro Cons.IH) auto
    finally show ?thesis using Cons by (simp add: crlf_def)
  qed
qed simp

section \<open>The framing of a response\<close>

definition one_line :: "string \<Rightarrow> bool" where
  "one_line s \<longleftrightarrow> LF \<notin> set s"

definition response_one_line :: "http_response \<Rightarrow> bool" where
  "response_one_line r \<longleftrightarrow>
     one_line (rs_reason r) \<and> one_line (rs_contentType r) \<and> one_line (rs_cacheControl r) \<and>
     list_all (\<lambda>(n, v). one_line n \<and> one_line v) (rs_extraHeaders r)"

lemma digit_not_LF: "isdigit c \<Longrightarrow> c \<noteq> LF"
  by (auto simp: isdigit_def uc_def)

lemma one_line_to_string: "LF \<notin> set (to_string n)"
  using to_string_digits digit_not_LF by blast

lemma one_line_to_string_int: "LF \<notin> set (to_string_int i)"
  by (simp add: to_string_int_def one_line_to_string)

lemma headerLines_one_line:
  assumes "iteration_order ord" "response_one_line r" "l \<in> set (headerLines ord r)"
  shows "LF \<notin> set l"
  using assms
  by (auto simp: headerLines_def response_one_line_def one_line_def one_line_to_string one_line_to_string_int
      list_all_iff iteration_order_set split: if_splits)

lemma headerLines_nonempty: "l \<in> set (headerLines ord r) \<Longrightarrow> l \<noteq> []"
  by (auto simp: headerLines_def split: if_splits)

lemma headerLines_not_Nil: "headerLines ord r \<noteq> []"
  by (simp add: headerLines_def)

lemma content_length_line: "''Content-Length: '' @ to_string (length (bodyData r)) \<in> set (headerLines ord r)"
  by (simp add: headerLines_def bodySize_bodyData)

lemma headersToString_end:
  assumes "iteration_order ord" "response_one_line r"
  shows "find_str (headersToString ord r @ s) crlf2 = Some (length (headersToString ord r) - 4)"
proof -
  have "index_of crlf2 (join_lines (headerLines ord r) @ crlf @ s) =
      Some (length (join_lines (headerLines ord r)) - 2)"
    by (rule index_of_crlf2_lines)
      (auto simp: headerLines_not_Nil unbroken_def dest: headerLines_one_line [OF assms] headerLines_nonempty list.set_sel(2) [OF headerLines_not_Nil])
  then show ?thesis
    by (simp add: headersToString_def find_str_def find_from_0) (simp add: crlf_def)
qed

text \<open>
  A serialised response is framed unambiguously: the first empty line ends the header block,
  the announced Content-Length is the length of the body data, and exactly these bytes (none for
  a HEAD response) follow the header block.
\<close>

theorem response_framing:
  assumes "iteration_order ord" "response_one_line r"
  shows "find_str (response_toString ord r) crlf2 = Some (length (headersToString ord r) - 4) \<and>
    ''Content-Length: '' @ to_string (length (bodyData r)) \<in> set (headerLines ord r) \<and>
    drop (length (headersToString ord r)) (response_toString ord r) =
      (if rs_headOnly r then [] else bodyData r)"
  using headersToString_end [OF assms] content_length_line
  by (simp add: response_toString_def)

theorem response_framing_witness:
  "find_str (response_toString rev (default_response\<lparr>rs_body := ''a'' @ crlf2\<rparr>)) crlf2 =
     Some (length (headersToString rev (default_response\<lparr>rs_body := ''a'' @ crlf2\<rparr>)) - 4)"
  using response_framing [of rev "default_response\<lparr>rs_body := ''a'' @ crlf2\<rparr>"]
  by (simp add: iteration_order_def response_one_line_def default_response_def one_line_def)

end
