(* ===== verification/HeaderScan.thy ===== *)
theory HeaderScan
  imports Http
begin

text \<open>
  The loop shared by the three header readers of the program (the strict parser, the
  header-only parser of the upload path and the Content-Length scanner): from a position,
  find the next \<open>"\r\n"\<close>, stop at an empty line, otherwise process the line and go on behind
  the line end. The body of the loop is the argument \<open>step\<close> (given the start and end
  position and the line), what happens without a line end is \<open>none\<close>.
\<close>

section \<open>The loop\<close>

lemma find_from_crlf_bounds: "find_from raw crlf start = Some e \<Longrightarrow> start \<le> e \<and> e + 2 \<le> length raw"
  using find_from_Some [of raw crlf start e] by (simp add: crlf_def)

function scan_lines ::
  "string \<Rightarrow> (nat \<Rightarrow> nat \<Rightarrow> string \<Rightarrow> 'a \<Rightarrow> 'e + 'a) \<Rightarrow> ('a \<Rightarrow> 'e + 'a) \<Rightarrow> nat \<Rightarrow> 'a \<Rightarrow> 'e + 'a" where
  "scan_lines raw step none start acc =
     (case find_from raw crlf start of
        None \<Rightarrow> none acc
      | Some e \<Rightarrow>
          if e = start then Inr acc
          else (case step start e (substr raw start (e - start)) acc of
                  Inl x \<Rightarrow> Inl x
                | Inr acc' \<Rightarrow> scan_lines raw step none (e + 2) acc'))"
  by pat_completeness auto
termination
  by (relation "measure (\<lambda>(raw, step, none, start, acc). length raw - start)")
    (auto dest: find_from_crlf_bounds)

declare scan_lines.simps [simp del]

section \<open>Invariants and simulations of the loop\<close>

lemma scan_lines_invariant:
  assumes "scan_lines raw step none start acc = Inr r" "P acc"
    and "\<And>s e a a'. P a \<Longrightarrow> step s e (substr raw s (e - s)) a = Inr a' \<Longrightarrow> P a'"
    and "\<And>a a'. P a \<Longrightarrow> none a = Inr a' \<Longrightarrow> P a'"
  shows "P r"
  using assms
proof (induction raw step none start acc rule: scan_lines.induct)
  case (1 raw step none start acc)
  note unfold = scan_lines.simps [of raw step none start acc]
  show ?case
  proof (cases "find_from raw crlf start")
    case None
    with "1.prems"(1) have "none acc = Inr r" by (simp add: unfold)
    with "1.prems"(2) show ?thesis by (rule "1.prems"(4))
  next
    case (Some e)
    show ?thesis
    proof (cases "e = start")
      case True
      with Some "1.prems"(1,2) show ?thesis by (simp add: unfold)
    next
      case False
      with Some "1.prems"(1) obtain a' where a': "step start e (substr raw start (e - start)) acc = Inr a'"
        and r: "scan_lines raw step none (e + 2) a' = Inr r"
        by (auto simp: unfold split: sum.splits)
      have "P a'" by (rule "1.prems"(3) [OF "1.prems"(2) a'])
      then show ?thesis by (rule "1.IH" [OF Some False a' r _ "1.prems"(3,4)])
    qed
  qed
qed

text \<open>A loop that fails, fails as one of its steps or its end does.\<close>

lemma scan_lines_failure:
  assumes "scan_lines raw step none start acc = Inl x"
    and "\<And>s e l a. step s e l a = Inl x \<Longrightarrow> P x" and "\<And>a. none a = Inl x \<Longrightarrow> P x"
  shows "P x"
  using assms
proof (induction raw step none start acc rule: scan_lines.induct)
  case (1 raw step none start acc)
  note unfold = scan_lines.simps [of raw step none start acc]
  show ?case
  proof (cases "find_from raw crlf start")
    case None
    with "1.prems" show ?thesis by (simp add: unfold)
  next
    case (Some e)
    with "1.prems"(1) have "e \<noteq> start" by (auto simp: unfold)
    with Some "1.prems" "1.IH" [OF Some] show ?thesis by (simp add: unfold split: sum.splits)
  qed
qed

text \<open>
  Two loops over the same text that both finish stay related when each pair of steps keeps
  the relation.
\<close>

lemma scan_lines_agree:
  assumes "scan_lines raw step none start a = Inr r" "scan_lines raw step' none' start b = Inr q" "R a b"
    and "\<And>s e l a b a' b'. R a b \<Longrightarrow> step s e l a = Inr a' \<Longrightarrow> step' s e l b = Inr b' \<Longrightarrow> R a' b'"
    and "\<And>a a'. none a \<noteq> Inr a'"
  shows "R r q"
  using assms
proof (induction raw step none start a arbitrary: b rule: scan_lines.induct)
  case (1 raw step none start a)
  note unfold = scan_lines.simps [of raw step none start a] scan_lines.simps [of raw step' none' start b]
  show ?case
  proof (cases "find_from raw crlf start")
    case None
    with "1.prems"(1,5) show ?thesis by (simp add: unfold)
  next
    case (Some e)
    show ?thesis
    proof (cases "e = start")
      case True
      with Some "1.prems" show ?thesis by (simp add: unfold)
    next
      case False
      let ?l = "substr raw start (e - start)"
      from Some False "1.prems"(1,2) obtain a' b'
        where s: "step start e ?l a = Inr a'" "step' start e ?l b = Inr b'"
        and r: "scan_lines raw step none (e + 2) a' = Inr r" "scan_lines raw step' none' (e + 2) b' = Inr q"
        by (auto simp: unfold split: sum.splits)
      have "R a' b'" by (rule "1.prems"(4) [OF "1.prems"(3) s])
      then show ?thesis by (rule "1.IH" [OF Some False s(1) r _ "1.prems"(4,5)])
    qed
  qed
qed

text \<open>
  A loop that finishes over \<open>raw\<close> is followed by a related loop over \<open>raw'\<close> when both texts
  have the same lines from every start position that satisfies \<open>I\<close>.
\<close>

lemma scan_lines_simulation:
  assumes "scan_lines raw step none start a = Inr r" "R a b" "I start"
    and "\<And>s e. I s \<Longrightarrow> find_from raw crlf s = Some e \<Longrightarrow> find_from raw' crlf s = Some e \<and>
       substr raw' s (e - s) = substr raw s (e - s)"
    and "\<And>s e l a b a'. I s \<Longrightarrow> find_from raw crlf s = Some e \<Longrightarrow> R a b \<Longrightarrow> step s e l a = Inr a' \<Longrightarrow>
       \<exists>b'. step' s e l b = Inr b' \<and> R a' b' \<and> I (e + 2)"
    and "\<And>a a'. none a \<noteq> Inr a'"
  shows "\<exists>q. scan_lines raw' step' none' start b = Inr q \<and> R r q"
  using assms
proof (induction raw step none start a arbitrary: b rule: scan_lines.induct)
  case (1 raw step none start a)
  note unfold = scan_lines.simps [of raw step none start a] scan_lines.simps [of raw' step' none' start b]
  show ?case
  proof (cases "find_from raw crlf start")
    case None
    with "1.prems"(1,6) show ?thesis by (simp add: unfold)
  next
    case (Some e)
    have same: "find_from raw' crlf start = Some e" "substr raw' start (e - start) = substr raw start (e - start)"
      using "1.prems"(4) [OF "1.prems"(3) Some] by auto
    show ?thesis
    proof (cases "e = start")
      case True
      with Some same "1.prems"(1,2) show ?thesis by (simp add: unfold)
    next
      case False
      let ?l = "substr raw start (e - start)"
      from Some False "1.prems"(1) obtain a'
        where s: "step start e ?l a = Inr a'" and r: "scan_lines raw step none (e + 2) a' = Inr r"
        by (auto simp: unfold split: sum.splits)
      obtain b' where b': "step' start e ?l b = Inr b'" "R a' b'" "I (e + 2)"
        using "1.prems"(5) [OF "1.prems"(3) Some "1.prems"(2) s] by blast
      have "\<exists>q. scan_lines raw' step' none' (e + 2) b' = Inr q \<and> R r q"
        by (rule "1.IH" [OF Some False s r b'(2,3) "1.prems"(4-6)])
      then show ?thesis using same False b'(1) by (simp add: unfold)
    qed
  qed
qed

section \<open>The loop over a block of lines\<close>

text \<open>
  On a text made of lines without carriage returns the loop is a fold over the lines, each with
  its position.
\<close>

fun fold_lines ::
  "(nat \<Rightarrow> nat \<Rightarrow> string \<Rightarrow> 'a \<Rightarrow> 'e + 'a) \<Rightarrow> nat \<Rightarrow> string list \<Rightarrow> 'a \<Rightarrow> 'e + 'a" where
  "fold_lines step pos [] acc = Inr acc"
| "fold_lines step pos (l # ls) acc =
     (case step pos (pos + length l) l acc of
        Inl x \<Rightarrow> Inl x
      | Inr acc' \<Rightarrow> fold_lines step (pos + length l + 2) ls acc')"

lemma scan_lines_block:
  assumes "\<And>l. l \<in> set ls \<Longrightarrow> l \<noteq> [] \<and> CR \<notin> set l"
  shows "scan_lines (pre @ join_lines ls @ crlf @ rest) step none (length pre) acc =
    fold_lines step (length pre) ls acc"
  using assms
proof (induction ls arbitrary: pre acc)
  case Nil
  have "find_from (pre @ crlf @ rest) crlf (length pre) = Some (length pre)"
    using find_from_crlf [of "[]" pre rest] by simp
  then show ?case by (simp add: scan_lines.simps)
next
  case (Cons l ls)
  let ?raw = "pre @ join_lines (l # ls) @ crlf @ rest"
  have l: "l \<noteq> []" "CR \<notin> set l" using Cons.prems by auto
  have f: "find_from ?raw crlf (length pre) = Some (length pre + length l)"
    using find_from_crlf [OF l(2), of pre "join_lines ls @ crlf @ rest"] by simp
  have sub: "substr ?raw (length pre) (length pre + length l - length pre) = l"
    by (simp add: substr_def)
  have IH: "scan_lines ?raw step none (length pre + length l + 2) acc' =
      fold_lines step (length pre + length l + 2) ls acc'" for acc'
    using Cons.IH [of "pre @ l @ crlf" acc'] Cons.prems by (simp add: crlf_def)
  show ?case
    using l(1)
    by (cases "step (length pre) (length pre + length l) l acc")
      (simp_all only: scan_lines.simps [of ?raw step none "length pre" acc] f sub option.case
        fold_lines.simps IH sum.case, simp_all)
qed

end
