(* ===== verification/StrictHttp.thy ===== *)
theory StrictHttp
  imports HeaderScan
begin

text \<open>
  \<open>src/src/StrictHttp.cpp\<close>: the strict request parser. A failed parse
  (\<open>HttpParseResult\<close> with \<open>ok = false\<close>) is \<^const>\<open>Inl\<close> of its status, reason and
  message, a successful one \<^const>\<open>Inr\<close> of the request. The header loop is
  \<open>scan_lines\<close> with the loop body \<open>strict_header_step\<close>. The only size sum that can
  wrap is \<open>bodyOffset + len\<close>, with \<open>len\<close> read from the request: it is taken modulo
  \<open>2^64\<close>.
\<close>

section \<open>Limits and results\<close>

record http_parse_limits =
  maxHeaderLineBytes :: nat
  maxHeaders :: nat
  maxUriBytes :: nat
  maxMethodBytes :: nat
  maxBodyBytes :: nat

definition default_limits :: http_parse_limits where
  "default_limits =
     \<lparr>maxHeaderLineBytes = 4096, maxHeaders = 100, maxUriBytes = 2048, maxMethodBytes = 16,
      maxBodyBytes = 1024 * 1024\<rparr>"

record parse_failure =
  pf_status :: int
  pf_reason :: string
  pf_message :: string

definition parse_fail :: "int \<Rightarrow> string \<Rightarrow> string \<Rightarrow> parse_failure" where
  "parse_fail status reason body = \<lparr>pf_status = status, pf_reason = reason, pf_message = body\<rparr>"

definition bad_request :: parse_failure where
  "bad_request = parse_fail 400 ''Bad Request'' (''400 Bad Request'' @ [LF])"

definition headers_too_large :: parse_failure where
  "headers_too_large =
     parse_fail 431 ''Request Header Fields Too Large'' (''431 Request Header Fields Too Large'' @ [LF])"

definition method_not_allowed :: parse_failure where
  "method_not_allowed = parse_fail 405 ''Method Not Allowed'' (''405 Method Not Allowed'' @ [LF])"

definition uri_too_long :: parse_failure where
  "uri_too_long = parse_fail 414 ''URI Too Long'' (''414 URI Too Long'' @ [LF])"

definition version_not_supported :: parse_failure where
  "version_not_supported =
     parse_fail 505 ''HTTP Version Not Supported'' (''505 HTTP Version Not Supported'' @ [LF])"

definition not_implemented :: parse_failure where
  "not_implemented = parse_fail 501 ''Not Implemented'' (''501 Not Implemented'' @ [LF])"

definition payload_too_large :: parse_failure where
  "payload_too_large = parse_fail 413 ''Payload Too Large'' (''413 Payload Too Large'' @ [LF])"

section \<open>Character and token tests\<close>

definition isCtl :: "char \<Rightarrow> bool" where
  "isCtl c \<longleftrightarrow> uc c < 32 \<or> uc c = 127"

definition isDigits :: "string \<Rightarrow> bool" where
  "isDigits value = (value \<noteq> [] \<and> list_all isdigit value)"

definition token_char :: "char \<Rightarrow> bool" where
  "token_char c \<longleftrightarrow> isalnum c \<or> c \<in> set ''!#$%&'*+-.^_`|~''"

definition isToken :: "string \<Rightarrow> bool" where
  "isToken value \<longleftrightarrow> value \<noteq> [] \<and> list_all token_char value"

definition isblank :: "char \<Rightarrow> bool" where
  "isblank c \<longleftrightarrow> c = SP \<or> c = TAB"

section \<open>The parser\<close>

text \<open>\<open>first >> method >> target >> version; first >> extra\<close>\<close>

definition request_words :: "string \<Rightarrow> string \<times> string \<times> string \<times> string" where
  "request_words line =
     (let (m, r1) = next_word line; (t, r2) = next_word r1; (v, r3) = next_word r2
      in (m, t, v, fst (next_word r3)))"

record header_state =
  hs_count :: nat
  hs_contentLength :: string
  hs_sawHost :: bool
  hs_headers :: "string \<rightharpoonup> string"

definition init_header_state :: header_state where
  "init_header_state = \<lparr>hs_count = 0, hs_contentLength = [], hs_sawHost = False, hs_headers = Map.empty\<rparr>"

text \<open>The checks on one header after its name was put in lower case, and the update of the state.\<close>

definition accept_header :: "string \<Rightarrow> string \<Rightarrow> header_state \<Rightarrow> parse_failure + header_state" where
  "accept_header name value st =
     (if name = ''host'' \<and> hs_sawHost st then Inl bad_request
      else if name = ''transfer-encoding'' then Inl not_implemented
      else if name = ''content-length'' \<and> hs_contentLength st \<noteq> [] \<and> hs_contentLength st \<noteq> value
        then Inl bad_request
      else Inr (st\<lparr>hs_count := hs_count st + 1,
                   hs_contentLength := (if name = ''content-length'' then value else hs_contentLength st),
                   hs_sawHost := (name = ''host'' \<or> hs_sawHost st),
                   hs_headers := (hs_headers st)(name \<mapsto> value)\<rparr>))"

definition strict_header_step ::
  "http_parse_limits \<Rightarrow> nat \<Rightarrow> nat \<Rightarrow> nat \<Rightarrow> string \<Rightarrow> header_state \<Rightarrow> parse_failure + header_state" where
  "strict_header_step limits headerEnd start e line st =
     (if headerEnd < e then Inl bad_request
      else if maxHeaderLineBytes limits < e - start then Inl headers_too_large
      else if maxHeaders limits < hs_count st + 1 then Inl headers_too_large
      else if line \<noteq> [] \<and> isblank (hd line) then Inl bad_request
      else (case find_char line CHR '':'' of
              None \<Rightarrow> Inl bad_request
            | Some colon \<Rightarrow>
                let name = substr line 0 colon; value = strip isblank (drop (colon + 1) line)
                in if \<not> isToken name then Inl bad_request
                   else if list_ex (\<lambda>c. isCtl c \<and> c \<noteq> TAB) value then Inl bad_request
                   else accept_header (lowercase name) value st))"

definition strict_body ::
  "http_parse_limits \<Rightarrow> string \<Rightarrow> nat \<Rightarrow> string \<Rightarrow> http_request \<Rightarrow> parse_failure + http_request" where
  "strict_body limits raw bodyOffset contentLength req =
     (if contentLength = [] then Inr req
      else if \<not> isDigits contentLength then Inl bad_request
      else (case stoull contentLength of
              Inl _ \<Rightarrow> Inl bad_request
            | Inr len \<Rightarrow>
                if maxBodyBytes limits < len then Inl payload_too_large
                else if length raw < (bodyOffset + len) mod 2 ^ 64 then Inl bad_request
                else Inr (req\<lparr>rq_hasContentLength := True, rq_contentLength := len,
                              rq_body := substr raw bodyOffset len\<rparr>)))"

definition check_request_line ::
  "http_parse_limits \<Rightarrow> string \<Rightarrow> parse_failure + (string \<times> string \<times> string)" where
  "check_request_line limits requestLine =
     (let (m, t, v, extra) = request_words requestLine
      in if extra \<noteq> [] then Inl bad_request
         else if m = [] \<or> t = [] \<or> v = [] then Inl bad_request
         else if maxMethodBytes limits < length m then Inl method_not_allowed
         else if \<not> isToken m then Inl bad_request
         else if maxUriBytes limits < length t then Inl uri_too_long
         else if v \<noteq> ''HTTP/1.1'' \<and> v \<noteq> ''HTTP/1.0'' then Inl version_not_supported
         else Inr (m, t, v))"

definition strict_parse :: "string \<Rightarrow> http_parse_limits \<Rightarrow> parse_failure + http_request" where
  "strict_parse raw limits =
     (if raw = [] then Inl bad_request
      else (case find_str raw crlf2 of
        None \<Rightarrow> Inl bad_request
      | Some headerEnd \<Rightarrow>
        (case find_str raw crlf of
          None \<Rightarrow> Inl bad_request
        | Some e \<Rightarrow>
          if headerEnd < e then Inl bad_request
          else if maxHeaderLineBytes limits < e then Inl headers_too_large
          else (case check_request_line limits (substr raw 0 e) of
            Inl x \<Rightarrow> Inl x
          | Inr (m, t, v) \<Rightarrow>
            (case scan_lines raw (strict_header_step limits headerEnd) (\<lambda>_. Inl bad_request) (e + 2)
                    init_header_state of
              Inl x \<Rightarrow> Inl x
            | Inr st \<Rightarrow>
                if v = ''HTTP/1.1'' \<and> \<not> hs_sawHost st then Inl bad_request
                else strict_body limits raw (headerEnd + 4) (hs_contentLength st)
                  (default_request\<lparr>rq_method := m, rq_target := t, rq_version := v,
                                   rq_headers := hs_headers st\<rparr>))))))"

section \<open>Names and values\<close>

lemma token_char_not_space: "token_char c \<Longrightarrow> \<not> isspace c"
  by (auto simp: token_char_def ctype_defs uc_def)

lemma token_char_not_CR: "token_char c \<Longrightarrow> c \<noteq> CR"
  by (auto simp: token_char_def ctype_defs uc_def)

lemma token_char_not_colon: "token_char c \<Longrightarrow> c \<noteq> CHR '':''"
  by (auto simp: token_char_def ctype_defs uc_def)

lemma token_char_not_blank: "token_char c \<Longrightarrow> \<not> isblank c"
  by (auto simp: token_char_def isblank_def ctype_defs uc_def)

lemma token_char_tolower: "token_char c \<Longrightarrow> token_char (tolower c)"
  by (metis isalnum_tolower isalnum_def token_char_def tolower_fixed)

lemma isToken_lowercase: "isToken n \<Longrightarrow> isToken (lowercase n)"
  by (auto simp: isToken_def lowercase_def list_all_iff token_char_tolower)

definition value_ok :: "string \<Rightarrow> bool" where
  "value_ok v \<longleftrightarrow> clean_ends isblank v \<and> \<not> list_ex (\<lambda>c. isCtl c \<and> c \<noteq> TAB) v"

lemma value_ok_no_CR: "value_ok v \<Longrightarrow> CR \<notin> set v"
  by (auto simp: value_ok_def list_ex_iff isCtl_def uc_def)

lemma value_ok_no_LF: "value_ok v \<Longrightarrow> LF \<notin> set v"
  by (auto simp: value_ok_def list_ex_iff isCtl_def uc_def)

section \<open>What an accepted request looks like\<close>

definition header_inv :: "http_parse_limits \<Rightarrow> header_state \<Rightarrow> bool" where
  "header_inv limits st \<longleftrightarrow>
     (\<forall>n v. hs_headers st n = Some v \<longrightarrow> isToken n \<and> lowercase n = n \<and> value_ok v) \<and>
     hs_headers st ''transfer-encoding'' = None \<and>
     (hs_sawHost st \<longleftrightarrow> ''host'' \<in> dom (hs_headers st)) \<and>
     hs_contentLength st = (case hs_headers st ''content-length'' of None \<Rightarrow> [] | Some v \<Rightarrow> v) \<and>
     finite (dom (hs_headers st)) \<and> card (dom (hs_headers st)) \<le> hs_count st \<and>
     hs_count st \<le> maxHeaders limits"

lemma header_inv_init: "header_inv limits init_header_state"
  by (simp add: header_inv_def init_header_state_def)

lemma accept_header_inv:
  assumes "header_inv limits st" "accept_header name value st = Inr st'"
    "isToken name" "lowercase name = name" "value_ok value" "hs_count st < maxHeaders limits"
  shows "header_inv limits st'"
proof -
  have c: "card (insert name (dom (hs_headers st))) \<le> Suc (hs_count st)"
    using assms(1) card_insert_le_m1 [of "Suc (hs_count st)" "dom (hs_headers st)" name]
    by (simp add: header_inv_def)
  have te: "name \<noteq> ''transfer-encoding''"
    and st': "st' = st\<lparr>hs_count := hs_count st + 1,
        hs_contentLength := (if name = ''content-length'' then value else hs_contentLength st),
        hs_sawHost := (name = ''host'' \<or> hs_sawHost st), hs_headers := (hs_headers st)(name \<mapsto> value)\<rparr>"
    using assms(2) by (auto simp: accept_header_def split: if_splits)
  show ?thesis
    using assms(1,3-6) c te unfolding st' header_inv_def
    by (elim conjE, intro conjI) (simp_all, blast?)
qed

lemma strict_header_step_pieces:
  assumes "strict_header_step limits headerEnd s e line st = Inr st'"
  obtains name val where "isToken name" "value_ok val" "hs_count st < maxHeaders limits"
    "e \<le> headerEnd" "accept_header (lowercase name) val st = Inr st'"
proof -
  from assms obtain colon where c: "find_char line CHR '':'' = Some colon"
    by (simp add: strict_header_step_def split: if_splits option.splits)
  let ?name = "substr line 0 colon" and ?val = "strip isblank (drop (colon + 1) line)"
  from assms c have t: "isToken ?name" and v: "\<not> list_ex (\<lambda>c. isCtl c \<and> c \<noteq> TAB) ?val"
    and n: "\<not> maxHeaders limits < hs_count st + 1" "\<not> headerEnd < e"
    and a: "accept_header (lowercase ?name) ?val st = Inr st'"
    by (simp_all add: strict_header_step_def Let_def split: if_splits)
  then have "value_ok ?val" by (simp add: value_ok_def strip_clean_ends)
  with t n a show ?thesis by (intro that) simp_all
qed

lemma strict_header_step_inv:
  assumes "header_inv limits st" "strict_header_step limits headerEnd s e line st = Inr st'"
  shows "header_inv limits st'"
  using assms(2)
  by (rule strict_header_step_pieces) (auto intro!: accept_header_inv [OF assms(1)] simp: isToken_lowercase)

lemma strict_scan_inv:
  "scan_lines raw (strict_header_step limits headerEnd) (\<lambda>_. Inl bad_request) start init_header_state = Inr st \<Longrightarrow>
     header_inv limits st"
  by (erule scan_lines_invariant [where P = "header_inv limits"])
    (auto intro: header_inv_init strict_header_step_inv)

lemma request_words_no_space:
  assumes "request_words line = (m, t, v, x)"
  shows "\<forall>c \<in> set t. \<not> isspace c"
proof -
  have "t = fst (next_word (snd (next_word line)))"
    using assms by (auto simp: request_words_def Let_def split: prod.splits)
  then show ?thesis using next_word_no_space by blast
qed

lemma check_request_line_sound:
  assumes "check_request_line limits line = Inr (m, t, v)"
  shows "isToken m" "length m \<le> maxMethodBytes limits" "t \<noteq> []" "length t \<le> maxUriBytes limits"
    "\<forall>c \<in> set t. \<not> isspace c" "v = ''HTTP/1.1'' \<or> v = ''HTTP/1.0''"
  using assms request_words_no_space
  by (auto simp: check_request_line_def Let_def split: prod.splits if_splits)

text \<open>The pieces of a successful parse.\<close>

lemma strict_parse_pieces:
  assumes "strict_parse raw limits = Inr r"
  obtains headerEnd e m t v st where
    "find_str raw crlf2 = Some headerEnd" "find_str raw crlf = Some e" "e \<le> headerEnd"
    "e \<le> maxHeaderLineBytes limits"
    "check_request_line limits (substr raw 0 e) = Inr (m, t, v)"
    "scan_lines raw (strict_header_step limits headerEnd) (\<lambda>_. Inl bad_request) (e + 2)
       init_header_state = Inr st"
    "v = ''HTTP/1.1'' \<longrightarrow> hs_sawHost st"
    "strict_body limits raw (headerEnd + 4) (hs_contentLength st)
       (default_request\<lparr>rq_method := m, rq_target := t, rq_version := v, rq_headers := hs_headers st\<rparr>) = Inr r"
  using assms
  by (auto simp: strict_parse_def not_less split: if_splits option.splits sum.splits prod.splits)

lemma strict_body_cases:
  assumes "strict_body limits raw off cl req = Inr r"
  obtains "cl = []" "r = req"
  | len where "isDigits cl" "stoull cl = Inr len" "len \<le> maxBodyBytes limits"
      "(off + len) mod 2 ^ 64 \<le> length raw"
      "r = req\<lparr>rq_hasContentLength := True, rq_contentLength := len, rq_body := substr raw off len\<rparr>"
  using assms by (auto simp: strict_body_def not_less split: if_splits sum.splits)

definition accepted_request :: "http_parse_limits \<Rightarrow> http_request \<Rightarrow> bool" where
  "accepted_request limits r \<longleftrightarrow>
     isToken (rq_method r) \<and> length (rq_method r) \<le> maxMethodBytes limits \<and>
     rq_target r \<noteq> [] \<and> length (rq_target r) \<le> maxUriBytes limits \<and>
     (\<forall>c \<in> set (rq_target r). \<not> isspace c) \<and>
     (rq_version r = ''HTTP/1.1'' \<and> ''host'' \<in> dom (rq_headers r) \<or> rq_version r = ''HTTP/1.0'') \<and>
     (\<forall>n v. rq_headers r n = Some v \<longrightarrow> isToken n \<and> lowercase n = n \<and> value_ok v) \<and>
     ''transfer-encoding'' \<notin> dom (rq_headers r) \<and>
     finite (dom (rq_headers r)) \<and> card (dom (rq_headers r)) \<le> maxHeaders limits \<and>
     rq_contentLength r \<le> maxBodyBytes limits \<and>
     length (rq_body r) \<le> rq_contentLength r \<and>
     (if rq_hasContentLength r
      then \<exists>cl. rq_headers r ''content-length'' = Some cl \<and> isDigits cl \<and> digits_val cl = rq_contentLength r
      else rq_contentLength r = 0 \<and> rq_body r = [])"

lemma isDigits_stoull:
  assumes "isDigits cl" "stoull cl = Inr len"
  shows "digits_val cl = len"
proof -
  have "all_digits cl" using assms(1) by (simp add: isDigits_def all_digits_def)
  with assms(2) show ?thesis by (auto simp: stoull_digits split: if_splits)
qed

lemma strict_parse_accepted:
  assumes "strict_parse raw limits = Inr r"
  shows "accepted_request limits r"
proof -
  from assms obtain headerEnd e m t v st where
    line: "check_request_line limits (substr raw 0 e) = Inr (m, t, v)" and
    scan: "scan_lines raw (strict_header_step limits headerEnd) (\<lambda>_. Inl bad_request) (e + 2)
       init_header_state = Inr st" and
    host: "v = ''HTTP/1.1'' \<longrightarrow> hs_sawHost st" and
    body: "strict_body limits raw (headerEnd + 4) (hs_contentLength st)
       (default_request\<lparr>rq_method := m, rq_target := t, rq_version := v, rq_headers := hs_headers st\<rparr>) = Inr r"
    by (rule strict_parse_pieces)
  have inv: "header_inv limits st" by (rule strict_scan_inv [OF scan])
  note facts = check_request_line_sound [OF line] host inv
  from body show ?thesis
  proof (cases rule: strict_body_cases)
    case 1
    with facts show ?thesis
      by (auto simp: accepted_request_def header_inv_def default_request_def)
  next
    case (2 len)
    then have "hs_contentLength st \<noteq> []" by (simp add: isDigits_def)
    then have "hs_headers st ''content-length'' = Some (hs_contentLength st)"
      using inv by (auto simp: header_inv_def split: option.splits)
    with 2 facts isDigits_stoull [OF 2(1,2)] show ?thesis
      by (auto simp: accepted_request_def header_inv_def default_request_def substr_def)
  qed
qed

text \<open>
  C5: whatever the strict parser accepts is well formed and within the limits.
\<close>

theorem strict_parse_sound:
  assumes "strict_parse raw limits = Inr r"
  shows "accepted_request limits r"
  using assms by (rule strict_parse_accepted)

section \<open>The body of an accepted request\<close>

lemma parsed_body:
  assumes "strict_parse raw limits = Inr r" "maxBodyBytes limits < 2 ^ 62" "length raw < 2 ^ 62"
  shows "\<exists>headerEnd. find_str raw crlf2 = Some headerEnd \<and>
    rq_body r = take (rq_contentLength r) (drop (headerEnd + 4) raw) \<and>
    length (rq_body r) = rq_contentLength r"
proof -
  from assms(1) obtain headerEnd e m t v and st :: header_state where
    he: "find_str raw crlf2 = Some headerEnd" and
    body: "strict_body limits raw (headerEnd + 4) (hs_contentLength st)
       (default_request\<lparr>rq_method := m, rq_target := t, rq_version := v, rq_headers := hs_headers st\<rparr>) = Inr r"
    by (rule strict_parse_pieces) blast
  have le: "headerEnd + 4 \<le> length raw"
    using he find_from_Some(2) [of raw crlf2 0 headerEnd] by (simp add: find_str_def crlf2_def)
  from body have "rq_body r = take (rq_contentLength r) (drop (headerEnd + 4) raw) \<and>
    length (rq_body r) = rq_contentLength r"
  proof (cases rule: strict_body_cases)
    case 1
    then show ?thesis by (simp add: default_request_def)
  next
    case (2 len)
    then have "headerEnd + 4 + len < 2 ^ 64" using assms(2,3) le by simp
    with 2 have "headerEnd + 4 + len \<le> length raw" by simp
    with 2 show ?thesis by (simp add: substr_def default_request_def)
  qed
  with he show ?thesis by blast
qed

text \<open>
  C16: with limits that rule out wrap-around (the configuration loader bounds
  \<open>max_body_bytes\<close> by 64 MiB) an accepted request carries exactly the announced number of
  body bytes, taken right behind the header block.
\<close>

theorem strict_parse_body_exact:
  assumes "strict_parse raw limits = Inr r" "maxBodyBytes limits < 2 ^ 62" "length raw < 2 ^ 62"
  shows "\<exists>headerEnd. find_str raw crlf2 = Some headerEnd \<and>
    rq_body r = take (rq_contentLength r) (drop (headerEnd + 4) raw) \<and>
    length (rq_body r) = rq_contentLength r"
  using assms by (rule parsed_body)

section \<open>Printing and parsing a request\<close>

text \<open>
  A client's side of the protocol, for the round trip: the request line, one line per header and
  a Content-Length header for the body.
\<close>

definition header_line :: "string \<times> string \<Rightarrow> string" where
  "header_line h = fst h @ '': '' @ snd h"

definition with_length :: "header_list \<Rightarrow> string \<Rightarrow> header_list" where
  "with_length hs body = hs @ [(''Content-Length'', to_string (length body))]"

definition request_line :: "string \<Rightarrow> string \<Rightarrow> string \<Rightarrow> string" where
  "request_line m t v = m @ '' '' @ t @ '' '' @ v"

definition render_request :: "string \<Rightarrow> string \<Rightarrow> string \<Rightarrow> header_list \<Rightarrow> string \<Rightarrow> string" where
  "render_request m t v hs body =
     join_lines (request_line m t v # map header_line (with_length hs body)) @ crlf @ body"

definition sendable_header :: "http_parse_limits \<Rightarrow> string \<times> string \<Rightarrow> bool" where
  "sendable_header limits h \<longleftrightarrow>
     isToken (fst h) \<and> value_ok (snd h) \<and> length (header_line h) \<le> maxHeaderLineBytes limits \<and>
     lowercase (fst h) \<noteq> ''transfer-encoding''"

definition host_count :: "header_list \<Rightarrow> nat" where
  "host_count hs = length (filter (\<lambda>h. lowercase (fst h) = ''host'') hs)"

definition sendable :: "http_parse_limits \<Rightarrow> string \<Rightarrow> string \<Rightarrow> string \<Rightarrow> header_list \<Rightarrow> string \<Rightarrow> bool" where
  "sendable limits m t v hs body \<longleftrightarrow>
     isToken m \<and> length m \<le> maxMethodBytes limits \<and>
     t \<noteq> [] \<and> length t \<le> maxUriBytes limits \<and> list_all (\<lambda>c. \<not> isspace c) t \<and>
     length (request_line m t v) \<le> maxHeaderLineBytes limits \<and>
     (v = ''HTTP/1.1'' \<and> host_count hs = 1 \<or> v = ''HTTP/1.0'' \<and> host_count hs \<le> 1) \<and>
     list_all (sendable_header limits) (with_length hs body) \<and>
     list_all (\<lambda>h. lowercase (fst h) \<noteq> ''content-length'') hs \<and>
     length hs < maxHeaders limits \<and> length body \<le> maxBodyBytes limits \<and> maxBodyBytes limits < 2 ^ 62 \<and>
     length (render_request m t v hs body) < 2 ^ 62"

text \<open>The header map of the parsed request: of two headers of one name the later one stays.\<close>

definition header_map :: "header_list \<Rightarrow> (string \<rightharpoonup> string)" where
  "header_map hs = map_of (rev (map (\<lambda>h. (lowercase (fst h), snd h)) hs))"

lemma header_map_Nil [simp]: "header_map [] = Map.empty"
  by (simp add: header_map_def)

lemma header_map_snoc: "header_map (hs @ [h]) = (header_map hs)(lowercase (fst h) \<mapsto> snd h)"
  by (simp add: header_map_def)

lemma isblank_strip_space: "value_ok v \<Longrightarrow> strip isblank (SP # v) = v"
  using strip_front_append_skip [of "[SP]" isblank v]
  by (auto simp: value_ok_def strip_def isblank_def strip_front_def
      dest!: strip_fixed [of isblank v, unfolded strip_def strip_front_def])

lemma strict_header_step_line:
  assumes "sendable_header limits h" "hs_count st < maxHeaders limits" "s + length (header_line h) \<le> headerEnd"
  shows "strict_header_step limits headerEnd s (s + length (header_line h)) (header_line h) st =
    accept_header (lowercase (fst h)) (snd h) st"
proof -
  obtain n v where h: "h = (n, v)" by (cases h)
  have n: "isToken n" "n \<noteq> []" and v: "value_ok v"
    using assms(1) h by (auto simp: sendable_header_def isToken_def)
  have "CHR '':'' \<notin> set n" using n(1) token_char_not_colon by (auto simp: isToken_def list_all_iff)
  then have "find_char (header_line h) CHR '':'' = Some (length n)"
    using find_char_append [of "CHR '':''" n] h by (simp add: header_line_def)
  moreover have "\<not> isblank (hd (header_line h))" "header_line h \<noteq> []"
    using n h token_char_not_blank by (cases n; simp add: header_line_def isToken_def)+
  moreover have "substr (header_line h) 0 (length n) = n" "drop (length n + 1) (header_line h) = SP # v"
    using h by (simp_all add: header_line_def substr_def)
  ultimately show ?thesis
    using assms n(1) v h isblank_strip_space [OF v]
    by (simp add: strict_header_step_def sendable_header_def value_ok_def)
qed

text \<open>The state of the header loop after the lines of a list of headers.\<close>

definition after_headers :: "header_list \<Rightarrow> header_state" where
  "after_headers hs =
     \<lparr>hs_count = length hs,
      hs_contentLength = (case header_map hs ''content-length'' of None \<Rightarrow> [] | Some v \<Rightarrow> v),
      hs_sawHost = (0 < host_count hs), hs_headers = header_map hs\<rparr>"

lemma after_headers_Nil: "after_headers [] = init_header_state"
  by (simp add: after_headers_def init_header_state_def host_count_def)

definition no_clash :: "header_list \<Rightarrow> string \<times> string \<Rightarrow> bool" where
  "no_clash hs h \<longleftrightarrow>
     (lowercase (fst h) = ''host'' \<longrightarrow> host_count hs = 0) \<and>
     (lowercase (fst h) = ''content-length'' \<longrightarrow> header_map hs ''content-length'' = None)"

lemma accept_header_after:
  assumes "sendable_header limits h" "no_clash hs h"
  shows "accept_header (lowercase (fst h)) (snd h) (after_headers hs) = Inr (after_headers (hs @ [h]))"
  using assms
  by (auto simp: accept_header_def after_headers_def no_clash_def sendable_header_def header_map_snoc
      host_count_def)

lemma fold_header_lines:
  assumes "list_all (sendable_header limits) hs"
    "\<And>i. i < length hs \<Longrightarrow> no_clash (done @ take i hs) (hs ! i)"
    "length done + length hs \<le> maxHeaders limits"
    "pos + length (join_lines (map header_line hs)) \<le> headerEnd + 2"
  shows "fold_lines (strict_header_step limits headerEnd) pos (map header_line hs) (after_headers done) =
    Inr (after_headers (done @ hs))"
  using assms
proof (induction hs arbitrary: pos "done")
  case (Cons h hs)
  have h: "sendable_header limits h" using Cons.prems(1) by simp
  have "no_clash done h" using Cons.prems(2) [of 0] by simp
  moreover have "pos + length (header_line h) \<le> headerEnd" "hs_count (after_headers done) < maxHeaders limits"
    using Cons.prems(3,4) by (simp_all add: crlf_def after_headers_def)
  ultimately have step: "strict_header_step limits headerEnd pos (pos + length (header_line h)) (header_line h)
      (after_headers done) = Inr (after_headers (done @ [h]))"
    using h by (simp add: strict_header_step_line accept_header_after)
  have "fold_lines (strict_header_step limits headerEnd) (pos + length (header_line h) + 2)
      (map header_line hs) (after_headers (done @ [h])) = Inr (after_headers ((done @ [h]) @ hs))"
  proof (rule Cons.IH)
    fix i assume "i < length hs"
    then show "no_clash ((done @ [h]) @ take i hs) (hs ! i)" using Cons.prems(2) [of "Suc i"] by simp
  qed (use Cons.prems in \<open>auto simp: crlf_def\<close>)
  then show ?case by (simp add: step)
qed simp

lemma check_request_line_rendered:
  assumes "isToken m" "length m \<le> maxMethodBytes limits" "t \<noteq> []" "length t \<le> maxUriBytes limits"
    "list_all (\<lambda>c. \<not> isspace c) t" "v = ''HTTP/1.1'' \<or> v = ''HTTP/1.0''"
  shows "check_request_line limits (request_line m t v) = Inr (m, t, v)"
proof -
  have sp: "isspace SP" by (simp add: isspace_def uc_def)
  have v: "v \<noteq> []" "\<And>c. c \<in> set v \<Longrightarrow> \<not> isspace c" using assms(6) by (auto simp: isspace_def uc_def)
  have m: "m \<noteq> []" "\<And>c. c \<in> set m \<Longrightarrow> \<not> isspace c"
    using assms(1) token_char_not_space by (auto simp: isToken_def list_all_iff)
  have "next_word (request_line m t v) = (m, SP # t @ SP # v)"
    using next_word_word [OF m, of "SP # t @ SP # v"] sp by (simp add: request_line_def)
  moreover have "next_word (SP # t @ SP # v) = (t, SP # v)"
    using next_word_word [OF assms(3), of "SP # v"] assms(5) sp
    by (simp add: next_word_skip list_all_iff)
  moreover have "next_word (SP # v) = (v, [])"
    using next_word_word [OF v, of "[]"] sp by (simp add: next_word_skip)
  ultimately show ?thesis
    using assms m(1) v(1) by (auto simp: check_request_line_def request_words_def not_less)
qed

lemma host_count_append [simp]: "host_count (a @ b) = host_count a + host_count b"
  by (simp add: host_count_def)

lemma header_map_None: "header_map hs n = None \<longleftrightarrow> list_all (\<lambda>h. lowercase (fst h) \<noteq> n) hs"
  by (auto simp: header_map_def map_of_eq_None_iff list_all_iff image_image)

lemma content_length_name: "lowercase ''Content-Length'' = ''content-length''"
  by code_simp

lemma with_length_no_clash:
  assumes "host_count hs \<le> 1" "list_all (\<lambda>h. lowercase (fst h) \<noteq> ''content-length'') hs"
    "i < length (with_length hs body)"
  shows "no_clash (take i (with_length hs body)) (with_length hs body ! i)"
proof -
  let ?hs = "with_length hs body"
  have "?hs = take i ?hs @ ?hs ! i # drop (Suc i) ?hs" using assms(3) by (rule id_take_nth_drop)
  then have "host_count ?hs = host_count (take i ?hs) + host_count [?hs ! i] + host_count (drop (Suc i) ?hs)"
    by (metis append_Cons append_Nil host_count_append add.assoc)
  moreover have "host_count ?hs = host_count hs"
    using content_length_name by (simp add: with_length_def host_count_def)
  ultimately have "lowercase (fst (?hs ! i)) = ''host'' \<longrightarrow> host_count (take i ?hs) = 0"
    using assms(1) by (auto simp: host_count_def [of "[_]"])
  moreover have "take i ?hs = take i hs" using assms(3) by (simp add: with_length_def)
  then have "header_map (take i ?hs) ''content-length'' = None"
    using assms(2) by (auto simp: header_map_None list_all_iff dest: in_set_takeD)
  ultimately show ?thesis by (simp add: no_clash_def)
qed

lemma header_line_no_CR: "sendable_header limits h \<Longrightarrow> CR \<notin> set (header_line h)"
  using token_char_not_CR
  by (auto simp: sendable_header_def header_line_def isToken_def list_all_iff dest: value_ok_no_CR)

lemma header_line_not_Nil [simp]: "header_line h \<noteq> []"
  by (simp add: header_line_def)

lemma request_line_no_CR:
  assumes "isToken m" "list_all (\<lambda>c. \<not> isspace c) t" "v = ''HTTP/1.1'' \<or> v = ''HTTP/1.0''"
  shows "CR \<notin> set (request_line m t v)"
proof -
  have "isspace CR" by (simp add: isspace_def uc_def)
  with assms show ?thesis
    using token_char_not_CR by (auto simp: request_line_def isToken_def list_all_iff)
qed

text \<open>
  C15: parsing a rendered request gives back its method, target, version, headers and body.
\<close>

theorem strict_parse_render:
  assumes "sendable limits m t v hs body"
  shows "strict_parse (render_request m t v hs body) limits =
    Inr \<lparr>rq_method = m, rq_target = t, rq_version = v, rq_headers = header_map (with_length hs body),
         rq_body = body, rq_hasContentLength = True, rq_contentLength = length body\<rparr>"
proof -
  let ?rl = "request_line m t v" and ?hs = "with_length hs body"
  let ?hl = "map header_line ?hs" and ?raw = "render_request m t v hs body"
  let ?he = "length (join_lines (?rl # ?hl)) - 2"
  have m: "isToken m" "length m \<le> maxMethodBytes limits"
    and t: "t \<noteq> []" "length t \<le> maxUriBytes limits" "list_all (\<lambda>c. \<not> isspace c) t"
    and v: "v = ''HTTP/1.1'' \<or> v = ''HTTP/1.0''" and host: "host_count hs \<le> 1" "v = ''HTTP/1.1'' \<longrightarrow> host_count hs = 1"
    and hs: "list_all (sendable_header limits) ?hs" "list_all (\<lambda>h. lowercase (fst h) \<noteq> ''content-length'') hs"
    and lens: "length ?rl \<le> maxHeaderLineBytes limits" "length hs < maxHeaders limits"
      "length body \<le> maxBodyBytes limits" "maxBodyBytes limits < 2 ^ 62" "length ?raw < 2 ^ 62"
    using assms by (auto simp: sendable_def)
  have raw: "?raw = join_lines (?rl # ?hl) @ crlf @ body" by (simp add: render_request_def)
  have lines: "\<And>l. l \<in> set ?hl \<Longrightarrow> l \<noteq> [] \<and> CR \<notin> set l"
    using hs(1) header_line_no_CR by (auto simp: list_all_iff)
  have rl: "CR \<notin> set ?rl" by (rule request_line_no_CR [OF m(1) t(3) v])
  have he: "find_str ?raw crlf2 = Some ?he"
    unfolding raw find_str_def find_from_0
    by (rule index_of_crlf2_lines) (use lines rl in \<open>auto simp: unbroken_def\<close>)
  have e: "find_str ?raw crlf = Some (length ?rl)"
    using find_from_crlf [OF rl, of "[]" "join_lines ?hl @ crlf @ body"] raw by (simp add: find_str_def)
  have hl2: "2 \<le> length (join_lines ?hl)" by (simp add: with_length_def crlf_def)
  then have le: "\<not> ?he < length ?rl" "\<not> maxHeaderLineBytes limits < length ?rl" using lens(1) by (simp_all add: crlf_def)
  have sub: "substr ?raw 0 (length ?rl) = ?rl" by (simp add: raw substr_def)
  have "scan_lines ?raw (strict_header_step limits ?he) (\<lambda>_. Inl bad_request) (length ?rl + 2) init_header_state =
      fold_lines (strict_header_step limits ?he) (length ?rl + 2) ?hl init_header_state"
    using scan_lines_block [where ls = ?hl and pre = "?rl @ crlf" and rest = body] lines raw by (simp add: crlf_def)
  also have "\<dots> = Inr (after_headers ?hs)"
    using fold_header_lines [of limits ?hs "[]" "length ?rl + 2" ?he]
      with_length_no_clash [OF host(1) hs(2)] hs(1) lens(2) hl2
    by (simp add: after_headers_Nil with_length_def crlf_def)
  finally have scan: "scan_lines ?raw (strict_header_step limits ?he) (\<lambda>_. Inl bad_request) (length ?rl + 2)
      init_header_state = Inr (after_headers ?hs)" .
  have cl: "hs_contentLength (after_headers ?hs) = to_string (length body)"
    using content_length_name by (simp add: after_headers_def with_length_def header_map_snoc)
  have saw: "v = ''HTTP/1.1'' \<longrightarrow> hs_sawHost (after_headers ?hs)"
    using host by (simp add: after_headers_def with_length_def)
  have off: "?he + 4 = length (join_lines (?rl # ?hl) @ crlf)" using hl2 by (simp add: crlf_def)
  then have "?he + 4 + length body = length ?raw" by (simp add: raw)
  moreover from this lens(5) have "(?he + 4 + length body) mod 2 ^ 64 = length ?raw" by simp
  moreover have "substr ?raw (?he + 4) (length body) = body"
    unfolding off raw by (simp add: substr_def)
  moreover have "isDigits (to_string (length body))"
    using all_digits_to_string [of "length body"] by (simp add: isDigits_def all_digits_def)
  ultimately have body: "strict_body limits ?raw (?he + 4) (to_string (length body)) req =
      Inr (req\<lparr>rq_hasContentLength := True, rq_contentLength := length body, rq_body := body\<rparr>)" for req
    using lens(3,4) by (simp add: strict_body_def)
  have "?raw \<noteq> []" by (simp add: raw crlf_def)
  then show ?thesis
    unfolding strict_parse_def he e option.case sub check_request_line_rendered [OF m t v] sum.case prod.case
      scan cl body
    using le saw by (simp add: after_headers_def default_request_def)
qed

section \<open>The theorems at concrete requests\<close>

definition example_post :: string where
  "example_post = render_request ''POST'' ''/submit.php'' ''HTTP/1.1'' [(''Host'', ''localhost'')] ''x=hello''"

lemma example_post_accepted: "strict_parse example_post default_limits = Inr (projr (strict_parse example_post default_limits))"
proof -
  have "\<not> isl (strict_parse example_post default_limits)" by code_simp
  then show ?thesis by simp
qed

theorem strict_parse_sound_witness:
  "accepted_request default_limits (projr (strict_parse example_post default_limits))"
  by (rule strict_parse_sound [OF example_post_accepted])

theorem strict_parse_body_exact_witness:
  "length (rq_body (projr (strict_parse example_post default_limits))) =
     rq_contentLength (projr (strict_parse example_post default_limits))"
proof -
  have "length example_post < 100" by code_simp
  then show ?thesis
    using strict_parse_body_exact [OF example_post_accepted] by (auto simp: default_limits_def)
qed

theorem strict_parse_render_witness:
  "strict_parse example_post default_limits =
    Inr \<lparr>rq_method = ''POST'', rq_target = ''/submit.php'', rq_version = ''HTTP/1.1'',
         rq_headers = header_map (with_length [(''Host'', ''localhost'')] ''x=hello''),
         rq_body = ''x=hello'', rq_hasContentLength = True, rq_contentLength = length ''x=hello''\<rparr>"
  unfolding example_post_def by (rule strict_parse_render) code_simp

end
