(* ===== verification/RequestReader.thy ===== *)
theory RequestReader
  imports StrictHttp
begin

text \<open>
  The request readers of \<open>src/src/Server.cpp\<close> (lines 38 to 296): reading the header block
  from a connection, the Content-Length scanner, the header-only parser that runs before the
  endpoints are chosen, and the completion of a request in memory. A connection is the list of
  what successive \<open>read_some\<close> calls can deliver: chunks of bytes or an error; the empty list
  is the end of the stream. A thrown \<open>std::runtime_error\<close> is \<^const>\<open>Inl\<close> of its message.
\<close>

section \<open>Connections\<close>

datatype read_event = Chunk string | ReadError string

type_synonym stream = "read_event list"

datatype read_result = GotEof | GotError string | Got string stream

text \<open>\<open>read_some\<close> with a buffer of \<open>n\<close> bytes: at most \<open>n\<close> bytes of the next chunk.\<close>

fun read_some :: "nat \<Rightarrow> stream \<Rightarrow> read_result" where
  "read_some n [] = GotEof"
| "read_some n (ReadError m # s) = GotError m"
| "read_some n (Chunk c # s) =
     (if length c \<le> n then Got c s else Got (take n c) (Chunk (drop n c) # s))"

fun stream_bytes :: "stream \<Rightarrow> string" where
  "stream_bytes [] = []"
| "stream_bytes (ReadError m # s) = []"
| "stream_bytes (Chunk c # s) = c @ stream_bytes s"

fun stream_size :: "stream \<Rightarrow> nat" where
  "stream_size [] = 0"
| "stream_size (ReadError m # s) = Suc (stream_size s)"
| "stream_size (Chunk c # s) = Suc (length c) + stream_size s"

lemma read_some_decreases: "read_some n s = Got b s' \<Longrightarrow> 0 < n \<Longrightarrow> stream_size s' < stream_size s"
  by (cases "(n, s)" rule: read_some.cases) (auto split: if_splits)

lemma read_some_bytes: "read_some n s = Got b s' \<Longrightarrow> stream_bytes s = b @ stream_bytes s' \<and> length b \<le> n"
  by (cases "(n, s)" rule: read_some.cases) (auto split: if_splits)

section \<open>The Content-Length scanner\<close>

definition trimHeaderValue :: "string \<Rightarrow> string" where
  "trimHeaderValue v = strip isblank v"

definition content_length_step ::
  "nat \<Rightarrow> nat \<Rightarrow> string \<Rightarrow> bool \<times> nat \<Rightarrow> unit + bool \<times> nat" where
  "content_length_step start e line acc =
     (case acc of (found, old) \<Rightarrow>
       (case find_char line CHR '':'' of
          None \<Rightarrow> Inr (found, old)
        | Some colon \<Rightarrow>
            if lowercase (substr line 0 colon) = ''content-length'' then
              (let text = trimHeaderValue (drop (colon + 1) line)
               in if text = [] then Inl ()
                  else if \<not> list_all isdigit text then Inl ()
                  else (case stoull text of
                          Inl _ \<Rightarrow> Inl ()
                        | Inr parsed \<Rightarrow>
                            if found \<and> parsed \<noteq> old then Inl () else Inr (True, parsed)))
            else Inr (found, old)))"

definition parseHeaderContentLength :: "string \<Rightarrow> nat option" where
  "parseHeaderContentLength headerPart =
     (case find_str headerPart crlf of
        None \<Rightarrow> None
      | Some e \<Rightarrow>
          (case scan_lines headerPart content_length_step Inr (e + 2) (False, 0) of
             Inl _ \<Rightarrow> None
           | Inr (found, v) \<Rightarrow> if found then Some v else None))"

section \<open>Reading the header block and the body\<close>

function fill_headers :: "nat \<Rightarrow> string \<Rightarrow> stream \<Rightarrow> string + string \<times> stream" where
  "fill_headers maxRequestBytes data s =
     (if find_str data crlf2 \<noteq> None then Inr (data, s)
      else if maxRequestBytes \<le> length data then Inl ''request headers too large''
      else (case read_some (min 512 (maxRequestBytes - length data)) s of
              GotEof \<Rightarrow> Inr (data, s)
            | GotError m \<Rightarrow> Inl (''failed to read request headers: '' @ m)
            | Got b s' \<Rightarrow> fill_headers maxRequestBytes (data @ b) s'))"
  by pat_completeness auto
termination
  by (relation "measure (\<lambda>(m, d, s). stream_size s)") (auto intro: read_some_decreases)

declare fill_headers.simps [simp del]

record header_read =
  hr_headerPart :: string
  hr_leftover :: string

definition readHeadersOnly :: "nat \<Rightarrow> stream \<Rightarrow> string + header_read \<times> stream" where
  "readHeadersOnly maxRequestBytes s =
     (case fill_headers maxRequestBytes [] s of
        Inl m \<Rightarrow> Inl m
      | Inr (data, s') \<Rightarrow>
          (case find_str data crlf2 of
             None \<Rightarrow> Inl ''incomplete HTTP headers''
           | Some headerEnd \<Rightarrow>
               Inr (\<lparr>hr_headerPart = substr data 0 (headerEnd + 4), hr_leftover = drop (headerEnd + 4) data\<rparr>, s')))"

function fill_body :: "nat \<Rightarrow> nat \<Rightarrow> string \<Rightarrow> stream \<Rightarrow> string + string \<times> stream" where
  "fill_body contentLength alreadyHave data s =
     (if alreadyHave < contentLength then
        (case read_some (min 512 (contentLength - alreadyHave)) s of
           GotEof \<Rightarrow> Inr (data, s)
         | GotError m \<Rightarrow> Inl (''failed to read request body: '' @ m)
         | Got b s' \<Rightarrow> fill_body contentLength (alreadyHave + length b) (data @ b) s')
      else Inr (data, s))"
  by pat_completeness auto
termination
  by (relation "measure (\<lambda>(n, h, d, s). stream_size s)") (auto intro: read_some_decreases)

declare fill_body.simps [simp del]

definition completeRequestInMemory ::
  "nat \<Rightarrow> header_read \<Rightarrow> stream \<Rightarrow> string + string \<times> stream" where
  "completeRequestInMemory max_body headers s =
     (case parseHeaderContentLength (hr_headerPart headers) of
        None \<Rightarrow> Inr (hr_headerPart headers, s)
      | Some contentLength \<Rightarrow>
          if contentLength = 0 then Inr (hr_headerPart headers, s)
          else if max_body < contentLength then Inr (hr_headerPart headers, s)
          else (case fill_body contentLength (length (hr_leftover headers))
                       (hr_headerPart headers @ hr_leftover headers) s of
                  Inl m \<Rightarrow> Inl m
                | Inr (data, s') \<Rightarrow>
                    Inr (if length (hr_headerPart headers) + contentLength < length data
                         then take (length (hr_headerPart headers) + contentLength) data else data, s')))"

definition readRequestWithBody :: "nat \<Rightarrow> nat \<Rightarrow> stream \<Rightarrow> string + string \<times> stream" where
  "readRequestWithBody maxRequestBytes max_body s =
     (case fill_headers maxRequestBytes [] s of
        Inl m \<Rightarrow> Inl m
      | Inr (data, s') \<Rightarrow>
          (case find_str data crlf2 of
             None \<Rightarrow> Inl ''incomplete HTTP headers''
           | Some headerEnd \<Rightarrow>
               let headerSize = headerEnd + 4; headerPart = substr data 0 headerSize
               in (case parseHeaderContentLength headerPart of
                     None \<Rightarrow> Inr (headerPart, s')
                   | Some contentLength \<Rightarrow>
                       if contentLength = 0 then Inr (headerPart, s')
                       else if max_body < contentLength then Inr (headerPart, s')
                       else let alreadyHave = length data - headerSize
                            in if contentLength \<le> alreadyHave
                               then Inr (take (headerSize + contentLength) data, s')
                               else fill_body contentLength alreadyHave data s')))"

section \<open>The header-only parser\<close>

definition localIsToken :: "string \<Rightarrow> bool" where
  "localIsToken s \<longleftrightarrow> s \<noteq> [] \<and> list_all token_char s"

definition headers_only_step ::
  "http_parse_limits \<Rightarrow> nat \<Rightarrow> nat \<Rightarrow> nat \<Rightarrow> string \<Rightarrow> header_state \<Rightarrow> parse_failure + header_state" where
  "headers_only_step limits headerEnd start e line st =
     (if headerEnd < e then Inl bad_request
      else if maxHeaderLineBytes limits < e - start then Inl headers_too_large
      else if maxHeaders limits < hs_count st + 1 then Inl headers_too_large
      else if line \<noteq> [] \<and> isblank (hd line) then Inl bad_request
      else (case find_char line CHR '':'' of
              None \<Rightarrow> Inl bad_request
            | Some colon \<Rightarrow>
                let name = lowercase (substr line 0 colon); val = trimHeaderValue (drop (colon + 1) line)
                in if \<not> localIsToken name then Inl bad_request
                   else accept_header name val st))"

definition headers_only_length ::
  "http_parse_limits \<Rightarrow> string \<Rightarrow> http_request \<Rightarrow> parse_failure + http_request" where
  "headers_only_length limits contentLengthText req =
     (if contentLengthText = [] then Inr req
      else if \<not> list_all isdigit contentLengthText then Inl bad_request
      else (case stoull contentLengthText of
              Inl _ \<Rightarrow> Inl bad_request
            | Inr len \<Rightarrow>
                if maxBodyBytes limits < len then Inl payload_too_large
                else Inr (req\<lparr>rq_hasContentLength := True, rq_contentLength := len\<rparr>)))"

definition parseHeadersOnly :: "string \<Rightarrow> http_parse_limits \<Rightarrow> parse_failure + http_request" where
  "parseHeadersOnly headerPart limits =
     (case find_str headerPart crlf2 of
        None \<Rightarrow> Inl bad_request
      | Some headerEnd \<Rightarrow>
        (case find_str headerPart crlf of
          None \<Rightarrow> Inl bad_request
        | Some lineEnd \<Rightarrow>
          if headerEnd < lineEnd then Inl bad_request
          else if maxHeaderLineBytes limits < lineEnd then Inl headers_too_large
          else (case check_request_line limits (substr headerPart 0 lineEnd) of
            Inl x \<Rightarrow> Inl x
          | Inr (m, t, v) \<Rightarrow>
            (case scan_lines headerPart (headers_only_step limits headerEnd) (\<lambda>_. Inl bad_request)
                    (lineEnd + 2) init_header_state of
              Inl x \<Rightarrow> Inl x
            | Inr st \<Rightarrow>
                if v = ''HTTP/1.1'' \<and> \<not> hs_sawHost st then Inl bad_request
                else headers_only_length limits (hs_contentLength st)
                  (default_request\<lparr>rq_method := m, rq_target := t, rq_version := v,
                                   rq_headers := hs_headers st\<rparr>)))))"

section \<open>The header block that was read\<close>

definition header_block :: "string \<Rightarrow> bool" where
  "header_block hp \<longleftrightarrow> 4 \<le> length hp \<and> find_str hp crlf2 = Some (length hp - 4)"

lemma fill_headers_spec:
  assumes "fill_headers maxb data s = Inr (data', s')" "length data \<le> maxb"
  shows "length data' \<le> maxb \<and> data' @ stream_bytes s' = data @ stream_bytes s"
  using assms
proof (induction maxb data s rule: fill_headers.induct)
  case (1 maxb data s)
  note unfold = fill_headers.simps [of maxb data s]
  show ?case
  proof (cases "find_str data crlf2 \<noteq> None \<or> read_some (min 512 (maxb - length data)) s = GotEof")
    case True
    with "1.prems" show ?thesis by (auto simp: unfold split: if_splits)
  next
    case False
    with "1.prems"(1) obtain b s2 where found: "\<not> find_str data crlf2 \<noteq> None" "\<not> maxb \<le> length data"
      and got: "read_some (min 512 (maxb - length data)) s = Got b s2"
      and rest: "fill_headers maxb (data @ b) s2 = Inr (data', s')"
      by (auto simp: unfold split: if_splits read_result.splits)
    have b: "stream_bytes s = b @ stream_bytes s2" "length (data @ b) \<le> maxb"
      using read_some_bytes [OF got] found(2) by auto
    show ?thesis using "1.IH" [OF found got rest b(2)] b(1) by simp
  qed
qed

lemma fill_body_spec:
  assumes "fill_body n have data s = Inr (data', s')"
  shows "prefix data data' \<and> data' @ stream_bytes s' = data @ stream_bytes s"
  using assms
proof (induction n "have" data s rule: fill_body.induct)
  case (1 n "have" data s)
  note unfold = fill_body.simps [of n "have" data s]
  show ?case
  proof (cases "have < n \<and> read_some (min 512 (n - have)) s \<noteq> GotEof")
    case False
    with "1.prems" show ?thesis by (auto simp: unfold split: if_splits)
  next
    case True
    with "1.prems" obtain b s2 where lt: "have < n"
      and got: "read_some (min 512 (n - have)) s = Got b s2"
      and rest: "fill_body n (have + length b) (data @ b) s2 = Inr (data', s')"
      by (auto simp: unfold split: if_splits read_result.splits)
    show ?thesis using "1.IH" [OF lt got rest] read_some_bytes [OF got]
      by (auto dest: append_prefixD)
  qed
qed

lemma find_crlf2_block:
  assumes "find_str data crlf2 = Some h"
  shows "header_block (take (h + 4) data)" "h + 4 \<le> length data"
proof -
  show le: "h + 4 \<le> length data"
    using find_from_Some(2) [of data crlf2 0 h] assms by (simp add: find_str_def crlf2_def)
  have pre: "prefix crlf2 (drop h data)" and least: "\<And>j. j < h \<Longrightarrow> \<not> prefix crlf2 (drop j data)"
    using assms find_from_Some(3) [of data crlf2 0 h] find_from_least [of data crlf2 0 h]
    by (auto simp: find_str_def)
  have "index_of crlf2 (take (h + 4) data) = Some h"
  proof (rule index_of_eqI)
    have "take 4 (drop h data) = crlf2" using pre by (auto simp: prefix_def crlf2_def)
    then show "prefix crlf2 (drop h (take (h + 4) data))" by (simp add: drop_take)
    fix j assume "j < h"
    then show "\<not> prefix crlf2 (drop j (take (h + 4) data))"
      using least [of j] by (metis append_take_drop_id drop_take prefixI prefix_order.trans)
  qed (use le in simp)
  then show "header_block (take (h + 4) data)"
    using le by (simp add: header_block_def find_str_def find_from_0)
qed

lemma header_block_read:
  assumes "readHeadersOnly maxb s = Inr (h, s')"
  shows "header_block (hr_headerPart h) \<and>
    stream_bytes s = hr_headerPart h @ hr_leftover h @ stream_bytes s' \<and>
    length (hr_headerPart h) + length (hr_leftover h) \<le> maxb"
proof -
  from assms obtain data e where fill: "fill_headers maxb [] s = Inr (data, s')"
    and e: "find_str data crlf2 = Some e"
    and h: "h = \<lparr>hr_headerPart = substr data 0 (e + 4), hr_leftover = drop (e + 4) data\<rparr>"
    by (auto simp: readHeadersOnly_def split: sum.splits option.splits)
  have sizes: "length data \<le> maxb" "stream_bytes s = data @ stream_bytes s'"
    using fill_headers_spec [OF fill] by auto
  show ?thesis
    using find_crlf2_block [OF e] sizes by (simp add: h substr_def)
qed

text \<open>
  C18: a successful header read yields a block that ends with its first empty line, is followed in
  the connection by the leftover and the unread rest, and never holds more than
  \<open>max_request_bytes\<close> bytes.
\<close>

theorem readHeadersOnly_spec:
  assumes "readHeadersOnly maxb s = Inr (h, s')"
  shows "header_block (hr_headerPart h) \<and>
    stream_bytes s = hr_headerPart h @ hr_leftover h @ stream_bytes s' \<and>
    length (hr_headerPart h) + length (hr_leftover h) \<le> maxb"
  using assms by (rule header_block_read)

section \<open>The two parsers agree\<close>

lemma localIsToken_eq: "localIsToken = isToken"
  by (auto simp: localIsToken_def isToken_def)

lemma headers_only_step_of_strict:
  assumes "strict_header_step limits headerEnd s e line st = Inr st'"
  shows "headers_only_step limits headerEnd s e line st = Inr st'"
proof -
  from assms obtain colon where colon: "find_char line CHR '':'' = Some colon"
    by (simp add: strict_header_step_def split: if_splits option.splits)
  then have "line \<noteq> []" by (auto simp: find_char_eq)
  with colon assms show ?thesis
    by (simp add: strict_header_step_def headers_only_step_def Let_def localIsToken_eq trimHeaderValue_def
        isToken_lowercase split: if_split_asm)
qed

lemma header_block_ends:
  assumes "header_block hp"
  shows "drop (length hp - 4) hp = crlf2"
proof -
  have "prefix crlf2 (drop (length hp - 4) hp)" and le: "4 \<le> length hp"
    using assms find_from_Some(3) [of hp crlf2 0 "length hp - 4"] by (auto simp: header_block_def find_str_def)
  then obtain zs where zs: "drop (length hp - 4) hp = crlf2 @ zs" by (auto simp: prefix_def)
  have "length (crlf2 @ zs) = 4" using arg_cong [OF zs, of length] le by simp
  then have "zs = []" by (simp add: crlf2_def)
  with zs show ?thesis by simp
qed

lemma header_block_crlf:
  assumes "header_block hp" "s + 2 \<le> length hp"
  obtains e where "find_from hp crlf s = Some e"
proof -
  have "4 \<le> length hp" using assms(1) by (simp add: header_block_def)
  then have two: "length hp - 2 = 2 + (length hp - 4)" by simp
  have "drop 2 (drop (length hp - 4) hp) = crlf"
    unfolding header_block_ends [OF assms(1)] by (simp add: crlf2_def crlf_def)
  then have "prefix crlf (drop (length hp - 2) hp)" by (simp only: two drop_drop prefix_order.refl)
  then have "\<not> (\<forall>j. s \<le> j \<and> j \<le> length hp \<longrightarrow> \<not> prefix crlf (drop j hp))"
    using assms(2) by (auto intro!: exI [of _ "length hp - 2"])
  then show ?thesis using that assms(2) find_from_None_iff [of s hp crlf] by fastforce
qed

lemma find_from_block:
  assumes "header_block hp" "s + 2 \<le> length hp" "find_from (hp @ b) crlf s = Some e"
  shows "find_from hp crlf s = Some e"
  using header_block_crlf [OF assms(1,2)] find_from_append [of hp crlf s _ b] assms(3)
  by (metis option.inject)

lemma headers_only_scan_of_strict:
  assumes hp: "header_block hp" and start: "start + 2 \<le> length hp"
    and "scan_lines (hp @ b) (strict_header_step limits (length hp - 4)) (\<lambda>_. Inl bad_request) start st0 = Inr st"
  shows "scan_lines hp (headers_only_step limits (length hp - 4)) (\<lambda>_. Inl bad_request) start st0 = Inr st"
proof -
  have "\<exists>q. scan_lines hp (headers_only_step limits (length hp - 4)) (\<lambda>_. Inl bad_request) start st0 = Inr q \<and> st = q"
  proof (rule scan_lines_simulation [OF assms(3), where R = "(=)" and I = "\<lambda>s. s + 2 \<le> length hp"])
    fix s e assume s: "s + 2 \<le> length hp" and e: "find_from (hp @ b) crlf s = Some e"
    have hpe: "find_from hp crlf s = Some e" by (rule find_from_block [OF hp s e])
    then have "e + 2 \<le> length hp" by (blast dest: find_from_crlf_bounds)
    with hpe show "find_from hp crlf s = Some e \<and> substr hp s (e - s) = substr (hp @ b) s (e - s)"
      by (simp add: substr_def)
  next
    fix s e l and a c a' :: header_state
    assume s: "s + 2 \<le> length hp" and step: "strict_header_step limits (length hp - 4) s e l a = Inr a'"
      and "a = c"
    have "e \<le> length hp - 4" using step by (rule strict_header_step_pieces)
    moreover have "4 \<le> length hp" using hp by (simp add: header_block_def)
    ultimately show "\<exists>c'. headers_only_step limits (length hp - 4) s e l c = Inr c' \<and> a' = c' \<and> e + 2 + 2 \<le> length hp"
      using headers_only_step_of_strict [OF step] \<open>a = c\<close> by auto
  qed (use start in auto)
  then show ?thesis by simp
qed

lemma header_only_of_strict:
  assumes "header_block hp" "strict_parse (hp @ b) limits = Inr r"
  shows "parseHeadersOnly hp limits = Inr (r\<lparr>rq_body := []\<rparr>)"
proof -
  let ?he = "length hp - 4"
  from assms(2) obtain headerEnd e m t v st where
    he: "find_str (hp @ b) crlf2 = Some headerEnd" and
    e: "find_str (hp @ b) crlf = Some e" "e \<le> headerEnd" "e \<le> maxHeaderLineBytes limits" and
    line: "check_request_line limits (substr (hp @ b) 0 e) = Inr (m, t, v)" and
    scan: "scan_lines (hp @ b) (strict_header_step limits headerEnd) (\<lambda>_. Inl bad_request) (e + 2)
       init_header_state = Inr st" and
    host: "v = ''HTTP/1.1'' \<longrightarrow> hs_sawHost st" and
    body: "strict_body limits (hp @ b) (headerEnd + 4) (hs_contentLength st)
       (default_request\<lparr>rq_method := m, rq_target := t, rq_version := v, rq_headers := hs_headers st\<rparr>) = Inr r"
    by (rule strict_parse_pieces)
  have hp: "find_str hp crlf2 = Some ?he" "4 \<le> length hp" using assms(1) by (simp_all add: header_block_def)
  have "find_str (hp @ b) crlf2 = Some ?he"
    using hp(1) unfolding find_str_def by (rule find_from_append)
  with he have he': "headerEnd = ?he" by simp
  have e': "find_str hp crlf = Some e"
    using find_from_block [OF assms(1), of 0 b e] hp(2) e(1) by (simp add: find_str_def)
  have line': "check_request_line limits (substr hp 0 e) = Inr (m, t, v)"
    using line e(2) he' hp(2) by (simp add: substr_def)
  have scan': "scan_lines hp (headers_only_step limits ?he) (\<lambda>_. Inl bad_request) (e + 2) init_header_state = Inr st"
    using headers_only_scan_of_strict [OF assms(1), of "e + 2"] scan e(2) hp(2) unfolding he' by simp
  have "headers_only_length limits (hs_contentLength st)
      (default_request\<lparr>rq_method := m, rq_target := t, rq_version := v, rq_headers := hs_headers st\<rparr>) =
      Inr (r\<lparr>rq_body := []\<rparr>)"
    using body by (rule strict_body_cases) (auto simp: headers_only_length_def isDigits_def default_request_def)
  then show ?thesis
    using hp e' e he' host unfolding parseHeadersOnly_def
    by (simp only: hp(1) e' option.case line' scan' sum.case prod.case) simp
qed

text \<open>
  C17: the header-only parser, which chooses the endpoint before the body is read, agrees with the
  strict parser on every request the latter accepts: same method, target, version, headers and
  body length.
\<close>

theorem parsers_agree:
  assumes "header_block hp" "strict_parse (hp @ b) limits = Inr r"
  shows "parseHeadersOnly hp limits = Inr (r\<lparr>rq_body := []\<rparr>)"
  using assms by (rule header_only_of_strict)

section \<open>The announced length\<close>

definition length_related :: "header_state \<Rightarrow> bool \<times> nat \<Rightarrow> bool" where
  "length_related st acc \<longleftrightarrow>
     (if fst acc then hs_contentLength st \<noteq> [] \<and> stoull (hs_contentLength st) = Inr (snd acc)
      else hs_contentLength st = [])"

lemma length_step_related:
  assumes "length_related a c" "headers_only_step limits headerEnd s e l a = Inr a'"
    "content_length_step s e l c = Inr c'"
  shows "length_related a' c'"
proof -
  from assms(2) obtain colon where colon: "find_char l CHR '':'' = Some colon"
    by (simp add: headers_only_step_def split: if_splits option.splits)
  let ?name = "lowercase (substr l 0 colon)" and ?val = "trimHeaderValue (drop (colon + 1) l)"
  have acc: "accept_header ?name ?val a = Inr a'"
    using assms(2) colon by (simp add: headers_only_step_def Let_def split: if_splits)
  show ?thesis
  proof (cases "?name = ''content-length''")
    case True
    then have "hs_contentLength a' = ?val" using acc by (auto simp: accept_header_def split: if_splits)
    with True assms(3) colon show ?thesis
      by (auto simp: content_length_step_def length_related_def Let_def split: if_splits sum.splits prod.splits)
  next
    case False
    then have "hs_contentLength a' = hs_contentLength a" using acc by (auto simp: accept_header_def split: if_splits)
    with False assms(1,3) colon show ?thesis
      by (auto simp: content_length_step_def length_related_def split: prod.splits)
  qed
qed

text \<open>
  Request framing: when the scanner that decides how many body bytes are read finds a length,
  a header block that the parser accepts announces the same length.
\<close>

theorem announced_length_agrees:
  assumes "parseHeaderContentLength hp = Some n" "parseHeadersOnly hp limits = Inr r"
  shows "rq_hasContentLength r \<and> rq_contentLength r = n"
proof -
  from assms(1) obtain e where e: "find_str hp crlf = Some e"
    and pl: "scan_lines hp content_length_step Inr (e + 2) (False, 0) = Inr (True, n)"
    by (auto simp: parseHeaderContentLength_def split: option.splits sum.splits prod.splits if_splits)
  from assms(2) e obtain headerEnd req st where
    scan: "scan_lines hp (headers_only_step limits headerEnd) (\<lambda>_. Inl bad_request) (e + 2) init_header_state = Inr st"
    and len: "headers_only_length limits (hs_contentLength st) req = Inr r"
    by (auto simp: parseHeadersOnly_def split: option.splits sum.splits prod.splits if_splits)
  have "length_related init_header_state (False, 0)" by (simp add: length_related_def init_header_state_def)
  then have "length_related st (True, n)"
    by (rule scan_lines_agree [OF scan pl]) (simp_all add: length_step_related)
  with len show ?thesis
    by (auto simp: length_related_def headers_only_length_def split: if_splits)
qed

section \<open>The request completed in memory\<close>

lemma completed_request:
  assumes "completeRequestInMemory maxbody h s = Inr (raw, s')"
  obtains b where "raw = hr_headerPart h @ b" "prefix b (hr_leftover h @ stream_bytes s)"
proof -
  let ?hp = "hr_headerPart h" and ?lo = "hr_leftover h"
  have "raw = ?hp \<or> (\<exists>n data. fill_body n (length ?lo) (?hp @ ?lo) s = Inr (data, s') \<and>
      (raw = take (length ?hp + n) data \<or> raw = data))"
    using assms by (fastforce simp: completeRequestInMemory_def split: option.splits if_splits sum.splits)
  then show ?thesis
  proof (elim disjE exE conjE)
    assume "raw = ?hp"
    then show ?thesis using that [of "[]"] by simp
  next
    fix n data assume f: "fill_body n (length ?lo) (?hp @ ?lo) s = Inr (data, s')" and "raw = data"
    from fill_body_spec [OF f] obtain zs where "data = ?hp @ ?lo @ zs"
      "?lo @ stream_bytes s = (?lo @ zs) @ stream_bytes s'"
      by (auto simp: prefix_def)
    then show ?thesis using that [of "?lo @ zs"] \<open>raw = data\<close> by simp
  next
    fix n data assume f: "fill_body n (length ?lo) (?hp @ ?lo) s = Inr (data, s')"
      and raw: "raw = take (length ?hp + n) data"
    from fill_body_spec [OF f] obtain zs where zs: "data = ?hp @ ?lo @ zs"
      "?lo @ stream_bytes s = (?lo @ zs) @ stream_bytes s'"
      by (auto simp: prefix_def)
    have "prefix (take n (?lo @ zs)) (?lo @ stream_bytes s)"
      unfolding zs(2) by (rule prefix_prefix [OF take_is_prefix])
    then show ?thesis by (intro that [of "take n (?lo @ zs)"]) (simp_all add: raw zs(1))
  qed
qed

text \<open>
  The body that the program works on is the announced number of bytes that the client sent
  right behind the header block: nothing of the leftover is lost and no byte of a following
  request is taken.
\<close>

theorem memory_request_body:
  assumes "readHeadersOnly maxb s = Inr (h, s1)" "completeRequestInMemory maxbody h s1 = Inr (raw, s2)"
    and "strict_parse raw limits = Inr r" "maxBodyBytes limits < 2 ^ 62" "length raw < 2 ^ 62"
  shows "prefix (hr_headerPart h @ rq_body r) (stream_bytes s) \<and> length (rq_body r) = rq_contentLength r"
proof -
  let ?hp = "hr_headerPart h"
  have hp: "header_block ?hp" and s: "stream_bytes s = ?hp @ hr_leftover h @ stream_bytes s1"
    using header_block_read [OF assms(1)] by auto
  obtain b where raw: "raw = ?hp @ b" and b: "prefix b (hr_leftover h @ stream_bytes s1)"
    using assms(2) by (rule completed_request)
  have "find_str raw crlf2 = Some (length ?hp - 4)" "4 \<le> length ?hp"
    using hp find_from_append unfolding raw header_block_def find_str_def by blast+
  with parsed_body [OF assms(3-5)] have "rq_body r = take (rq_contentLength r) b"
    "length (rq_body r) = rq_contentLength r" by (auto simp: raw)
  with b show ?thesis by (simp add: s prefix_order.trans [OF take_is_prefix])
qed

section \<open>The theorems at a concrete connection\<close>

definition example_stream :: stream where
  "example_stream = [Chunk (take 30 example_post), Chunk (drop 30 example_post @ ''GET'')]"

definition example_head :: string where
  "example_head = take (length example_post - 7) example_post"

lemma example_read:
  "readHeadersOnly 65536 example_stream = Inr (\<lparr>hr_headerPart = example_head, hr_leftover = ''x=helloGET''\<rparr>, [])"
  by code_simp

lemma example_completed:
  "completeRequestInMemory 1000 \<lparr>hr_headerPart = example_head, hr_leftover = ''x=helloGET''\<rparr> [] = Inr (example_post, [])"
  by code_simp

lemma example_head_block: "header_block example_head" and example_split: "example_head @ ''x=hello'' = example_post"
  by code_simp+

theorem readHeadersOnly_spec_witness:
  "header_block example_head \<and> stream_bytes example_stream = example_head @ ''x=helloGET''"
  using readHeadersOnly_spec [OF example_read] by simp

theorem parsers_agree_witness:
  "parseHeadersOnly example_head default_limits =
     Inr ((projr (strict_parse example_post default_limits))\<lparr>rq_body := []\<rparr>)"
  by (rule parsers_agree [OF example_head_block, of "''x=hello''"])
    (simp only: example_split example_post_accepted [symmetric])

theorem announced_length_agrees_witness:
  "rq_contentLength (projr (parseHeadersOnly example_head default_limits)) = 7"
proof -
  have "\<not> isl (parseHeadersOnly example_head default_limits)" by code_simp
  then have ok: "parseHeadersOnly example_head default_limits = Inr (projr (parseHeadersOnly example_head default_limits))"
    by simp
  have "parseHeaderContentLength example_head = Some 7" by code_simp
  from announced_length_agrees [OF this ok] show ?thesis by simp
qed

theorem memory_request_body_witness:
  "prefix (example_head @ rq_body (projr (strict_parse example_post default_limits))) (stream_bytes example_stream)"
proof -
  have small: "length example_post < 100" by code_simp
  show ?thesis
    using memory_request_body [OF example_read example_completed example_post_accepted] small
    by (simp add: default_limits_def)
qed

end
