(* ===== verification/Paths.thy ===== *)
theory Paths
  imports Search
begin

text \<open>
  The part of \<open>std::filesystem\<close> that the program uses, for the POSIX path format. A path is
  its text; \<open>path_components\<close> is the iteration over a \<open>fs::path\<close>. The file system itself is
  the argument \<open>file_system\<close>: what the system answers to a query, where \<^const>\<open>None\<close> is the
  exception \<open>filesystem_error\<close> (or an error code, for the calls that take one).
\<close>

section \<open>Results\<close>

text \<open>
  A call that may throw returns a sum, the exception on the left; \<open>and_then\<close> goes on with the
  result of a call that did not throw.
\<close>

definition and_then :: "'e + 'a \<Rightarrow> ('a \<Rightarrow> 'e + 'b) \<Rightarrow> 'e + 'b" where
  "and_then r f = (case r of Inl e \<Rightarrow> Inl e | Inr x \<Rightarrow> f x)"

lemma and_then_Inl [simp]: "and_then (Inl e) f = Inl e"
  by (simp add: and_then_def)

lemma and_then_Inr [simp]: "and_then (Inr x) f = f x"
  by (simp add: and_then_def)

lemma and_then_eq_Inr: "and_then r f = Inr y \<longleftrightarrow> (\<exists>x. r = Inr x \<and> f x = Inr y)"
  by (cases r) auto

definition throw_none :: "string \<Rightarrow> 'a option \<Rightarrow> string + 'a" where
  "throw_none m r = (case r of None \<Rightarrow> Inl m | Some x \<Rightarrow> Inr x)"

lemma throw_none_simps [simp]: "throw_none m None = Inl m" "throw_none m (Some x) = Inr x"
  by (simp_all add: throw_none_def)

lemma throw_none_eq_Inr [simp]: "throw_none m r = Inr x \<longleftrightarrow> r = Some x"
  by (cases r) auto

section \<open>Paths\<close>

fun path_names_aux :: "string \<Rightarrow> string \<Rightarrow> string list" where
  "path_names_aux acc [] = (if acc = [] then [] else [rev acc])"
| "path_names_aux acc (c # s) =
     (if c = CHR ''/'' then (if acc = [] then path_names_aux [] s else rev acc # path_names_aux [] s)
      else path_names_aux (c # acc) s)"

definition path_names :: "string \<Rightarrow> string list" where
  "path_names p = path_names_aux [] p"

definition is_absolute :: "string \<Rightarrow> bool" where
  "is_absolute p \<longleftrightarrow> starts_with p ''/''"

definition path_components :: "string \<Rightarrow> string list" where
  "path_components p =
     (if is_absolute p then [''/''] else []) @ path_names p @
     (if path_names p \<noteq> [] \<and> last p = CHR ''/'' then [[]] else [])"

text \<open>\<open>a / b\<close>\<close>

definition path_join :: "string \<Rightarrow> string \<Rightarrow> string" where
  "path_join a b =
     (if is_absolute b then b
      else if a = [] \<or> last a = CHR ''/'' then a @ b else a @ ''/'' @ b)"

definition path_filename :: "string \<Rightarrow> string" where
  "path_filename p = rev (takeWhile (\<lambda>c. c \<noteq> CHR ''/'') (rev p))"

text \<open>\<open>extension()\<close>: from the last dot of the file name, unless that is its first character.\<close>

definition name_extension :: "string \<Rightarrow> string" where
  "name_extension n =
     (if n = ''..'' \<or> CHR ''.'' \<notin> set (drop 1 n) then []
      else CHR ''.'' # rev (takeWhile (\<lambda>c. c \<noteq> CHR ''.'') (rev n)))"

definition path_extension :: "string \<Rightarrow> string" where
  "path_extension p = name_extension (path_filename p)"

definition parent_path :: "string \<Rightarrow> string" where
  "parent_path p =
     (if path_names p = [] then p
      else let dir = rev (dropWhile (\<lambda>c. c = CHR ''/'') (dropWhile (\<lambda>c. c \<noteq> CHR ''/'') (rev p)))
           in if dir = [] \<and> is_absolute p then ''/'' else dir)"

text \<open>\<open>lexically_relative\<close>, on components\<close>

fun drop_common :: "string list \<Rightarrow> string list \<Rightarrow> string list \<times> string list" where
  "drop_common (x # xs) (y # ys) = (if x = y then drop_common xs ys else (x # xs, y # ys))"
| "drop_common xs ys = (xs, ys)"

definition up_count :: "string list \<Rightarrow> int" where
  "up_count ys =
     int (length (filter (\<lambda>y. y \<noteq> [] \<and> y \<noteq> ''.'' \<and> y \<noteq> ''..'') ys)) - int (length (filter (\<lambda>y. y = ''..'') ys))"

definition relative_components :: "string \<Rightarrow> string \<Rightarrow> string list" where
  "relative_components p base =
     (if is_absolute p \<noteq> is_absolute base then []
      else (case drop_common (path_components p) (path_components base) of
              (xs, ys) \<Rightarrow>
                if xs = [] \<and> ys = [] then [''.'']
                else if up_count ys < 0 then []
                else if up_count ys = 0 \<and> (xs = [] \<or> hd xs = []) then [''.'']
                else replicate (nat (up_count ys)) ''..'' @ xs))"

section \<open>The file system\<close>

record file_system =
  fs_weakly_canonical :: "string \<Rightarrow> string option"
  fs_exists :: "string \<Rightarrow> bool option"
  fs_is_directory :: "string \<Rightarrow> bool option"
  fs_is_regular :: "string \<Rightarrow> bool option"
  fs_size :: "string \<Rightarrow> nat option"
  fs_mtime :: "string \<Rightarrow> int option"
  fs_content :: "string \<Rightarrow> string option"

definition weakly_canonical :: "file_system \<Rightarrow> string \<Rightarrow> string + string" where
  "weakly_canonical fs p = throw_none ''filesystem error: cannot make canonical path'' (fs_weakly_canonical fs p)"

definition path_exists :: "file_system \<Rightarrow> string \<Rightarrow> string + bool" where
  "path_exists fs p = throw_none ''filesystem error: status'' (fs_exists fs p)"

definition is_directory :: "file_system \<Rightarrow> string \<Rightarrow> string + bool" where
  "is_directory fs p = throw_none ''filesystem error: status'' (fs_is_directory fs p)"

definition is_regular_file :: "file_system \<Rightarrow> string \<Rightarrow> string + bool" where
  "is_regular_file fs p = throw_none ''filesystem error: status'' (fs_is_regular fs p)"

text \<open>What \<open>weakly_canonical\<close> promises: a canonical path is its own canonical path.\<close>

definition canonical_stable :: "file_system \<Rightarrow> bool" where
  "canonical_stable fs \<longleftrightarrow>
     (\<forall>p q. fs_weakly_canonical fs p = Some q \<longrightarrow> fs_weakly_canonical fs q = Some q)"

lemma canonical_stableD:
  "canonical_stable fs \<Longrightarrow> weakly_canonical fs p = Inr q \<Longrightarrow> weakly_canonical fs q = Inr q"
  by (auto simp: canonical_stable_def weakly_canonical_def)

section \<open>A file system without links\<close>

text \<open>
  Canonical paths of a file system without symbolic links: \<open>.\<close> and \<open>..\<close> are resolved name by
  name. It is a concrete \<open>weakly_canonical\<close> that keeps the promise above.
\<close>

definition dots_step :: "string list \<Rightarrow> string \<Rightarrow> string list" where
  "dots_step acc n = (if n = ''.'' then acc else if n = ''..'' then drop 1 acc else n # acc)"

definition resolve_dots :: "string list \<Rightarrow> string list" where
  "resolve_dots ns = rev (foldl dots_step [] ns)"

definition render_path :: "string list \<Rightarrow> string" where
  "render_path ns = (if ns = [] then ''/'' else concat (map (\<lambda>n. CHR ''/'' # n) ns))"

definition lexical_canonical :: "string \<Rightarrow> string option" where
  "lexical_canonical p = Some (render_path (resolve_dots (path_names p)))"

definition plain_name :: "string \<Rightarrow> bool" where
  "plain_name n \<longleftrightarrow> n \<noteq> [] \<and> CHR ''/'' \<notin> set n"

lemma path_names_aux_append:
  "CHR ''/'' \<notin> set n \<Longrightarrow> path_names_aux acc (n @ s) = path_names_aux (rev n @ acc) s"
  by (induction n arbitrary: acc) auto

lemma path_names_aux_plain: "CHR ''/'' \<notin> set acc \<Longrightarrow> n \<in> set (path_names_aux acc s) \<Longrightarrow> plain_name n"
  by (induction acc s rule: path_names_aux.induct) (auto simp: plain_name_def split: if_splits)

lemma path_names_plain: "n \<in> set (path_names p) \<Longrightarrow> plain_name n"
  using path_names_aux_plain [of "[]" n p] by (simp add: path_names_def)

lemma path_names_concat:
  "list_all plain_name ns \<Longrightarrow> path_names_aux [] (concat (map (\<lambda>n. CHR ''/'' # n) ns)) = ns"
proof (induction ns)
  case (Cons n ns)
  have "path_names_aux [] (concat (map (\<lambda>n. CHR ''/'' # n) (n # ns))) =
      path_names_aux (rev n) (concat (map (\<lambda>n. CHR ''/'' # n) ns))"
    using Cons.prems by (simp add: plain_name_def path_names_aux_append)
  also have "\<dots> = n # ns"
    using Cons by (cases ns) (auto simp: plain_name_def)
  finally show ?case .
qed simp

lemma path_names_render [simp]: "list_all plain_name ns \<Longrightarrow> path_names (render_path ns) = ns"
  by (auto simp: path_names_def render_path_def path_names_concat)

definition normal_name :: "string \<Rightarrow> bool" where
  "normal_name n \<longleftrightarrow> plain_name n \<and> n \<noteq> ''.'' \<and> n \<noteq> ''..''"

lemma dots_step_normal: "list_all normal_name acc \<Longrightarrow> plain_name n \<Longrightarrow> list_all normal_name (dots_step acc n)"
  by (cases acc) (simp_all add: dots_step_def normal_name_def)

lemma foldl_dots_normal:
  "list_all normal_name acc \<Longrightarrow> list_all plain_name ns \<Longrightarrow> list_all normal_name (foldl dots_step acc ns)"
  by (induction ns arbitrary: acc) (simp_all add: dots_step_normal)

lemma resolve_dots_normal: "list_all plain_name ns \<Longrightarrow> list_all normal_name (resolve_dots ns)"
  using foldl_dots_normal [of "[]" ns] by (simp add: resolve_dots_def)

lemma foldl_normal: "list_all normal_name ns \<Longrightarrow> foldl dots_step acc ns = rev ns @ acc"
  by (induction ns arbitrary: acc) (simp_all add: dots_step_def normal_name_def)

lemma resolve_dots_fixed: "list_all normal_name ns \<Longrightarrow> resolve_dots ns = ns"
  by (simp add: resolve_dots_def foldl_normal)

lemma normal_names_plain: "list_all normal_name ns \<Longrightarrow> list_all plain_name ns"
  by (induction ns) (simp_all add: normal_name_def)

lemma lexical_canonical_stable:
  assumes "fs_weakly_canonical fs = lexical_canonical"
  shows "canonical_stable fs"
  unfolding canonical_stable_def assms lexical_canonical_def
proof (intro allI impI)
  fix p q assume q: "Some (render_path (resolve_dots (path_names p))) = Some q"
  have "list_all plain_name (path_names p)" by (simp add: list_all_iff path_names_plain)
  then have n: "list_all normal_name (resolve_dots (path_names p))" by (rule resolve_dots_normal)
  then show "Some (render_path (resolve_dots (path_names q))) = Some q"
    using q normal_names_plain [OF n] by (auto simp: resolve_dots_fixed)
qed

text \<open>An empty file system of this kind, the base of the concrete ones.\<close>

definition example_fs_base :: file_system where
  "example_fs_base =
     \<lparr>fs_weakly_canonical = lexical_canonical, fs_exists = (\<lambda>p. Some False), fs_is_directory = (\<lambda>p. Some False),
      fs_is_regular = (\<lambda>p. Some False), fs_size = (\<lambda>p. None), fs_mtime = (\<lambda>p. None), fs_content = (\<lambda>p. None)\<rparr>"

end
