(* ===== verification/Security.thy ===== *)
theory Security
  imports Paths
begin

text \<open>
  \<open>src/src/Security.cpp\<close>: URL decoding, the checks on request targets, the resolution of a
  target to a file below the document root, and the normal form of a host name. The queries to
  the file system go through its argument; an exception is the left part of the result.
\<close>

section \<open>URL decoding\<close>

text \<open>
  \<open>strtol(s, &end, 16)\<close> on a C string: leading white space, a sign, an optional \<open>0x\<close> in front
  of a hexadecimal digit, digits. The result is the value and what \<open>end\<close> points to, the whole
  string when there is no digit. Two characters never leave the range of \<open>long\<close>.
\<close>

definition hex_digit_val :: "char \<Rightarrow> int" where
  "hex_digit_val c =
     (if isdigit c then int (uc c) - 48 else if isupper c then int (uc c) - 55 else int (uc c) - 87)"

definition strtol16 :: "string \<Rightarrow> int \<times> string" where
  "strtol16 s =
     (let s1 = dropWhile isspace s;
          neg = starts_with s1 ''-'';
          s2 = (if neg \<or> starts_with s1 ''+'' then drop 1 s1 else s1);
          s3 = (if (starts_with s2 ''0x'' \<or> starts_with s2 ''0X'') \<and> drop 2 s2 \<noteq> [] \<and> isxdigit (hd (drop 2 s2))
                then drop 2 s2 else s2);
          ds = takeWhile isxdigit s3;
          n = foldl (\<lambda>a c. a * 16 + hex_digit_val c) 0 ds
      in if ds = [] then (0, s) else (if neg then - n else n, drop (length ds) s3))"

definition c_string :: "string \<Rightarrow> string" where
  "c_string s = takeWhile (\<lambda>c. c \<noteq> NUL) s"

definition decode_pair :: "char \<Rightarrow> char \<Rightarrow> char option" where
  "decode_pair a b =
     (case strtol16 (c_string [a, b]) of
        (decoded, rest) \<Rightarrow> if rest = [] then Some (char_of (nat (decoded mod 256))) else None)"

fun urlDecode :: "string \<Rightarrow> string" where
  "urlDecode (c # a # b # s) =
     (if c = CHR ''%'' then
        (case decode_pair a b of
           Some d \<Rightarrow> d # urlDecode s
         | None \<Rightarrow> c # urlDecode (a # b # s))
      else c # urlDecode (a # b # s))"
| "urlDecode s = s"

section \<open>Checks on targets\<close>

definition containsDangerousResidualEncoding :: "string \<Rightarrow> bool" where
  "containsDangerousResidualEncoding value =
     (let lowerValue = lowercase value
      in contains_str lowerValue ''%2e'' \<or> contains_str lowerValue ''%2f'' \<or> contains_str lowerValue ''%5c'')"

fun path_starts :: "string list \<Rightarrow> string list \<Rightarrow> bool" where
  "path_starts ps [] = True"
| "path_starts [] (r # rs) = False"
| "path_starts (p # ps) (r # rs) = (p = r \<and> path_starts ps rs)"

definition startsWithPath :: "file_system \<Rightarrow> string \<Rightarrow> string \<Rightarrow> string + bool" where
  "startsWithPath fs path root =
     and_then (weakly_canonical fs path) (\<lambda>p. and_then (weakly_canonical fs root) (\<lambda>r.
       Inr (path_starts (path_components p) (path_components r))))"

definition isMethodAllowed :: "string \<Rightarrow> bool" where
  "isMethodAllowed m \<longleftrightarrow> m = ''GET'' \<or> m = ''HEAD'' \<or> m = ''POST''"

definition hasSuspiciousTarget :: "string \<Rightarrow> bool" where
  "hasSuspiciousTarget target =
     (if target = [] then True
      else if 2048 < length target then True
      else if target ! 0 \<noteq> CHR ''/'' then True
      else if find_char target NUL \<noteq> None then True
      else find_char target BACKSLASH \<noteq> None)"

section \<open>Resolving a target\<close>

text \<open>\<open>None\<close> in the result is \<open>std::nullopt\<close>.\<close>

definition target_relative :: "string \<Rightarrow> string option" where
  "target_relative rawTarget =
     (if hasSuspiciousTarget rawTarget then None
      else if containsDangerousResidualEncoding rawTarget then None
      else
        let noQuery = (case find_char rawTarget CHR ''?'' of
                         None \<Rightarrow> rawTarget | Some queryPos \<Rightarrow> substr rawTarget 0 queryPos);
            target = urlDecode noQuery
        in if containsDangerousResidualEncoding target then None
           else if find_char target NUL \<noteq> None then None
           else if find_char target BACKSLASH \<noteq> None then None
           else let rel = strip_front (\<lambda>c. c = CHR ''/'') target
                in Some (if rel = [] then ''index.html'' else rel))"

definition resolveSafePath :: "file_system \<Rightarrow> string \<Rightarrow> string \<Rightarrow> string + string option" where
  "resolveSafePath fs documentRoot rawTarget =
     (case target_relative rawTarget of
        None \<Rightarrow> Inr None
      | Some target \<Rightarrow>
          and_then (is_directory fs (path_join documentRoot target)) (\<lambda>dir.
            let candidate = (if dir then path_join (path_join documentRoot target) ''index.html''
                             else path_join documentRoot target)
            in and_then (weakly_canonical fs documentRoot) (\<lambda>rootCanonical.
               and_then (weakly_canonical fs candidate) (\<lambda>candidateCanonical.
               and_then (startsWithPath fs candidateCanonical rootCanonical) (\<lambda>ok.
                 Inr (if ok then Some candidateCanonical else None))))))"

definition normalizeHost :: "string \<Rightarrow> string" where
  "normalizeHost host =
     strip isspace (lowercase (case find_char host CHR '':'' of None \<Rightarrow> host | Some colon \<Rightarrow> substr host 0 colon))"

section \<open>Decoding gives back what was encoded\<close>

definition hex_char :: "nat \<Rightarrow> char" where
  "hex_char n = char_of (if n < 10 then n + 48 else n + 55)"

fun percent_encode :: "(char \<Rightarrow> bool) \<Rightarrow> string \<Rightarrow> string" where
  "percent_encode plain [] = []"
| "percent_encode plain (c # s) =
     (if plain c then c # percent_encode plain s
      else CHR ''%'' # hex_char (uc c div 16) # hex_char (uc c mod 16) # percent_encode plain s)"

lemma hex_char_facts:
  assumes "n < 16"
  shows "isxdigit (hex_char n) \<and> \<not> isspace (hex_char n) \<and> hex_digit_val (hex_char n) = int n \<and>
    hex_char n \<notin> {NUL, CHR ''-'', CHR ''+'', CHR ''x'', CHR ''X''}"
proof -
  have "list_all (\<lambda>n. isxdigit (hex_char n) \<and> \<not> isspace (hex_char n) \<and> hex_digit_val (hex_char n) = int n \<and>
    hex_char n \<notin> {NUL, CHR ''-'', CHR ''+'', CHR ''x'', CHR ''X''}) [0..<16]"
    by code_simp
  with assms show ?thesis by (simp add: list_all_iff)
qed

lemma decode_pair_hex:
  assumes a: "isxdigit a" "\<not> isspace a" "a \<noteq> NUL" "a \<noteq> CHR ''-''" "a \<noteq> CHR ''+''"
    and b: "isxdigit b" "b \<noteq> NUL" "b \<noteq> CHR ''x''" "b \<noteq> CHR ''X''"
  shows "decode_pair a b = Some (char_of (nat ((hex_digit_val a * 16 + hex_digit_val b) mod 256)))"
proof -
  have s: "c_string [a, b] = [a, b]" "dropWhile isspace [a, b] = [a, b]" "takeWhile isxdigit [a, b] = [a, b]"
    using a b by (simp_all add: c_string_def)
  have n: "\<not> starts_with [a, b] ''-''" "\<not> starts_with [a, b] ''+''" "\<not> starts_with [a, b] ''0x''"
    "\<not> starts_with [a, b] ''0X''"
    using a b by (simp_all add: starts_with_def)
  show ?thesis
    unfolding decode_pair_def strtol16_def Let_def s
    by (simp only: n s if_False simp_thms drop.simps list.size) simp
qed

lemma decode_pair_encoded: "decode_pair (hex_char (uc c div 16)) (hex_char (uc c mod 16)) = Some c"
proof -
  have d: "uc c div 16 < 16" using uc_less_256 [of c] by (intro less_mult_imp_div_less) simp
  have m: "uc c mod 16 < 16" by simp
  note facts = hex_char_facts [OF d] hex_char_facts [OF m]
  have "int (uc c div 16) * 16 + int (uc c mod 16) = int (uc c)"
    using div_mult_mod_eq [of "int (uc c)" 16] by (simp add: zdiv_int zmod_int)
  moreover have "nat (int (uc c) mod 256) = uc c" by simp
  ultimately show ?thesis
    using decode_pair_hex [of "hex_char (uc c div 16)" "hex_char (uc c mod 16)"] facts by simp
qed

lemma urlDecode_plain: "c \<noteq> CHR ''%'' \<Longrightarrow> urlDecode (c # s) = c # urlDecode s"
  by (cases s rule: urlDecode.cases) auto

text \<open>
  Decoding gives back what a client percent-encoded, whatever characters it leaves as they
  are.
\<close>

theorem urlDecode_encoded:
  assumes "\<not> plain CHR ''%''"
  shows "urlDecode (percent_encode plain s) = s"
proof (induction s)
  case (Cons c s)
  then show ?case
    using assms by (cases "plain c") (auto simp: decode_pair_encoded urlDecode_plain intro!: urlDecode_plain [THEN trans])
qed simp

text \<open>\<open>strtol\<close> also accepts what is not two hexadecimal digits.\<close>

lemma urlDecode_lenient:
  "urlDecode ''/a%+5b'' = ''/a'' @ [CHR 0x05] @ ''b'' \<and> urlDecode ''/a%-1b'' = ''/a'' @ [CHR 0xFF] @ ''b''"
  by code_simp

section \<open>Containment\<close>

lemma path_starts_eq: "path_starts ps rs \<longleftrightarrow> prefix rs ps"
  by (induction ps rs rule: path_starts.induct) auto

lemma resolveSafePath_Some:
  assumes "resolveSafePath fs root target = Inr (Some p)"
  obtains rel candidate rc p2 r2 where
    "target_relative target = Some rel"
    "candidate = path_join root rel \<or> candidate = path_join (path_join root rel) ''index.html''"
    "weakly_canonical fs root = Inr rc" "weakly_canonical fs candidate = Inr p"
    "weakly_canonical fs p = Inr p2" "weakly_canonical fs rc = Inr r2"
    "prefix (path_components r2) (path_components p2)"
proof -
  from assms obtain rel where rel: "target_relative target = Some rel"
    by (auto simp: resolveSafePath_def split: option.splits)
  from assms obtain dir where dir: "is_directory fs (path_join root rel) = Inr dir"
    by (auto simp: resolveSafePath_def rel and_then_eq_Inr)
  define candidate where "candidate = (if dir then path_join (path_join root rel) ''index.html'' else path_join root rel)"
  from assms obtain rc ok where "weakly_canonical fs root = Inr rc" "weakly_canonical fs candidate = Inr p"
    "startsWithPath fs p rc = Inr True"
    by (auto simp: resolveSafePath_def rel dir and_then_eq_Inr candidate_def [symmetric] Let_def split: if_splits)
  then show ?thesis
    using that [OF rel, of candidate rc] by (auto simp: startsWithPath_def and_then_eq_Inr path_starts_eq candidate_def)
qed

lemma resolved_below_root:
  assumes "canonical_stable fs" "resolveSafePath fs root target = Inr (Some p)"
  shows "\<exists>rc. weakly_canonical fs root = Inr rc \<and> prefix (path_components rc) (path_components p) \<and>
    weakly_canonical fs p = Inr p"
  using assms(2)
proof (rule resolveSafePath_Some)
  fix rel candidate rc p2 r2
  assume "weakly_canonical fs root = Inr rc" "weakly_canonical fs candidate = Inr p"
    "weakly_canonical fs p = Inr p2" "weakly_canonical fs rc = Inr r2"
    "prefix (path_components r2) (path_components p2)"
  with canonical_stableD [OF assms(1)] show ?thesis by force
qed


text \<open>Decoded targets that reach the file system.\<close>

lemma strip_front_slash: "strip_front (\<lambda>c. c = CHR ''/'') t = c # r \<Longrightarrow> c \<noteq> CHR ''/''"
  using strip_front_hd [of "\<lambda>c. c = CHR ''/''" t] by simp

lemma target_relative_cases:
  assumes "target_relative raw = Some rel"
  obtains t where "NUL \<notin> set t" "BACKSLASH \<notin> set t" "\<not> containsDangerousResidualEncoding t"
    "rel = (if strip_front (\<lambda>c. c = CHR ''/'') t = [] then ''index.html'' else strip_front (\<lambda>c. c = CHR ''/'') t)"
  using assms by (simp add: target_relative_def Let_def split: if_splits)

text \<open>
  A target that is passed on to the file system is relative and has no NUL and no backslash.
\<close>

theorem target_relative_safe:
  assumes "target_relative raw = Some rel"
  shows "rel \<noteq> [] \<and> \<not> is_absolute rel \<and> NUL \<notin> set rel \<and> BACKSLASH \<notin> set rel"
  using assms
proof (rule target_relative_cases)
  fix t let ?r = "strip_front (\<lambda>c. c = CHR ''/'') t"
  assume t: "NUL \<notin> set t" "BACKSLASH \<notin> set t" and rel: "rel = (if ?r = [] then ''index.html'' else ?r)"
  have "set ?r \<subseteq> set t" by (auto simp: strip_front_def dest: set_dropWhileD)
  moreover have "\<not> is_absolute ?r" using strip_front_slash [of t] by (cases ?r) (auto simp: is_absolute_def starts_with_def)
  ultimately show ?thesis using t by (auto simp: rel is_absolute_def starts_with_def)
qed

section \<open>Host names\<close>

lemma normalizeHost_eq: "normalizeHost h = strip isspace (lowercase (takeWhile (\<lambda>c. c \<noteq> CHR '':'') h))"
proof -
  have "takeWhile (\<lambda>c. c \<noteq> CHR '':'') h = h" if "CHR '':'' \<notin> set h"
    using that by (auto simp: takeWhile_eq_all_conv)
  moreover have "substr h 0 (length (takeWhile (\<lambda>c. c \<noteq> CHR '':'') h)) = takeWhile (\<lambda>c. c \<noteq> CHR '':'') h"
    by (simp add: substr_def takeWhile_eq_take [symmetric])
  ultimately show ?thesis by (simp add: normalizeHost_def find_char_eq del: takeWhile_eq_all_conv)
qed

lemma tolower_colon [simp]: "tolower c = CHR '':'' \<longleftrightarrow> c = CHR '':''"
proof -
  have "uc (tolower c) = 58 \<longleftrightarrow> uc c = 58" by (auto simp: tolower_def isupper_def)
  moreover have "uc CHR '':'' = 58" by (simp add: uc_def)
  ultimately show ?thesis by (metis uc_inject)
qed

lemma lowercase_takeWhile_colon:
  "takeWhile (\<lambda>c. c \<noteq> CHR '':'') (lowercase h) = lowercase (takeWhile (\<lambda>c. c \<noteq> CHR '':'') h)"
  by (induction h) (simp_all add: lowercase_def)

lemma in_normalizeHost:
  assumes "c \<in> set (normalizeHost h)"
  shows "\<not> isupper c \<and> c \<noteq> CHR '':''"
proof -
  have "c \<in> set (lowercase (takeWhile (\<lambda>c. c \<noteq> CHR '':'') h))"
    using assms set_strip unfolding normalizeHost_eq by blast
  then show ?thesis by (auto simp: lowercase_def dest: set_takeWhileD)
qed

text \<open>
  The name that selects a virtual host has no capital letter, no port and no surrounding
  white space, is its own normal form, and does not depend on the case the client uses.
\<close>

theorem normalizeHost_normal:
  "list_all (\<lambda>c. \<not> isupper c \<and> c \<noteq> CHR '':'') (normalizeHost h) \<and> clean_ends isspace (normalizeHost h) \<and>
   normalizeHost (normalizeHost h) = normalizeHost h \<and> normalizeHost (lowercase h) = normalizeHost h"
proof (intro conjI)
  show clean: "clean_ends isspace (normalizeHost h)" by (simp add: normalizeHost_eq strip_clean_ends)
  have "takeWhile (\<lambda>c. c \<noteq> CHR '':'') (normalizeHost h) = normalizeHost h"
    using in_normalizeHost by (auto simp: takeWhile_eq_all_conv)
  moreover have "lowercase (normalizeHost h) = normalizeHost h"
    using in_normalizeHost by (simp add: lowercase_fixed)
  ultimately show "normalizeHost (normalizeHost h) = normalizeHost h"
    by (simp only: normalizeHost_eq [of "normalizeHost h"] strip_fixed [OF clean])
  show "normalizeHost (lowercase h) = normalizeHost h"
    by (simp add: normalizeHost_eq lowercase_takeWhile_colon)
qed (simp add: list_all_iff in_normalizeHost)

section \<open>The theorems at a concrete document root\<close>

definition example_fs :: file_system where
  "example_fs =
     \<lparr>fs_weakly_canonical = lexical_canonical, fs_exists = (\<lambda>p. Some (p \<in> {''/srv/www'', ''/srv/www/a b.html''})),
      fs_is_directory = (\<lambda>p. Some (p = ''/srv/www'')), fs_is_regular = (\<lambda>p. Some (p = ''/srv/www/a b.html'')),
      fs_size = (\<lambda>p. if p = ''/srv/www/a b.html'' then Some 5 else None), fs_mtime = (\<lambda>p. Some 0),
      fs_content = (\<lambda>p. if p = ''/srv/www/a b.html'' then Some ''hello'' else None)\<rparr>"

lemma example_fs_stable: "canonical_stable example_fs"
  by (rule lexical_canonical_stable) (simp add: example_fs_def)


lemma example_traversal: "resolveSafePath example_fs ''/srv/www'' ''/x/../../passwd'' = Inr None"
  by code_simp

theorem target_relative_safe_witness: "\<not> is_absolute ''a b.html''"
proof -
  have "target_relative ''//a%20b.html'' = Some ''a b.html''" by code_simp
  from target_relative_safe [OF this] show ?thesis by simp
qed

theorem urlDecode_encoded_witness: "urlDecode (percent_encode isalnum ''50% off'') = ''50% off''"
  by (rule urlDecode_encoded) code_simp

end
