(* ===== verification/Sha256.thy ===== *)
theory Sha256
  imports Numbers "HOL-Library.Word"
begin

text \<open>
  \<open>Auth::sha256Hex\<close> and \<open>Auth::constantTimeEquals\<close> of \<open>src/src/Auth.cpp\<close> on machine words:
  \<open>std::uint32_t\<close> is \<^typ>\<open>32 word\<close>, \<open>std::uint8_t\<close> is \<^typ>\<open>8 word\<close>, \<open>std::size_t\<close> and
  \<open>std::uint64_t\<close> are \<^typ>\<open>64 word\<close> where they wrap. The second half states the hash
  function of FIPS 180-4 by recursion equations and shows that the loops of the program compute it.
\<close>

unbundle bit_operations_syntax

section \<open>The hash function of the program\<close>

definition K :: "32 word list" where
  "K = concat
     [[0x428a2f98, 0x71374491, 0xb5c0fbcf, 0xe9b5dba5],
      [0x3956c25b, 0x59f111f1, 0x923f82a4, 0xab1c5ed5],
      [0xd807aa98, 0x12835b01, 0x243185be, 0x550c7dc3],
      [0x72be5d74, 0x80deb1fe, 0x9bdc06a7, 0xc19bf174],
      [0xe49b69c1, 0xefbe4786, 0x0fc19dc6, 0x240ca1cc],
      [0x2de92c6f, 0x4a7484aa, 0x5cb0a9dc, 0x76f988da],
      [0x983e5152, 0xa831c66d, 0xb00327c8, 0xbf597fc7],
      [0xc6e00bf3, 0xd5a79147, 0x06ca6351, 0x14292967],
      [0x27b70a85, 0x2e1b2138, 0x4d2c6dfc, 0x53380d13],
      [0x650a7354, 0x766a0abb, 0x81c2c92e, 0x92722c85],
      [0xa2bfe8a1, 0xa81a664b, 0xc24b8b70, 0xc76c51a3],
      [0xd192e819, 0xd6990624, 0xf40e3585, 0x106aa070],
      [0x19a4c116, 0x1e376c08, 0x2748774c, 0x34b0bcb5],
      [0x391c0cb3, 0x4ed8aa4a, 0x5b9cca4f, 0x682e6ff3],
      [0x748f82ee, 0x78a5636f, 0x84c87814, 0x8cc70208],
      [0x90befffa, 0xa4506ceb, 0xbef9a3f7, 0xc67178f2]]"

definition rotr :: "32 word \<Rightarrow> nat \<Rightarrow> 32 word" where
  "rotr v n = (drop_bit n v) OR (push_bit (32 - n) v)"

definition message_bytes :: "string \<Rightarrow> 8 word list" where
  "message_bytes input = map (\<lambda>c. word_of_nat (uc c)) input"

text \<open>\<open>while ((message.size() % 64U) != 56U) message.push_back(0U)\<close>\<close>

definition pad_left :: "nat \<Rightarrow> nat" where
  "pad_left n = (if n mod 64 \<le> 56 then 56 - n mod 64 else 120 - n mod 64)"

lemma pad_left_step: "n mod 64 \<noteq> 56 \<Longrightarrow> pad_left n = Suc (pad_left (Suc n))"
  using mod_less_divisor [of 64 n] by (auto simp: pad_left_def mod_Suc)

function pad_zeros :: "8 word list \<Rightarrow> 8 word list" where
  "pad_zeros m = (if length m mod 64 \<noteq> 56 then pad_zeros (m @ [0]) else m)"
  by pat_completeness auto
termination
  by (relation "measure (\<lambda>m. pad_left (length m))") (auto simp: pad_left_step)

declare pad_zeros.simps [simp del]

definition length_bytes :: "nat \<Rightarrow> 8 word list" where
  "length_bytes n =
     (let bitLength = word_of_nat n * 8 :: 64 word
      in map (\<lambda>shift. ucast (drop_bit shift bitLength AND 0xff)) [56, 48, 40, 32, 24, 16, 8, 0])"

definition padded_message :: "string \<Rightarrow> 8 word list" where
  "padded_message input =
     (let message = message_bytes input
      in pad_zeros (message @ [0x80]) @ length_bytes (length message))"

definition initial_state :: "32 word list" where
  "initial_state =
     [0x6a09e667, 0xbb67ae85, 0x3c6ef372, 0xa54ff53a, 0x510e527f, 0x9b05688c, 0x1f83d9ab, 0x5be0cd19]"

definition load_word :: "8 word list \<Rightarrow> nat \<Rightarrow> 32 word" where
  "load_word message base =
     push_bit 24 (ucast (message ! base)) OR push_bit 16 (ucast (message ! (base + 1))) OR
     push_bit 8 (ucast (message ! (base + 2))) OR ucast (message ! (base + 3))"

definition extend_step :: "nat \<Rightarrow> 32 word list \<Rightarrow> 32 word list" where
  "extend_step i ws =
     (let s0 = rotr (ws ! (i - 15)) 7 XOR rotr (ws ! (i - 15)) 18 XOR drop_bit 3 (ws ! (i - 15));
          s1 = rotr (ws ! (i - 2)) 17 XOR rotr (ws ! (i - 2)) 19 XOR drop_bit 10 (ws ! (i - 2))
      in ws[i := ws ! (i - 16) + s0 + ws ! (i - 7) + s1])"

definition schedule :: "8 word list \<Rightarrow> nat \<Rightarrow> 32 word list" where
  "schedule message offset =
     fold extend_step [16..<64] (map (\<lambda>i. load_word message (offset + i * 4)) [0..<16] @ replicate 48 0)"

type_synonym working =
  "32 word \<times> 32 word \<times> 32 word \<times> 32 word \<times> 32 word \<times> 32 word \<times> 32 word \<times> 32 word"

definition round_step :: "32 word list \<Rightarrow> nat \<Rightarrow> working \<Rightarrow> working" where
  "round_step ws i v =
     (case v of (a, b, c, d, e, f, g, h) \<Rightarrow>
        let sigma1 = rotr e 6 XOR rotr e 11 XOR rotr e 25;
            choice = (e AND f) XOR (NOT e AND g);
            temp1 = h + sigma1 + choice + K ! i + ws ! i;
            sigma0 = rotr a 2 XOR rotr a 13 XOR rotr a 22;
            majority = (a AND b) XOR (a AND c) XOR (b AND c);
            temp2 = sigma0 + majority
        in (temp1 + temp2, a, b, c, d + temp1, e, f, g))"

definition working_of :: "32 word list \<Rightarrow> working" where
  "working_of st = (st ! 0, st ! 1, st ! 2, st ! 3, st ! 4, st ! 5, st ! 6, st ! 7)"

definition add_working :: "32 word list \<Rightarrow> working \<Rightarrow> 32 word list" where
  "add_working st v =
     (case v of (a, b, c, d, e, f, g, h) \<Rightarrow>
        [st ! 0 + a, st ! 1 + b, st ! 2 + c, st ! 3 + d, st ! 4 + e, st ! 5 + f, st ! 6 + g, st ! 7 + h])"

definition compress :: "8 word list \<Rightarrow> nat \<Rightarrow> 32 word list \<Rightarrow> 32 word list" where
  "compress message offset st = add_working st (fold (round_step (schedule message offset)) [0..<64] (working_of st))"

function sha_blocks :: "8 word list \<Rightarrow> nat \<Rightarrow> 32 word list \<Rightarrow> 32 word list" where
  "sha_blocks message offset st =
     (if offset < length message then sha_blocks message (offset + 64) (compress message offset st) else st)"
  by pat_completeness auto
termination
  by (relation "measure (\<lambda>(m, offset, st). length m - offset)") auto

declare sha_blocks.simps [simp del]

text \<open>\<open>std::hex << std::setfill('0') << std::setw(8) << word\<close>\<close>

definition hex_word :: "32 word \<Rightarrow> string" where
  "hex_word w = replicate (8 - length (to_hex (unat w))) CHR ''0'' @ to_hex (unat w)"

definition sha256Hex :: "string \<Rightarrow> string" where
  "sha256Hex input = concat (map hex_word (sha_blocks (padded_message input) 0 initial_state))"

section \<open>Comparison in constant time\<close>

definition char_or_zero :: "string \<Rightarrow> nat \<Rightarrow> 8 word" where
  "char_or_zero s i = (if i < length s then word_of_nat (uc (s ! i)) else 0)"

definition constantTimeEquals :: "string \<Rightarrow> string \<Rightarrow> bool" where
  "constantTimeEquals left right =
     (let maxSize = max (length left) (length right);
          start = word_of_nat (length left) XOR word_of_nat (length right) :: 64 word
      in fold (\<lambda>i difference. difference OR ucast (char_or_zero left i XOR char_or_zero right i))
           [0..<maxSize] start = 0)"

section \<open>FIPS 180-4\<close>

text \<open>The functions of sections 4.1.2 and 5.1.1 and the computation of section 6.2.2.\<close>

definition Ch :: "32 word \<Rightarrow> 32 word \<Rightarrow> 32 word \<Rightarrow> 32 word" where
  "Ch x y z = (x AND y) XOR (NOT x AND z)"

definition Maj :: "32 word \<Rightarrow> 32 word \<Rightarrow> 32 word \<Rightarrow> 32 word" where
  "Maj x y z = (x AND y) XOR (x AND z) XOR (y AND z)"

definition ROTR :: "nat \<Rightarrow> 32 word \<Rightarrow> 32 word" where
  "ROTR n x = word_rotr n x"

definition Sigma0 :: "32 word \<Rightarrow> 32 word" where
  "Sigma0 x = ROTR 2 x XOR ROTR 13 x XOR ROTR 22 x"

definition Sigma1 :: "32 word \<Rightarrow> 32 word" where
  "Sigma1 x = ROTR 6 x XOR ROTR 11 x XOR ROTR 25 x"

definition sigma_0 :: "32 word \<Rightarrow> 32 word" where
  "sigma_0 x = ROTR 7 x XOR ROTR 18 x XOR drop_bit 3 x"

definition sigma_1 :: "32 word \<Rightarrow> 32 word" where
  "sigma_1 x = ROTR 17 x XOR ROTR 19 x XOR drop_bit 10 x"

fun fips_W :: "32 word list \<Rightarrow> nat \<Rightarrow> 32 word" where
  "fips_W M t =
     (if t < 16 then M ! t
      else sigma_1 (fips_W M (t - 2)) + fips_W M (t - 7) + sigma_0 (fips_W M (t - 15)) + fips_W M (t - 16))"

declare fips_W.simps [simp del]

fun fips_round :: "32 word list \<Rightarrow> nat \<Rightarrow> working \<Rightarrow> working" where
  "fips_round M t (a, b, c, d, e, f, g, h) =
     (let T1 = h + Sigma1 e + Ch e f g + K ! t + fips_W M t; T2 = Sigma0 a + Maj a b c
      in (T1 + T2, a, b, c, d + T1, e, f, g))"

definition fips_block :: "32 word list \<Rightarrow> 32 word list \<Rightarrow> 32 word list" where
  "fips_block H M = add_working H (fold (fips_round M) [0..<64] (working_of H))"

definition big_endian :: "8 word list \<Rightarrow> 32 word" where
  "big_endian bs = foldl (\<lambda>w b. w * 256 + ucast b) 0 bs"

fun chunks :: "nat \<Rightarrow> 'a list \<Rightarrow> 'a list list" where
  "chunks n xs = (if n = 0 \<or> xs = [] then [] else take n xs # chunks n (drop n xs))"

declare chunks.simps [simp del]

definition fips_pad :: "8 word list \<Rightarrow> 8 word list" where
  "fips_pad M =
     M @ [0x80] @ replicate (nat ((55 - int (length M)) mod 64)) 0 @
     map (\<lambda>i. word_of_nat (8 * length M div 256 ^ i)) [7, 6, 5, 4, 3, 2, 1, 0]"

definition fips_sha256 :: "8 word list \<Rightarrow> 32 word list" where
  "fips_sha256 M = foldl fips_block initial_state (map (\<lambda>N. map big_endian (chunks 4 N)) (chunks 64 (fips_pad M)))"

subsection \<open>The padding\<close>

lemma pad_zeros_eq: "pad_zeros m = m @ replicate (pad_left (length m)) 0"
proof (induction m rule: pad_zeros.induct)
  case (1 m)
  show ?case
  proof (cases "length m mod 64 = 56")
    case True
    then show ?thesis by (simp add: pad_zeros.simps [of m] pad_left_def)
  next
    case False
    with 1 show ?thesis by (simp add: pad_zeros.simps [of m] pad_left_step)
  qed
qed

lemma pad_left_eq: "pad_left (Suc n) = nat ((55 - int n) mod 64)"
proof -
  have "n mod 64 < 64" by simp
  have "(55 - int n) mod 64 = (55 - int (n mod 64)) mod 64" by (simp add: zmod_int mod_diff_right_eq)
  also have "\<dots> = (if n mod 64 \<le> 55 then 55 - int (n mod 64) else 119 - int (n mod 64))"
  proof (cases "n mod 64 \<le> 55")
    case True
    then show ?thesis by (subst mod_pos_pos_trivial) auto
  next
    case False
    have "(55 - int (n mod 64)) mod 64 = (55 - int (n mod 64) + 64) mod 64" by (simp only: mod_add_self2)
    also have "\<dots> = 119 - int (n mod 64)"
      using False \<open>n mod 64 < 64\<close> by (subst mod_pos_pos_trivial) auto
    finally show ?thesis using False by simp
  qed
  finally show ?thesis using \<open>n mod 64 < 64\<close> by (auto simp: pad_left_def mod_Suc)
qed

lemma low_byte:
  "k + 8 \<le> 64 \<Longrightarrow> (ucast (drop_bit k (word_of_nat N :: 64 word) AND mask 8) :: 8 word) = word_of_nat (drop_bit k N)"
  by (rule bit_word_eqI) (auto simp: bit_simps)

lemma length_byte:
  assumes "i < 8"
  shows "(ucast (drop_bit (8 * i) (word_of_nat n * 8 :: 64 word) AND 0xff) :: 8 word) = word_of_nat (8 * n div 256 ^ i)"
proof -
  have "(256::nat) ^ i = 2 ^ (8 * i)" by (simp add: power_mult)
  then have d: "8 * n div 256 ^ i = drop_bit (8 * i) (8 * n)" by (simp add: drop_bit_eq_div)
  have w: "word_of_nat n * 8 = (word_of_nat (8 * n) :: 64 word)" by (simp add: mult.commute)
  have ff: "(0xff :: 64 word) = mask 8" by (simp add: mask_eq_exp_minus_1)
  have "8 * i + 8 \<le> 64" using assms by simp
  then show ?thesis unfolding d w ff by (rule low_byte)
qed

lemma padded_message_eq: "padded_message input = fips_pad (message_bytes input)"
  using length_byte [of 7] length_byte [of 6] length_byte [of 5] length_byte [of 4]
    length_byte [of 3] length_byte [of 2] length_byte [of 1] length_byte [of 0]
  by (simp add: padded_message_def fips_pad_def Let_def pad_zeros_eq pad_left_eq length_bytes_def)

subsection \<open>Words and rounds\<close>

lemma rotr_eq:
  assumes "0 < n" "n < 32"
  shows "rotr v n = ROTR n v"
proof (rule bit_word_eqI)
  fix k assume k: "k < LENGTH(32)"
  show "bit (rotr v n) k \<longleftrightarrow> bit (ROTR n v) k"
  proof (cases "k + n < 32")
    case True
    then have "\<not> 32 - n \<le> k" by simp
    with True assms k show ?thesis by (simp add: rotr_def ROTR_def bit_simps add.commute)
  next
    case False
    then have "\<not> bit v (n + k)" by (auto dest: bit_imp_le_length)
    moreover have "k - (32 - n) = k + n - 32" "32 - n \<le> k" using False assms by simp_all
    moreover have "(k + n) mod 32 = k + n - 32" using False assms k by (simp add: mod_if)
    ultimately show ?thesis using False assms k by (simp add: rotr_def ROTR_def bit_simps add.commute)
  qed
qed

lemma append_byte: "w * 256 + ucast b = push_bit 8 w OR ucast b" for w :: "32 word" and b :: "8 word"
proof -
  have "push_bit 8 w AND ucast b = 0" by (rule bit_word_eqI) (auto simp: bit_simps dest: bit_imp_le_length)
  then show ?thesis by (simp add: disjunctive_add_eq_or [symmetric] push_bit_eq_mult)
qed

lemma big_endian_four: "big_endian [a, b, c, d] =
    push_bit 24 (ucast a) OR push_bit 16 (ucast b) OR push_bit 8 (ucast c) OR ucast d"
proof -
  have "big_endian [a, b, c, d] = push_bit 8 (push_bit 8 (push_bit 8 (ucast a) OR ucast b) OR ucast c) OR ucast d"
    by (simp add: big_endian_def append_byte)
  also have "\<dots> = push_bit 24 (ucast a) OR push_bit 16 (ucast b) OR push_bit 8 (ucast c) OR ucast d"
    by (simp add: push_bit_or or.assoc)
  finally show ?thesis .
qed

lemma load_word_eq:
  assumes "base + 4 \<le> length m"
  shows "load_word m base = big_endian (take 4 (drop base m))"
proof -
  have "take 4 (drop base m) = [m ! base, m ! (base + 1), m ! (base + 2), m ! (base + 3)]"
    using assms by (intro nth_equalityI) (auto simp: nth_Cons less_Suc_eq numeral_eq_Suc split: nat.splits)
  then show ?thesis by (simp add: big_endian_four load_word_def)
qed

lemma fips_W_simp: "\<not> t < 16 \<Longrightarrow> fips_W M t =
   sigma_1 (fips_W M (t - 2)) + fips_W M (t - 7) + sigma_0 (fips_W M (t - 15)) + fips_W M (t - 16)"
  by (subst fips_W.simps) simp

lemma extend_loop:
  assumes "length M = 16" "n \<le> 48"
  shows "length (fold extend_step [16..<16 + n] (M @ replicate 48 0)) = 64 \<and>
    (\<forall>t < 16 + n. fold extend_step [16..<16 + n] (M @ replicate 48 0) ! t = fips_W M t)"
  using assms(2)
proof (induction n)
  case 0
  have "(M @ replicate 48 0) ! t = fips_W M t" if "t < 16" for t
    using that assms(1) by (simp add: nth_append fips_W.simps)
  then show ?case using assms(1) by simp
next
  case (Suc n)
  let ?ws = "fold extend_step [16..<16 + n] (M @ replicate 48 0)"
  have len: "length ?ws = 64" and ws: "\<And>t. t < 16 + n \<Longrightarrow> ?ws ! t = fips_W M t" using Suc by auto
  have step: "extend_step (16 + n) ?ws = ?ws[16 + n := fips_W M (16 + n)]"
    using ws [of n] ws [of "16 + n - 2"] ws [of "16 + n - 7"] ws [of "16 + n - 15"] fips_W_simp [of "16 + n" M]
    by (simp add: extend_step_def Let_def sigma_0_def sigma_1_def rotr_eq algebra_simps)
  have "[16..<16 + Suc n] = [16..<16 + n] @ [16 + n]" using upt_Suc_append [of 16 "16 + n"] by simp
  then have "fold extend_step [16..<16 + Suc n] (M @ replicate 48 0) = ?ws[16 + n := fips_W M (16 + n)]"
    using step by simp
  then show ?case using len ws Suc.prems by (auto simp: nth_list_update less_Suc_eq)
qed

lemma chunks_map:
  assumes "length xs = k * n" "0 < k"
  shows "map f (chunks k xs) = map (\<lambda>i. f (take k (drop (i * k) xs))) [0..<n]"
  using assms(1)
proof (induction n arbitrary: xs)
  case 0
  then show ?case by (simp add: chunks.simps)
next
  case (Suc n)
  from Suc.prems assms(2) have "xs \<noteq> []" by auto
  then have "map f (chunks k xs) = f (take k xs) # map f (chunks k (drop k xs))"
    using assms(2) by (simp add: chunks.simps [of k xs])
  also have "map f (chunks k (drop k xs)) = map (\<lambda>i. f (take k (drop (i * k) (drop k xs)))) [0..<n]"
    using Suc.prems by (intro Suc.IH) simp
  also have "f (take k xs) # \<dots> = map (\<lambda>i. f (take k (drop (i * k) xs))) (0 # map Suc [0..<n])"
    by (simp add: add.commute)
  also have "0 # map Suc [0..<n] = [0..<Suc n]" by (simp only: map_Suc_upt upt_conv_Cons)
  finally show ?case .
qed

lemma schedule_eq:
  assumes "offset + 64 \<le> length m" "t < 64"
  shows "schedule m offset ! t = fips_W (map big_endian (chunks 4 (take 64 (drop offset m)))) t"
proof -
  have "map big_endian (chunks 4 (take 64 (drop offset m))) =
      map (\<lambda>i. big_endian (take 4 (drop (i * 4) (take 64 (drop offset m))))) [0..<16]"
    using assms(1) by (intro chunks_map) simp_all
  also have "\<dots> = map (\<lambda>i. load_word m (offset + i * 4)) [0..<16]"
  proof (rule map_cong [OF refl])
    fix i assume "i \<in> set [0..<16::nat]"
    then show "big_endian (take 4 (drop (i * 4) (take 64 (drop offset m)))) = load_word m (offset + i * 4)"
      using assms(1) by (simp add: load_word_eq drop_take add.commute)
  qed
  finally have M: "map (\<lambda>i. load_word m (offset + i * 4)) [0..<16] = map big_endian (chunks 4 (take 64 (drop offset m)))"
    by simp
  show ?thesis
    using extend_loop [of "map (\<lambda>i. load_word m (offset + i * 4)) [0..<16]" 48] assms(2)
    by (simp add: schedule_def M [symmetric])
qed

lemma working_cases:
  obtains a b c d e f g h where "v = (a, b, c, d, e, f, g, h :: 32 word)"
  by (metis surj_pair)

lemma round_step_eq: "ws ! i = fips_W M i \<Longrightarrow> round_step ws i v = fips_round M i v"
  by (cases v rule: working_cases) (simp add: round_step_def Let_def rotr_eq Sigma0_def Sigma1_def Ch_def Maj_def)

lemma compress_eq:
  assumes "offset + 64 \<le> length m"
  shows "compress m offset st = fips_block st (map big_endian (chunks 4 (take 64 (drop offset m))))"
proof -
  have "fold (round_step (schedule m offset)) [0..<64] v =
      fold (fips_round (map big_endian (chunks 4 (take 64 (drop offset m))))) [0..<64] v" for v
    by (rule fold_cong) (simp_all add: fun_eq_iff round_step_eq schedule_eq [OF assms])
  then show ?thesis by (simp add: compress_def fips_block_def)
qed

lemma sha_blocks_eq:
  assumes "length m mod 64 = 0" "offset mod 64 = 0"
  shows "sha_blocks m offset st =
    foldl fips_block st (map (\<lambda>N. map big_endian (chunks 4 N)) (chunks 64 (drop offset m)))"
  using assms
proof (induction m offset st rule: sha_blocks.induct)
  case (1 m offset st)
  show ?case
  proof (cases "offset < length m")
    case True
    from "1.prems" obtain p q where pq: "length m = 64 * p" "offset = 64 * q" by (auto simp: mod_eq_0_iff_dvd elim!: dvdE)
    with True have le: "offset + 64 \<le> length m" by simp
    from pq have "sha_blocks m (offset + 64) (compress m offset st) =
      foldl fips_block (compress m offset st)
        (map (\<lambda>N. map big_endian (chunks 4 N)) (chunks 64 (drop (offset + 64) m)))"
      by (intro "1.IH" True) simp_all
    then show ?thesis
      using True by (simp add: sha_blocks.simps [of m offset st] chunks.simps [of 64 "drop offset m"]
          compress_eq [OF le] add.commute)
  next
    case False
    then show ?thesis by (simp add: sha_blocks.simps chunks.simps)
  qed
qed

lemma padded_length: "length (padded_message input) mod 64 = 0"
proof -
  let ?n = "length input"
  have "length (padded_message input) = ?n + 1 + pad_left (Suc ?n) + 8"
    by (simp add: padded_message_def message_bytes_def pad_zeros_eq length_bytes_def Let_def)
  also have "\<dots> mod 64 = 0"
  proof -
    define q r where qr: "q = Suc ?n div 64" "r = Suc ?n mod 64"
    have n: "?n + 1 = 64 * q + r" and r: "r < 64" unfolding qr by simp_all
    have "?n + 1 + pad_left (Suc ?n) + 8 = 64 * (q + 1) \<or> ?n + 1 + pad_left (Suc ?n) + 8 = 64 * (q + 2)"
      unfolding n pad_left_def qr(2) [symmetric] using r by auto
    then show ?thesis by (metis mod_mult_self1_is_0)
  qed
  finally show ?thesis .
qed

text \<open>
  C19: the hash of a bearer token is the SHA-256 hash of FIPS 180-4: the padding loop, the
  in-place message schedule and the rounds over block offsets compute the standard's recursion.
\<close>

theorem sha256Hex_fips: "sha256Hex input = concat (map hex_word (fips_sha256 (message_bytes input)))"
  using sha_blocks_eq [OF padded_length, of 0 input initial_state]
  by (simp add: sha256Hex_def fips_sha256_def padded_message_eq)

section \<open>The form of a hash\<close>

lemma length_add_working [simp]: "length (add_working st v) = 8"
  by (cases v rule: working_cases) (simp add: add_working_def)

lemma length_sha_blocks: "length st = 8 \<Longrightarrow> length (sha_blocks m offset st) = 8"
  by (induction m offset st rule: sha_blocks.induct) (subst sha_blocks.simps, simp add: compress_def)

lemma length_show_base: "n < b ^ k \<Longrightarrow> 1 < b \<Longrightarrow> 0 < k \<Longrightarrow> length (show_base b n) \<le> k"
proof (induction k arbitrary: n)
  case (Suc k)
  show ?case
  proof (cases "n < b")
    case True
    then show ?thesis by (simp add: show_base.simps [of b n])
  next
    case False
    then have "0 < k" using Suc.prems by (cases k) auto
    moreover have "n div b < b ^ k" using Suc.prems by (intro less_mult_imp_div_less) (simp add: mult.commute)
    ultimately have "length (show_base b (n div b)) \<le> k" using Suc by blast
    with False show ?thesis by (simp add: show_base.simps [of b n])
  qed
qed simp

lemma length_hex_word [simp]: "length (hex_word w) = 8"
proof -
  have "unat w < 2 ^ 32" using unsigned_less [of w, where 'a = nat] by simp
  then have "length (to_hex (unat w)) \<le> 8" using length_show_base [of "unat w" 16 8] by (simp add: to_hex_def)
  then show ?thesis by (simp add: hex_word_def)
qed

lemma length_concat_hex: "length (concat (map hex_word ws)) = 8 * length ws"
  by (induction ws) auto

lemma hash_form:
  "length (sha256Hex input) = 64 \<and> list_all (\<lambda>c. isxdigit c \<and> \<not> isupper c) (sha256Hex input)"
proof
  show "length (sha256Hex input) = 64"
    by (simp add: sha256Hex_def length_concat_hex length_sha_blocks initial_state_def)
  have "isxdigit c \<and> \<not> isupper c" if "c \<in> set (hex_word w)" for c w
    using that by (auto simp: hex_word_def dest: to_hex_chars) (simp_all add: ctype_defs uc_def)
  then show "list_all (\<lambda>c. isxdigit c \<and> \<not> isupper c) (sha256Hex input)"
    by (auto simp: sha256Hex_def list_all_iff)
qed

section \<open>The comparison\<close>

lemma or_eq_0: "a OR b = 0 \<longleftrightarrow> a = 0 \<and> b = 0" for a b :: "'a::len word"
  by (rule or_eq_0_iff)

lemma fold_or_eq_0: "fold (\<lambda>i d. d OR f i) xs a = 0 \<longleftrightarrow> a = 0 \<and> (\<forall>i \<in> set xs. f i = 0)" for a :: "64 word"
  by (induction xs arbitrary: a) (auto simp: or_eq_0)

lemma byte_difference: "(ucast (a XOR b :: 8 word) :: 64 word) = 0 \<longleftrightarrow> a = b"
proof
  assume z: "(ucast (a XOR b) :: 64 word) = 0"
  show "a = b"
  proof (rule bit_word_eqI)
    fix n assume "n < LENGTH(8)"
    with arg_cong [OF z, of "\<lambda>w. bit w n"] show "bit a n \<longleftrightarrow> bit b n" by (simp add: bit_simps)
  qed
qed simp

lemma xor_eq_0: "a XOR b = 0 \<longleftrightarrow> a = b" for a b :: "'a::len word"
proof
  assume z: "a XOR b = 0"
  have "a = (a XOR b) XOR b" by (simp add: xor.assoc)
  also have "\<dots> = b" by (simp only: z) simp
  finally show "a = b" .
qed simp

lemma length_difference:
  assumes "n < 2 ^ 64" "m < 2 ^ 64"
  shows "word_of_nat n XOR word_of_nat m = (0 :: 64 word) \<longleftrightarrow> n = m"
  using assms by (simp add: xor_eq_0 word_of_nat_eq_iff take_bit_nat_eq_self)

lemma equal_strings:
  assumes "length left < 2 ^ 64" "length right < 2 ^ 64"
  shows "constantTimeEquals left right \<longleftrightarrow> left = right"
proof -
  have byte: "(word_of_nat (uc c) :: 8 word) = word_of_nat (uc d) \<longleftrightarrow> c = d" for c d
    by (simp add: word_of_nat_eq_iff take_bit_nat_eq_self)
  have "constantTimeEquals left right \<longleftrightarrow> length left = length right \<and>
      (\<forall>i < max (length left) (length right). char_or_zero left i = char_or_zero right i)"
    by (auto simp: constantTimeEquals_def Let_def fold_or_eq_0 length_difference [OF assms] byte_difference)
  also have "\<dots> \<longleftrightarrow> left = right"
    by (auto simp: char_or_zero_def byte intro: nth_equalityI)
  finally show ?thesis .
qed

text \<open>
  The comparison that looks at every byte, whatever differs, decides equality: its
  accumulated 64-bit difference is zero exactly when the two strings are equal.
\<close>

theorem constantTimeEquals_eq:
  assumes "length left < 2 ^ 64" "length right < 2 ^ 64"
  shows "constantTimeEquals left right \<longleftrightarrow> left = right"
  using assms by (rule equal_strings)

theorem constantTimeEquals_eq_witness: "\<not> constantTimeEquals ''secret'' ''secreT''"
  using constantTimeEquals_eq [of "''secret''" "''secreT''"] by simp

end
