(* ===== verification/Auth.thy ===== *)
theory Auth
  imports Sha256 Paths
begin

text \<open>
  \<open>src/src/Auth.cpp\<close> and \<open>Auth.hpp\<close>: the token rules, their text form, the secrets file and
  the decision on an \<open>Authorization\<close> header. The left part of a result is the text of the
  exception that was thrown. Hashing and comparison are in the theory \<open>Sha256\<close>.
\<close>

section \<open>Data\<close>

record auth_token_rule =
  tk_name :: string
  tk_plaintextToken :: string
  tk_sha256Hex :: string
  tk_scopes :: "string list"
  tk_expiresAtEpoch :: int

definition empty_rule :: auth_token_rule where
  "empty_rule = \<lparr>tk_name = [], tk_plaintextToken = [], tk_sha256Hex = [], tk_scopes = [], tk_expiresAtEpoch = 0\<rparr>"

datatype auth_decision_code = Allowed | Missing | Invalid | Expired | InsufficientScope

record auth_decision =
  ad_code :: auth_decision_code
  ad_tokenName :: string

section \<open>The decision\<close>

definition hasScope :: "auth_token_rule \<Rightarrow> string \<Rightarrow> bool" where
  "hasScope token requiredScope =
     (let normalized = lowercase requiredScope
      in list_ex (\<lambda>scope. scope = ''*'' \<or> scope = normalized) (tk_scopes token))"

definition isExpired :: "auth_token_rule \<Rightarrow> int \<Rightarrow> bool" where
  "isExpired token now \<longleftrightarrow> 0 < tk_expiresAtEpoch token \<and> tk_expiresAtEpoch token \<le> now"

definition token_matched :: "auth_token_rule \<Rightarrow> string \<Rightarrow> string \<Rightarrow> bool" where
  "token_matched token presented presentedHash =
     (if tk_sha256Hex token \<noteq> [] then constantTimeEquals (lowercase (tk_sha256Hex token)) presentedHash
      else if tk_plaintextToken token \<noteq> [] then constantTimeEquals (tk_plaintextToken token) presented
      else False)"

fun check_tokens :: "auth_token_rule list \<Rightarrow> string \<Rightarrow> string \<Rightarrow> string \<Rightarrow> int \<Rightarrow> auth_decision option" where
  "check_tokens [] presented presentedHash requiredScope now = None"
| "check_tokens (token # tokens) presented presentedHash requiredScope now =
     (if \<not> token_matched token presented presentedHash
        then check_tokens tokens presented presentedHash requiredScope now
      else if isExpired token now then Some \<lparr>ad_code = Expired, ad_tokenName = tk_name token\<rparr>
      else if \<not> hasScope token requiredScope
        then Some \<lparr>ad_code = InsufficientScope, ad_tokenName = tk_name token\<rparr>
      else Some \<lparr>ad_code = Allowed, ad_tokenName = tk_name token\<rparr>)"

definition authorize :: "string \<Rightarrow> auth_token_rule list \<Rightarrow> string \<Rightarrow> string \<Rightarrow> int \<Rightarrow> auth_decision" where
  "authorize authorizationHeader tokens legacyPlaintextToken requiredScope now =
     (if authorizationHeader = [] then \<lparr>ad_code = Missing, ad_tokenName = []\<rparr>
      else if \<not> starts_with authorizationHeader ''Bearer '' then \<lparr>ad_code = Invalid, ad_tokenName = []\<rparr>
      else
        let presented = drop 7 authorizationHeader
        in if presented = [] then \<lparr>ad_code = Invalid, ad_tokenName = []\<rparr>
           else
             (case check_tokens tokens presented (sha256Hex presented) requiredScope now of
                Some decision \<Rightarrow> decision
              | None \<Rightarrow>
                  if legacyPlaintextToken \<noteq> [] \<and> constantTimeEquals legacyPlaintextToken presented
                  then \<lparr>ad_code = Allowed, ad_tokenName = ''legacy''\<rparr>
                  else \<lparr>ad_code = Invalid, ad_tokenName = []\<rparr>))"

section \<open>Token rules as text\<close>

definition auth_trim :: "string \<Rightarrow> string" where
  "auth_trim v = strip isspace v"

definition split :: "string \<Rightarrow> char \<Rightarrow> string list" where
  "split text delimiter = map auth_trim (all_lines_delim delimiter text)"

definition splitScopes :: "string \<Rightarrow> string list" where
  "splitScopes text = filter (\<lambda>s. s \<noteq> []) (map lowercase (split text CHR '',''))"

definition isHex64 :: "string \<Rightarrow> bool" where
  "isHex64 s \<longleftrightarrow> length s = 64 \<and> list_all isxdigit s"

definition parseExpiry :: "string \<Rightarrow> string + int" where
  "parseExpiry s =
     (let normalized = lowercase (auth_trim s)
      in if normalized = [] \<or> normalized = ''0'' \<or> normalized = ''never'' then Inr 0
         else (case stoll normalized of
                 Inl _ \<Rightarrow> Inl ''stoll''
               | Inr (parsed, consumed) \<Rightarrow>
                   if consumed \<noteq> length normalized \<or> parsed < 0
                   then Inl ''token expiry must be 0, never, or a Unix epoch timestamp''
                   else Inr parsed))"

text \<open>The secret part: plain text and hash.\<close>

definition parse_secret :: "string \<Rightarrow> bool \<Rightarrow> string + string \<times> string" where
  "parse_secret secret requireHashedSecret =
     (if starts_with secret ''sha256:'' then
        (let hash = lowercase (drop 7 secret)
         in if \<not> isHex64 hash then Inl ''sha256 token hash must contain exactly 64 hexadecimal characters''
            else Inr ([], hash))
      else if requireHashedSecret then Inl ''secrets file tokens must use sha256:<64-hex-hash>''
      else Inr (secret, []))"

definition parseTokenRule :: "string \<Rightarrow> string \<Rightarrow> bool \<Rightarrow> string + auth_token_rule" where
  "parseTokenRule name val requireHashedSecret =
     (let parts = split val CHR ''|''
      in if length parts < 2 \<or> 3 < length parts then Inl ''token rule must use: secret | scopes | expires_epoch''
         else
           and_then (if length parts = 3 then parseExpiry (parts ! 2) else Inr 0) (\<lambda>expires.
           and_then (parse_secret (auth_trim (parts ! 0)) requireHashedSecret) (\<lambda>(plain, hash).
             let rule = \<lparr>tk_name = auth_trim name, tk_plaintextToken = plain, tk_sha256Hex = hash,
                         tk_scopes = splitScopes (parts ! 1), tk_expiresAtEpoch = expires\<rparr>
             in if tk_name rule = [] then Inl ''token name cannot be empty''
                else if tk_scopes rule = [] then Inl ''token scopes cannot be empty''
                else if tk_plaintextToken rule = [] \<and> tk_sha256Hex rule = [] then Inl ''token secret cannot be empty''
                else Inr rule)))"

section \<open>The secrets file\<close>

definition strip_comment :: "string \<Rightarrow> string" where
  "strip_comment line =
     auth_trim (case find_char line CHR ''#'' of None \<Rightarrow> line | Some comment \<Rightarrow> substr line 0 comment)"

definition parse_secrets_line :: "string \<Rightarrow> string + auth_token_rule" where
  "parse_secrets_line line =
     (case find_char line CHR ''='' of
        None \<Rightarrow> Inl (''invalid auth secrets line: '' @ line)
      | Some equals \<Rightarrow>
          let key = auth_trim (substr line 0 equals); val = auth_trim (drop (equals + 1) line)
          in if \<not> starts_with key ''token.'' then Inl ''auth secrets keys must start with token.''
             else parseTokenRule (drop 6 key) val True)"

fun load_secrets_lines :: "string list \<Rightarrow> string + auth_token_rule list" where
  "load_secrets_lines [] = Inr []"
| "load_secrets_lines (l # ls) =
     (let line = strip_comment l
      in if line = [] then load_secrets_lines ls
         else and_then (parse_secrets_line line) (\<lambda>rule.
              and_then (load_secrets_lines ls) (\<lambda>rules. Inr (rule # rules))))"

definition loadSecretsFile :: "file_system \<Rightarrow> string \<Rightarrow> string + auth_token_rule list" where
  "loadSecretsFile fs path =
     (case fs_content fs path of
        None \<Rightarrow> Inl (''Cannot open auth secrets file: '' @ path)
      | Some text \<Rightarrow> load_secrets_lines (all_lines_delim LF text))"

section \<open>Who is let in\<close>

text \<open>What it means for a token to be the one presented.\<close>

definition token_is :: "string \<Rightarrow> auth_token_rule \<Rightarrow> bool" where
  "token_is presented t \<longleftrightarrow>
     (if tk_sha256Hex t \<noteq> [] then lowercase (tk_sha256Hex t) = sha256Hex presented
      else tk_plaintextToken t \<noteq> [] \<and> tk_plaintextToken t = presented)"

definition rule_decision :: "auth_token_rule \<Rightarrow> string \<Rightarrow> int \<Rightarrow> auth_decision" where
  "rule_decision t requiredScope now =
     \<lparr>ad_code = (if isExpired t now then Expired else if \<not> hasScope t requiredScope then InsufficientScope else Allowed),
      ad_tokenName = tk_name t\<rparr>"

definition representable :: "auth_token_rule \<Rightarrow> bool" where
  "representable t \<longleftrightarrow> length (tk_plaintextToken t) < 2 ^ 64 \<and> length (tk_sha256Hex t) < 2 ^ 64"

lemma token_matched_eq:
  assumes "representable t" "length presented < 2 ^ 64"
  shows "token_matched t presented (sha256Hex presented) \<longleftrightarrow> token_is presented t"
proof -
  have "length (sha256Hex presented) < 2 ^ 64" using hash_form [of presented] by simp
  then show ?thesis
    using assms by (auto simp: token_matched_def token_is_def representable_def equal_strings)
qed

lemma check_tokens_find:
  assumes "list_all representable tokens" "length presented < 2 ^ 64"
  shows "check_tokens tokens presented (sha256Hex presented) scope now =
    map_option (\<lambda>t. rule_decision t scope now) (find (token_is presented) tokens)"
  using assms(1) by (induction tokens) (simp_all add: token_matched_eq [OF _ assms(2)] rule_decision_def)

lemma bearer_header: "starts_with h ''Bearer '' \<longleftrightarrow> h = ''Bearer '' @ drop 7 h"
  by (auto simp: starts_with_def prefix_def)

lemma authorize_bearer:
  assumes "list_all representable tokens" "length legacy < 2 ^ 64" "length presented < 2 ^ 64" "presented \<noteq> []"
  shows "authorize (''Bearer '' @ presented) tokens legacy scope now =
    (case find (token_is presented) tokens of
       Some t \<Rightarrow> rule_decision t scope now
     | None \<Rightarrow> if legacy \<noteq> [] \<and> legacy = presented then \<lparr>ad_code = Allowed, ad_tokenName = ''legacy''\<rparr>
               else \<lparr>ad_code = Invalid, ad_tokenName = []\<rparr>)"
  using assms
  by (cases "find (token_is presented) tokens")
    (auto simp: authorize_def starts_with_def Let_def check_tokens_find equal_strings)

text \<open>
  C20: the decision on an Authorization header: nothing is presented (Missing), something that is
  not a bearer token (Invalid), or the first rule that the presented token belongs to decides by
  its expiry and scopes, with the legacy token as a last resort.
\<close>

theorem authorize_spec:
  assumes "list_all representable tokens" "length legacy < 2 ^ 64" "length header < 2 ^ 64"
  shows "authorize header tokens legacy scope now =
    (if header = [] then \<lparr>ad_code = Missing, ad_tokenName = []\<rparr>
     else if \<not> prefix ''Bearer '' header \<or> length header = 7 then \<lparr>ad_code = Invalid, ad_tokenName = []\<rparr>
     else (case find (token_is (drop 7 header)) tokens of
             Some t \<Rightarrow> rule_decision t scope now
           | None \<Rightarrow> if legacy \<noteq> [] \<and> legacy = drop 7 header then \<lparr>ad_code = Allowed, ad_tokenName = ''legacy''\<rparr>
                     else \<lparr>ad_code = Invalid, ad_tokenName = []\<rparr>))"
proof (cases "prefix ''Bearer '' header \<and> drop 7 header \<noteq> []")
  case True
  then have h: "header = ''Bearer '' @ drop 7 header" using bearer_header by (simp add: starts_with_def)
  have "length (drop 7 header) < 2 ^ 64" using assms(3) by simp
  with True have "authorize (''Bearer '' @ drop 7 header) tokens legacy scope now =
      (case find (token_is (drop 7 header)) tokens of
         Some t \<Rightarrow> rule_decision t scope now
       | None \<Rightarrow> if legacy \<noteq> [] \<and> legacy = drop 7 header then \<lparr>ad_code = Allowed, ad_tokenName = ''legacy''\<rparr>
               else \<lparr>ad_code = Invalid, ad_tokenName = []\<rparr>)"
    by (intro authorize_bearer assms) auto
  with True h show ?thesis by auto
next
  case False
  then show ?thesis
    by (auto simp: authorize_def starts_with_def Let_def dest: prefix_length_le)
qed

lemma find_SomeD: "find P xs = Some x \<Longrightarrow> x \<in> set xs \<and> P x"
  by (auto simp: find_Some_iff)

lemma allowed_knows_secret:
  assumes "list_all representable tokens" "length legacy < 2 ^ 64" "length header < 2 ^ 64"
    and "ad_code (authorize header tokens legacy scope now) = Allowed"
  shows "\<exists>presented. presented \<noteq> [] \<and> header = ''Bearer '' @ presented \<and>
    ((\<exists>t \<in> set tokens. token_is presented t \<and> \<not> isExpired t now \<and> hasScope t scope) \<or> legacy = presented)"
proof -
  let ?p = "drop 7 header"
  have ne: "header \<noteq> []" "prefix ''Bearer '' header" "?p \<noteq> []"
    using assms(4) by (auto simp: authorize_def starts_with_def Let_def split: if_splits)
  then have h: "header = ''Bearer '' @ ?p" using bearer_header by (simp add: starts_with_def)
  have len: "length ?p < 2 ^ 64" using assms(3) by simp
  have a: "ad_code (authorize (''Bearer '' @ ?p) tokens legacy scope now) = Allowed" using assms(4) h by simp
  have "(\<exists>t \<in> set tokens. token_is ?p t \<and> \<not> isExpired t now \<and> hasScope t scope) \<or> legacy = ?p"
  proof (cases "find (token_is ?p) tokens")
    case None
    with a show ?thesis unfolding authorize_bearer [OF assms(1,2) len ne(3)] by (auto split: if_splits)
  next
    case (Some t)
    with a have "\<not> isExpired t now \<and> hasScope t scope"
      unfolding authorize_bearer [OF assms(1,2) len ne(3)] by (simp add: rule_decision_def split: if_splits)
    with find_SomeD [OF Some] show ?thesis by blast
  qed
  with h ne show ?thesis by blast
qed

text \<open>
  Whoever is let in has presented the secret of a rule that is not expired and has the
  required scope, or the legacy token; an expired token or a missing scope is never let in
  through its own rule.
\<close>

theorem authorize_allowed_sound:
  assumes "list_all representable tokens" "length legacy < 2 ^ 64" "length header < 2 ^ 64"
    and "ad_code (authorize header tokens legacy scope now) = Allowed"
  shows "\<exists>presented. presented \<noteq> [] \<and> header = ''Bearer '' @ presented \<and>
    ((\<exists>t \<in> set tokens. token_is presented t \<and> \<not> isExpired t now \<and> hasScope t scope) \<or> legacy = presented)"
  using assms by (rule allowed_knows_secret)

section \<open>Rules as text\<close>

fun join_with :: "char \<Rightarrow> string list \<Rightarrow> string" where
  "join_with d [] = []"
| "join_with d [s] = s"
| "join_with d (s # ss) = s @ d # join_with d ss"

definition render_rule :: "auth_token_rule \<Rightarrow> string" where
  "render_rule r =
     (if tk_sha256Hex r \<noteq> [] then ''sha256:'' @ tk_sha256Hex r else tk_plaintextToken r) @ '' | '' @
     join_with CHR '','' (tk_scopes r) @
     (if tk_expiresAtEpoch r = 0 then [] else '' | '' @ to_string (nat (tk_expiresAtEpoch r)))"

definition scope_ok :: "string \<Rightarrow> bool" where
  "scope_ok s \<longleftrightarrow> s \<noteq> [] \<and> clean_ends isspace s \<and> lowercase s = s \<and> CHR '','' \<notin> set s \<and> CHR ''|'' \<notin> set s"

definition wf_rule :: "bool \<Rightarrow> auth_token_rule \<Rightarrow> bool" where
  "wf_rule hashed r \<longleftrightarrow>
     tk_name r \<noteq> [] \<and> clean_ends isspace (tk_name r) \<and>
     tk_scopes r \<noteq> [] \<and> list_all scope_ok (tk_scopes r) \<and>
     0 \<le> tk_expiresAtEpoch r \<and> tk_expiresAtEpoch r < 2 ^ 63 \<and>
     (if tk_plaintextToken r = [] then isHex64 (tk_sha256Hex r) \<and> lowercase (tk_sha256Hex r) = tk_sha256Hex r
      else \<not> hashed \<and> tk_sha256Hex r = [] \<and> clean_ends isspace (tk_plaintextToken r) \<and>
        CHR ''|'' \<notin> set (tk_plaintextToken r) \<and> \<not> starts_with (tk_plaintextToken r) ''sha256:'')"

lemma split_part: "p \<in> set (split text d) \<Longrightarrow> d \<notin> set p \<and> clean_ends isspace p"
  using set_strip by (fastforce simp: split_def auth_trim_def strip_clean_ends dest: all_lines_no_delim)

lemma all_lines_set: "l \<in> set (all_lines_delim d s) \<Longrightarrow> set l \<subseteq> set s"
proof (induction d s rule: all_lines_delim.induct)
  case (1 d s)
  show ?case
  proof (cases "getline_delim d s")
    case None
    with "1.prems" show ?thesis by (simp add: all_lines_delim.simps [of d s])
  next
    case (Some p)
    obtain x r where p: "p = (x, r)" by (cases p)
    with Some have "set x \<subseteq> set s \<and> set r \<subseteq> set s" by (auto dest: getline_delim_set)
    moreover have "l = x \<or> l \<in> set (all_lines_delim d r)"
      using "1.prems" Some p by (simp add: all_lines_delim.simps [of d s])
    ultimately show ?thesis using "1.IH" [OF Some, of x r] p by auto
  qed
qed

lemma splitScopes_ok:
  assumes "CHR ''|'' \<notin> set text" "s \<in> set (splitScopes text)"
  shows "scope_ok s"
proof -
  from assms(2) obtain l where l: "l \<in> set (all_lines_delim CHR '','' text)" and s: "s = lowercase (auth_trim l)" "s \<noteq> []"
    by (auto simp: splitScopes_def split_def)
  have "set (auth_trim l) \<subseteq> set l" by (simp add: auth_trim_def set_strip)
  moreover have "CHR '','' \<notin> set l" "CHR ''|'' \<notin> set l" using all_lines_no_delim [OF l] all_lines_set [OF l] assms(1) by auto
  ultimately have "CHR '','' \<notin> set (auth_trim l)" "CHR ''|'' \<notin> set (auth_trim l)" by auto
  then show ?thesis using s
    by (simp add: scope_ok_def clean_ends_lowercase in_lowercase_symbol isupper_def islower_def uc_def)
      (simp add: auth_trim_def strip_clean_ends)
qed

lemma parseExpiry_bound: "parseExpiry s = Inr i \<Longrightarrow> 0 \<le> i \<and> i < 2 ^ 63"
  by (auto simp: parseExpiry_def stoll_def Let_def split: if_splits sum.splits option.splits)

lemma parse_secret_cases:
  assumes "parse_secret secret hashed = Inr (plain, hash)"
  shows "plain = [] \<and> isHex64 hash \<and> lowercase hash = hash \<or>
    \<not> hashed \<and> plain = secret \<and> hash = [] \<and> \<not> starts_with secret ''sha256:''"
  using assms by (auto simp: parse_secret_def Let_def split: if_splits)

lemma parsed_rule_wf:
  assumes "parseTokenRule name val hashed = Inr r"
  shows "wf_rule hashed r \<and> tk_name r = auth_trim name"
proof -
  let ?parts = "split val CHR ''|''"
  from assms obtain expires plain hash
    where len: "\<not> length ?parts < 2" and exp: "(if length ?parts = 3 then parseExpiry (?parts ! 2) else Inr 0) = Inr expires"
    and secret: "parse_secret (auth_trim (?parts ! 0)) hashed = Inr (plain, hash)"
    and r: "r = \<lparr>tk_name = auth_trim name, tk_plaintextToken = plain, tk_sha256Hex = hash,
                 tk_scopes = splitScopes (?parts ! 1), tk_expiresAtEpoch = expires\<rparr>"
    and ne: "auth_trim name \<noteq> []" "splitScopes (?parts ! 1) \<noteq> []" "\<not> (plain = [] \<and> hash = [])"
    by (auto simp: parseTokenRule_def Let_def and_then_eq_Inr split: if_splits)
  have p0: "?parts ! 0 \<in> set ?parts" and p1: "?parts ! 1 \<in> set ?parts" using len by (auto intro!: nth_mem)
  have sec: "CHR ''|'' \<notin> set (auth_trim (?parts ! 0))" "clean_ends isspace (auth_trim (?parts ! 0))"
    using split_part [OF p0] set_strip [of isspace "?parts ! 0"] by (auto simp: auth_trim_def strip_clean_ends)
  have "CHR ''|'' \<notin> set (?parts ! 1)" using split_part [OF p1] by blast
  from splitScopes_ok [OF this] have scopes: "list_all scope_ok (splitScopes (?parts ! 1))"
    by (auto simp: list_all_iff)
  have "0 \<le> expires \<and> expires < 2 ^ 63" using exp parseExpiry_bound by (auto split: if_splits)
  then show ?thesis
    using parse_secret_cases [OF secret] sec scopes ne
    by (auto simp: wf_rule_def r auth_trim_def strip_clean_ends isHex64_def)
qed

lemma all_lines_join:
  "ss \<noteq> [] \<Longrightarrow> list_all (\<lambda>s. s \<noteq> [] \<and> d \<notin> set s) ss \<Longrightarrow> all_lines_delim d (join_with d ss) = ss"
  by (induction d ss rule: join_with.induct) (simp_all add: all_lines_last all_lines_append)

lemma splitScopes_join:
  assumes "ss \<noteq> []" "list_all scope_ok ss"
  shows "splitScopes (join_with CHR '','' ss) = ss"
proof -
  have "list_all (\<lambda>s. s \<noteq> [] \<and> CHR '','' \<notin> set s) ss" using assms(2) by (simp add: list_all_iff scope_ok_def)
  then have "splitScopes (join_with CHR '','' ss) = filter (\<lambda>s. s \<noteq> []) (map lowercase (map auth_trim ss))"
    using assms(1) by (simp add: splitScopes_def split_def all_lines_join)
  also have "map auth_trim ss = ss"
    using assms(2) by (intro map_idI) (simp add: list_all_iff scope_ok_def auth_trim_def strip_fixed)
  also have "map lowercase ss = ss" using assms(2) by (intro map_idI) (simp add: list_all_iff scope_ok_def)
  also have "filter (\<lambda>s. s \<noteq> []) ss = ss" using assms(2) by (simp add: list_all_iff scope_ok_def)
  finally show ?thesis .
qed

lemma join_clean:
  "ss \<noteq> [] \<Longrightarrow> list_all scope_ok ss \<Longrightarrow>
    join_with d ss \<noteq> [] \<and> clean_ends isspace (join_with d ss) \<and> hd (join_with d ss) = hd (hd ss)"
  by (induction d ss rule: join_with.induct) (auto simp: scope_ok_def clean_ends_def hd_append)

lemma join_no_bar: "list_all scope_ok ss \<Longrightarrow> CHR ''|'' \<notin> set (join_with CHR '','' ss)"
  by (induction "CHR '',''" ss rule: join_with.induct) (auto simp: scope_ok_def)

lemma digits_clean: "all_digits s \<Longrightarrow> clean_ends isspace s \<and> lowercase s = s"
  by (auto simp: all_digits_def clean_ends_def list_all_iff isdigit_not_space isdigit_def isupper_def
      intro!: lowercase_fixed)

lemma parseExpiry_to_string:
  assumes "0 < n" "n < 2 ^ 63"
  shows "parseExpiry (to_string n) = Inr (int n)"
proof -
  have s: "clean_ends isspace (to_string n)" "lowercase (to_string n) = to_string n"
    using digits_clean [OF all_digits_to_string] by auto
  have "to_string 0 = ''0''" by code_simp
  then have "to_string n \<noteq> ''0''" using assms(1) to_string_inject [of n 0] by auto
  moreover have "to_string n \<noteq> ''never''" using to_string_digits [of "CHR ''n''" n] by (auto simp: isdigit_def uc_def)
  ultimately show ?thesis
    using assms(2) by (simp add: parseExpiry_def auth_trim_def strip_fixed s Let_def stoll_to_string)
qed

lemma parse_secret_wf:
  assumes "wf_rule hashed r"
  shows "parse_secret (if tk_sha256Hex r \<noteq> [] then ''sha256:'' @ tk_sha256Hex r else tk_plaintextToken r) hashed =
      Inr (tk_plaintextToken r, tk_sha256Hex r)"
proof (cases "tk_plaintextToken r = []")
  case True
  with assms have h: "isHex64 (tk_sha256Hex r)" "lowercase (tk_sha256Hex r) = tk_sha256Hex r" by (auto simp: wf_rule_def)
  then have "tk_sha256Hex r \<noteq> []" by (auto simp: isHex64_def)
  with True h show ?thesis by (simp add: parse_secret_def starts_with_def Let_def)
next
  case False
  with assms show ?thesis by (auto simp: wf_rule_def parse_secret_def)
qed

text \<open>The secret, the scopes and the expiry of a rendered rule are its parts again.\<close>

lemma render_parts:
  assumes "wf_rule hashed r"
  defines "secret \<equiv> (if tk_sha256Hex r \<noteq> [] then ''sha256:'' @ tk_sha256Hex r else tk_plaintextToken r)"
  shows "split (render_rule r) CHR ''|'' =
    [secret, join_with CHR '','' (tk_scopes r)] @
    (if tk_expiresAtEpoch r = 0 then [] else [to_string (nat (tk_expiresAtEpoch r))])"
proof -
  let ?j = "join_with CHR '','' (tk_scopes r)" and ?e = "to_string (nat (tk_expiresAtEpoch r))"
  have hex: "CHR ''|'' \<notin> set h \<and> clean_ends isspace (''sha256:'' @ h)" if "isHex64 h" for h
  proof -
    have "list_all isxdigit h" "h \<noteq> []" using that by (auto simp: isHex64_def)
    moreover have "isspace c \<Longrightarrow> \<not> isxdigit c" for c by (auto simp: ctype_defs)
    ultimately have "\<not> isspace (last h)" using last_in_set by (fastforce simp: list_all_iff)
    moreover have "\<not> isspace CHR ''s''" "\<not> isxdigit CHR ''|''" by (simp_all add: ctype_defs uc_def)
    ultimately show ?thesis using \<open>list_all isxdigit h\<close> \<open>h \<noteq> []\<close> by (auto simp: list_all_iff clean_ends_def)
  qed
  have s: "CHR ''|'' \<notin> set secret" "clean_ends isspace secret"
    using assms(1) hex by (auto simp: secret_def wf_rule_def split: if_splits)
  have j: "?j \<noteq> []" "CHR ''|'' \<notin> set ?j" "clean_ends isspace ?j"
    using assms(1) join_clean [of "tk_scopes r"] join_no_bar [of "tk_scopes r"] by (auto simp: wf_rule_def)
  have e: "CHR ''|'' \<notin> set ?e" "clean_ends isspace ?e"
    using to_string_digits [of "CHR ''|''"] digits_clean [OF all_digits_to_string] by (auto simp: isdigit_def uc_def)
  have sp: "isspace SP" by (simp add: isspace_def uc_def)
  have pad: "auth_trim (SP # x) = x" "auth_trim (x @ [SP]) = x" "auth_trim (SP # x @ [SP]) = x"
    if "clean_ends isspace x" for x
    using strip_padded [OF that, of "[SP]" "[]"] strip_padded [OF that, of "[]" "[SP]"]
      strip_padded [OF that, of "[SP]" "[SP]"] sp by (simp_all add: auth_trim_def)
  show ?thesis
  proof (cases "tk_expiresAtEpoch r = 0")
    case True
    then have "render_rule r = (secret @ [SP]) @ CHR ''|'' # SP # ?j" by (simp add: render_rule_def secret_def)
    moreover have "all_lines_delim CHR ''|'' \<dots> = [secret @ [SP], SP # ?j]"
      using s j by (subst all_lines_append) (auto simp: all_lines_last)
    ultimately show ?thesis using True s j by (simp add: split_def pad)
  next
    case False
    then have "render_rule r = (secret @ [SP]) @ CHR ''|'' # (SP # ?j @ [SP]) @ CHR ''|'' # SP # ?e"
      by (simp add: render_rule_def secret_def)
    moreover have "all_lines_delim CHR ''|'' ((SP # ?j @ [SP]) @ CHR ''|'' # SP # ?e) = [SP # ?j @ [SP], SP # ?e]"
      using j e by (subst all_lines_append) (auto simp: all_lines_last)
    moreover have "all_lines_delim CHR ''|'' ((secret @ [SP]) @ CHR ''|'' # (SP # ?j @ [SP]) @ CHR ''|'' # SP # ?e) =
        (secret @ [SP]) # all_lines_delim CHR ''|'' ((SP # ?j @ [SP]) @ CHR ''|'' # SP # ?e)"
      using s by (intro all_lines_append) auto
    ultimately show ?thesis using False s j e by (simp add: split_def pad)
  qed
qed

text \<open>
  Token rules as text: a rule that was parsed is well formed (a name, lower-case scopes, one
  secret, a hash of 64 hexadecimal digits where a hash is required, an expiry in range), and
  every well-formed rule is read back from its text.
\<close>

theorem token_rule_roundtrip:
  "(\<forall>name val. parseTokenRule name val hashed = Inr r \<longrightarrow> wf_rule hashed r) \<and>
   (wf_rule hashed r \<longrightarrow> parseTokenRule (tk_name r) (render_rule r) hashed = Inr r)"
proof (intro conjI allI impI)
  fix name val assume "parseTokenRule name val hashed = Inr r"
  then show "wf_rule hashed r" by (blast dest: parsed_rule_wf)
next
  assume wf: "wf_rule hashed r"
  let ?secret = "if tk_sha256Hex r \<noteq> [] then ''sha256:'' @ tk_sha256Hex r else tk_plaintextToken r"
  note parts = render_parts [OF wf]
  have trim: "auth_trim ?secret = ?secret"
    using split_part [of ?secret "render_rule r" "CHR ''|''"] unfolding parts by (simp add: auth_trim_def strip_fixed)
  have ne: "\<not> (tk_plaintextToken r = [] \<and> tk_sha256Hex r = [])"
    using wf by (auto simp: wf_rule_def isHex64_def)
  have name: "auth_trim (tk_name r) = tk_name r" "tk_name r \<noteq> []" using wf by (auto simp: wf_rule_def auth_trim_def strip_fixed)
  have scopes: "splitScopes (join_with CHR '','' (tk_scopes r)) = tk_scopes r" "tk_scopes r \<noteq> []"
    using wf splitScopes_join by (auto simp: wf_rule_def)
  have exp: "tk_expiresAtEpoch r \<noteq> 0 \<Longrightarrow> parseExpiry (to_string (nat (tk_expiresAtEpoch r))) = Inr (tk_expiresAtEpoch r)"
    using wf parseExpiry_to_string [of "nat (tk_expiresAtEpoch r)"] by (auto simp: wf_rule_def)
  show "parseTokenRule (tk_name r) (render_rule r) hashed = Inr r"
    using ne name scopes exp
    by (cases "tk_expiresAtEpoch r = 0")
      (simp_all add: parseTokenRule_def parts trim parse_secret_wf [OF wf] Let_def del: if_split)
qed

section \<open>The secrets file\<close>

lemma secrets_line_hashed: "parse_secrets_line line = Inr r \<Longrightarrow> wf_rule True r"
  by (auto simp: parse_secrets_line_def Let_def split: option.splits if_splits dest: parsed_rule_wf)

lemma load_lines_hashed: "load_secrets_lines ls = Inr rules \<Longrightarrow> list_all (wf_rule True) rules"
  by (induction ls arbitrary: rules)
    (auto simp: Let_def and_then_eq_Inr split: if_splits dest: secrets_line_hashed)

text \<open>
  A secrets file never brings in a plain-text token: every rule it yields has a SHA-256 hash
  as its only secret.
\<close>

theorem secrets_file_hashed:
  assumes "loadSecretsFile fs path = Inr rules"
  shows "list_all (\<lambda>r. wf_rule True r \<and> tk_plaintextToken r = []) rules"
proof -
  have "list_all (wf_rule True) rules"
    using assms by (auto simp: loadSecretsFile_def split: option.splits dest: load_lines_hashed)
  moreover have "wf_rule True r \<Longrightarrow> tk_plaintextToken r = []" for r by (auto simp: wf_rule_def split: if_splits)
  ultimately show ?thesis by (auto simp: list_all_iff)
qed

section \<open>Decisions are ordered, and time only takes rights away\<close>

text \<open>How far a credential gets: decisions are ordered by the check that they fail at.\<close>

fun decision_rank :: "auth_decision_code \<Rightarrow> nat" where
  "decision_rank Missing = 0"
| "decision_rank Invalid = 1"
| "decision_rank Expired = 2"
| "decision_rank InsufficientScope = 3"
| "decision_rank Allowed = 4"

lemma decision_rank_inject [simp]: "decision_rank a = decision_rank b \<longleftrightarrow> a = b"
  by (cases a; cases b) simp_all

instantiation auth_decision_code :: linorder
begin

definition less_eq_auth_decision_code :: "auth_decision_code \<Rightarrow> auth_decision_code \<Rightarrow> bool" where
  "less_eq_auth_decision_code a b \<longleftrightarrow> decision_rank a \<le> decision_rank b"

definition less_auth_decision_code :: "auth_decision_code \<Rightarrow> auth_decision_code \<Rightarrow> bool" where
  "less_auth_decision_code a b \<longleftrightarrow> decision_rank a < decision_rank b"

instance
  by standard (auto simp: less_eq_auth_decision_code_def less_auth_decision_code_def dest: antisym)

end

lemma Allowed_greatest [simp]: "d \<le> Allowed" "Allowed \<le> d \<longleftrightarrow> d = Allowed"
  by (cases d; simp add: less_eq_auth_decision_code_def)+

lemma check_tokens_later:
  assumes "now \<le> now'"
  shows "rel_option (\<lambda>d' d. ad_code d' \<le> ad_code d \<and> ad_tokenName d' = ad_tokenName d)
    (check_tokens tokens presented hash scope now') (check_tokens tokens presented hash scope now)"
  using assms by (induction tokens) (auto simp: isExpired_def less_eq_auth_decision_code_def)

lemma authorize_later:
  assumes "now \<le> now'"
  shows "ad_code (authorize header tokens legacy scope now') \<le> ad_code (authorize header tokens legacy scope now) \<and>
    ad_tokenName (authorize header tokens legacy scope now') = ad_tokenName (authorize header tokens legacy scope now)"
  using check_tokens_later [OF assms, of tokens "drop 7 header" "sha256Hex (drop 7 header)" scope]
  by (auto simp: authorize_def Let_def elim: option.rel_cases)

text \<open>
  The same header never gains rights by waiting: with the same tokens the decision at a later time is
  the same or lower in the order Missing, Invalid, Expired, InsufficientScope, Allowed, and it is about
  the same token. So a request that is allowed was allowed at every earlier time, too.
\<close>

theorem authorize_antitone:
  assumes "now \<le> now'"
  shows "ad_code (authorize header tokens legacy scope now') \<le> ad_code (authorize header tokens legacy scope now) \<and>
    ad_tokenName (authorize header tokens legacy scope now') = ad_tokenName (authorize header tokens legacy scope now) \<and>
    (ad_code (authorize header tokens legacy scope now') = Allowed \<longrightarrow>
       ad_code (authorize header tokens legacy scope now) = Allowed)"
  using authorize_later [OF assms, of header tokens legacy scope] by auto

section \<open>The theorems at concrete inputs\<close>

definition example_rule :: auth_token_rule where
  "example_rule =
     \<lparr>tk_name = ''ops'', tk_plaintextToken = ''s3cret'', tk_sha256Hex = [], tk_scopes = [''admin'', ''upload''],
      tk_expiresAtEpoch = 2000\<rparr>"

theorem authorize_spec_witness:
  "authorize ''Bearer s3cret'' [example_rule] [] ''Admin'' 1000 = \<lparr>ad_code = Allowed, ad_tokenName = ''ops''\<rparr> \<and>
   authorize ''Bearer s3cret'' [example_rule] [] ''admin'' 2000 = \<lparr>ad_code = Expired, ad_tokenName = ''ops''\<rparr>"
proof -
  have d: "find (token_is ''s3cret'') [example_rule] = Some example_rule"
    by (simp add: token_is_def example_rule_def)
  have r: "rule_decision example_rule ''Admin'' 1000 = \<lparr>ad_code = Allowed, ad_tokenName = ''ops''\<rparr>"
    "rule_decision example_rule ''admin'' 2000 = \<lparr>ad_code = Expired, ad_tokenName = ''ops''\<rparr>" by code_simp+
  have rep: "list_all representable [example_rule]" by (simp add: representable_def example_rule_def)
  show ?thesis
    using authorize_spec [OF rep, of "[]" "''Bearer s3cret''" "''Admin''" 1000]
      authorize_spec [OF rep, of "[]" "''Bearer s3cret''" "''admin''" 2000]
    by (simp add: d r del: find.simps)
qed

theorem authorize_antitone_witness:
  "ad_code (authorize ''Bearer s3cret'' [example_rule] [] ''admin'' 2000) \<le>
   ad_code (authorize ''Bearer s3cret'' [example_rule] [] ''admin'' 1000)"
  using authorize_antitone [of 1000 2000 "''Bearer s3cret''" "[example_rule]" "[]" "''admin''"] by simp

theorem authorize_allowed_sound_witness: "\<not> isExpired example_rule 1000 \<and> hasScope example_rule ''Admin''"
proof -
  have rep: "list_all representable [example_rule]" by (simp add: representable_def example_rule_def)
  have d: "find (token_is ''s3cret'') [example_rule] = Some example_rule"
    by (simp add: token_is_def example_rule_def)
  have "ad_code (rule_decision example_rule ''Admin'' 1000) = Allowed" by code_simp
  then have "ad_code (authorize ''Bearer s3cret'' [example_rule] [] ''Admin'' 1000) = Allowed"
    using authorize_bearer [OF rep, of "[]" "''s3cret''" "''Admin''" 1000] by (simp add: d del: find.simps)
  from authorize_allowed_sound [OF rep _ _ this] show ?thesis by auto
qed

theorem token_rule_roundtrip_witness:
  "parseTokenRule ''ops'' (render_rule example_rule) False = Inr example_rule"
proof -
  have "wf_rule False example_rule" by code_simp
  moreover have "tk_name example_rule = ''ops''" by (simp add: example_rule_def)
  ultimately show ?thesis using token_rule_roundtrip [of False example_rule] by auto
qed

definition example_secrets :: string where
  "example_secrets = ''# tokens'' @ [LF] @ ''token.ci = sha256:'' @ replicate 64 CHR ''A'' @ '' | upload'' @ [LF]"

definition secrets_fs :: file_system where
  "secrets_fs = example_fs_base\<lparr>fs_content := (\<lambda>p. if p = ''/etc/secrets'' then Some example_secrets else None)\<rparr>"

theorem secrets_file_hashed_witness:
  "list_all (\<lambda>r. tk_plaintextToken r = []) (projr (loadSecretsFile secrets_fs ''/etc/secrets''))"
proof -
  have "\<not> isl (loadSecretsFile secrets_fs ''/etc/secrets'')" by code_simp
  then have "loadSecretsFile secrets_fs ''/etc/secrets'' = Inr (projr (loadSecretsFile secrets_fs ''/etc/secrets''))" by simp
  from secrets_file_hashed [OF this] show ?thesis by (simp add: list_all_iff)
qed

end
