(* ===== verification/AuthStore.thy ===== *)
theory AuthStore
  imports Auth
begin

text \<open>
  \<open>src/src/AuthRuntimeStore.cpp\<close> and \<open>.hpp\<close>: the tokens the server decides with, taken
  from the configuration and from a secrets file that is read again while the server runs. The
  mutex makes every call atomic, so a call is a function of the store, of the file system and of
  the two clocks (steady, in nanoseconds, and wall clock, in seconds) at that moment.
\<close>

section \<open>State\<close>

record auth_store =
  as_inlineTokens :: "auth_token_rule list"
  as_fileTokens :: "auth_token_rule list"
  as_activeTokens :: "auth_token_rule list"
  as_secretsFile :: string
  as_hotReload :: bool
  as_reloadIntervalSeconds :: nat
  as_lastCheck :: int
  as_lastWriteTime :: int
  as_hadFile :: bool
  as_generation :: "64 word"
  as_lastSuccessfulReloadEpoch :: int

datatype auth_reload_code = NoChange | Reloaded | Failed

record auth_reload_result =
  rr_code :: auth_reload_code
  rr_message :: string
  rr_tokenCount :: nat
  rr_generation :: "64 word"

definition last_write_time :: "file_system \<Rightarrow> string \<Rightarrow> string + int" where
  "last_write_time fs p = throw_none ''filesystem error: cannot get file time'' (fs_mtime fs p)"

section \<open>Operations\<close>

fun append_unique :: "auth_token_rule list \<Rightarrow> auth_token_rule list \<Rightarrow> string + auth_token_rule list" where
  "append_unique combined [] = Inr combined"
| "append_unique combined (token # source) =
     (if tk_name token \<in> set (map tk_name combined)
      then Inl (''duplicate auth token name across stores: '' @ tk_name token)
      else append_unique (combined @ [token]) source)"

definition combineAndValidate :: "auth_token_rule list \<Rightarrow> auth_token_rule list \<Rightarrow> string + auth_token_rule list" where
  "combineAndValidate inlineTokens fileTokens =
     and_then (append_unique [] inlineTokens) (\<lambda>combined. append_unique combined fileTokens)"

definition make_store ::
  "auth_token_rule list \<Rightarrow> string \<Rightarrow> bool \<Rightarrow> nat \<Rightarrow> file_system \<Rightarrow> int \<Rightarrow> int \<Rightarrow> string + auth_store" where
  "make_store inlineTokens secretsFile hotReload reloadIntervalSeconds fs now epoch =
     and_then
       (if secretsFile = [] then Inr ([], 0, False)
        else and_then (path_exists fs secretsFile) (\<lambda>ex.
               if \<not> ex then Inl (''auth secrets file does not exist: '' @ secretsFile)
               else and_then (loadSecretsFile fs secretsFile) (\<lambda>fileTokens.
                    and_then (last_write_time fs secretsFile) (\<lambda>t. Inr (fileTokens, t, True)))))
       (\<lambda>(fileTokens, writeTime, hadFile).
          and_then (combineAndValidate inlineTokens fileTokens) (\<lambda>active.
            Inr \<lparr>as_inlineTokens = inlineTokens, as_fileTokens = fileTokens, as_activeTokens = active,
                 as_secretsFile = secretsFile, as_hotReload = hotReload,
                 as_reloadIntervalSeconds = reloadIntervalSeconds, as_lastCheck = now,
                 as_lastWriteTime = writeTime, as_hadFile = hadFile, as_generation = 1,
                 as_lastSuccessfulReloadEpoch = epoch\<rparr>))"

definition checkIntervalElapsed :: "auth_store \<Rightarrow> int \<Rightarrow> bool" where
  "checkIntervalElapsed st now \<longleftrightarrow>
     as_reloadIntervalSeconds st = 0 \<or> now - as_lastCheck st \<ge> int (as_reloadIntervalSeconds st) * 1000000000"

definition current_result :: "auth_reload_code \<Rightarrow> string \<Rightarrow> auth_store \<Rightarrow> auth_reload_result" where
  "current_result code message st =
     \<lparr>rr_code = code, rr_message = message, rr_tokenCount = length (as_activeTokens st), rr_generation = as_generation st\<rparr>"

text \<open>The secrets file is gone.\<close>

definition refresh_removed :: "int \<Rightarrow> auth_store \<Rightarrow> auth_reload_result \<times> auth_store" where
  "refresh_removed epoch st =
     (if \<not> as_hadFile st then (current_result NoChange [] st, st)
      else
        let cleared = st\<lparr>as_fileTokens := []\<rparr>
        in (case combineAndValidate (as_inlineTokens st) [] of
              Inl m \<Rightarrow> (current_result Failed m st, cleared)
            | Inr active \<Rightarrow>
                let st' = cleared\<lparr>as_activeTokens := active, as_hadFile := False, as_lastWriteTime := 0,
                                  as_generation := as_generation st + 1, as_lastSuccessfulReloadEpoch := epoch\<rparr>
                in (current_result Reloaded ''auth secrets file removed; file-backed tokens revoked'' st', st')))"

text \<open>The secrets file is there and has the time \<open>writeTime\<close>.\<close>

definition refresh_file :: "file_system \<Rightarrow> int \<Rightarrow> int \<Rightarrow> auth_store \<Rightarrow> auth_reload_result \<times> auth_store" where
  "refresh_file fs writeTime epoch st =
     (case and_then (loadSecretsFile fs (as_secretsFile st)) (\<lambda>newFileTokens.
             and_then (combineAndValidate (as_inlineTokens st) newFileTokens) (\<lambda>combined.
               Inr (newFileTokens, combined))) of
        Inl m \<Rightarrow> (current_result Failed m st, st\<lparr>as_lastWriteTime := writeTime, as_hadFile := True\<rparr>)
      | Inr (newFileTokens, combined) \<Rightarrow>
          let st' = st\<lparr>as_fileTokens := newFileTokens, as_activeTokens := combined,
                       as_lastWriteTime := writeTime, as_hadFile := True,
                       as_generation := as_generation st + 1, as_lastSuccessfulReloadEpoch := epoch\<rparr>
          in (current_result Reloaded ''auth secrets reloaded'' st', st'))"

definition refresh ::
  "bool \<Rightarrow> file_system \<Rightarrow> int \<Rightarrow> int \<Rightarrow> auth_store \<Rightarrow> (string + auth_reload_result) \<times> auth_store" where
  "refresh force fs now epoch st =
     (if \<not> as_hotReload st \<and> \<not> force then (Inr (current_result NoChange [] st), st)
      else if as_secretsFile st = [] then (Inr (current_result NoChange [] st), st)
      else if \<not> force \<and> \<not> checkIntervalElapsed st now then (Inr (current_result NoChange [] st), st)
      else
        let st1 = st\<lparr>as_lastCheck := now\<rparr>
        in (case path_exists fs (as_secretsFile st) of
              Inl m \<Rightarrow> (Inl m, st1)
            | Inr False \<Rightarrow> (case refresh_removed epoch st1 of (r, st') \<Rightarrow> (Inr r, st'))
            | Inr True \<Rightarrow>
                (case last_write_time fs (as_secretsFile st) of
                   Inl m \<Rightarrow> (Inr (current_result Failed m st1), st1)
                 | Inr writeTime \<Rightarrow>
                     if \<not> force \<and> as_hadFile st \<and> writeTime = as_lastWriteTime st
                     then (Inr (current_result NoChange [] st1), st1)
                     else (case refresh_file fs writeTime epoch st1 of (r, st') \<Rightarrow> (Inr r, st')))))"

definition store_authorize ::
  "string \<Rightarrow> string \<Rightarrow> string \<Rightarrow> int \<Rightarrow> file_system \<Rightarrow> int \<Rightarrow> int \<Rightarrow> auth_store \<Rightarrow>
     (string + auth_decision \<times> auth_reload_result) \<times> auth_store" where
  "store_authorize header legacy requiredScope nowEpoch fs now epoch st =
     (case refresh False fs now epoch st of
        (Inl m, st') \<Rightarrow> (Inl m, st')
      | (Inr reload, st') \<Rightarrow> (Inr (authorize header (as_activeTokens st') legacy requiredScope nowEpoch, reload), st'))"

definition tokenCount :: "auth_store \<Rightarrow> nat" where
  "tokenCount st = length (as_activeTokens st)"

section \<open>The invariant\<close>

lemma append_unique_eq:
  "append_unique combined source = Inr r \<longleftrightarrow>
     r = combined @ source \<and> distinct (map tk_name source) \<and> set (map tk_name combined) \<inter> set (map tk_name source) = {}"
proof (induction combined source arbitrary: r rule: append_unique.induct)
  case (2 combined token source)
  show ?case
  proof (cases "tk_name token \<in> set (map tk_name combined)")
    case True
    then show ?thesis by auto
  next
    case False
    with "2.IH" [OF False, of r] show ?thesis by (simp add: Int_insert_left insert_commute)
  qed
qed auto

lemma combine_eq:
  "combineAndValidate a b = Inr r \<longleftrightarrow> r = a @ b \<and> distinct (map tk_name (a @ b))"
  by (auto simp: combineAndValidate_def and_then_eq_Inr append_unique_eq)

definition store_ok :: "auth_store \<Rightarrow> bool" where
  "store_ok st \<longleftrightarrow>
     as_activeTokens st = as_inlineTokens st @ as_fileTokens st \<and>
     distinct (map tk_name (as_activeTokens st)) \<and>
     list_all (wf_rule True) (as_fileTokens st) \<and>
     (as_fileTokens st \<noteq> [] \<longrightarrow> as_hadFile st)"

lemma store_okD:
  assumes "store_ok st"
  shows "as_activeTokens st = as_inlineTokens st @ as_fileTokens st"
    and "distinct (map tk_name (as_inlineTokens st @ as_fileTokens st))"
  using assms unfolding store_ok_def by metis+

lemma loaded_wf: "loadSecretsFile fs p = Inr rules \<Longrightarrow> list_all (wf_rule True) rules"
  by (auto simp: loadSecretsFile_def split: option.splits dest: load_lines_hashed)

lemma make_store_cases:
  assumes "make_store inl path hot iv fs now epoch = Inr st"
  shows "store_ok st \<and> as_inlineTokens st = inl \<and> as_secretsFile st = path \<and>
    (as_fileTokens st = [] \<or> loadSecretsFile fs path = Inr (as_fileTokens st))"
  using assms by (auto simp: make_store_def store_ok_def and_then_eq_Inr combine_eq split: if_splits dest: loaded_wf)

text \<open>What one refresh can do to the tokens.\<close>

lemma refresh_removed_cases:
  assumes "store_ok st" "refresh_removed epoch st = (r, st')"
  shows "(\<not> as_hadFile st \<and> st' = st \<and> rr_code r = NoChange) \<or>
    (as_hadFile st \<and> rr_code r = Reloaded \<and>
     st' = st\<lparr>as_fileTokens := [], as_activeTokens := as_inlineTokens st, as_hadFile := False,
              as_lastWriteTime := 0, as_generation := as_generation st + 1, as_lastSuccessfulReloadEpoch := epoch\<rparr>)"
proof -
  have "distinct (map tk_name (as_inlineTokens st))" using store_okD(2) [OF assms(1)] by simp
  then have "combineAndValidate (as_inlineTokens st) [] = Inr (as_inlineTokens st)" by (simp add: combine_eq)
  with assms(2) show ?thesis
    by (auto simp: refresh_removed_def Let_def current_result_def split: if_splits)
qed

lemma refresh_file_cases:
  assumes "refresh_file fs t epoch st = (r, st')"
  shows "(rr_code r = Failed \<and> st' = st\<lparr>as_lastWriteTime := t, as_hadFile := True\<rparr>) \<or>
    (\<exists>rules. rr_code r = Reloaded \<and> loadSecretsFile fs (as_secretsFile st) = Inr rules \<and>
      distinct (map tk_name (as_inlineTokens st @ rules)) \<and>
      st' = st\<lparr>as_fileTokens := rules, as_activeTokens := as_inlineTokens st @ rules,
               as_lastWriteTime := t, as_hadFile := True,
               as_generation := as_generation st + 1, as_lastSuccessfulReloadEpoch := epoch\<rparr>)"
proof (cases "and_then (loadSecretsFile fs (as_secretsFile st)) (\<lambda>newFileTokens.
      and_then (combineAndValidate (as_inlineTokens st) newFileTokens) (\<lambda>combined. Inr (newFileTokens, combined)))")
  case (Inl m)
  with assms show ?thesis by (auto simp: refresh_file_def current_result_def)
next
  case (Inr p)
  obtain rules combined where p: "p = (rules, combined)" by (cases p)
  with Inr have l: "loadSecretsFile fs (as_secretsFile st) = Inr rules"
    and "combineAndValidate (as_inlineTokens st) rules = Inr combined"
    by (auto simp: and_then_eq_Inr)
  then have c: "combined = as_inlineTokens st @ rules" "distinct (map tk_name (as_inlineTokens st @ rules))"
    by (simp_all only: combine_eq)
  have "(r, st') = refresh_file fs t epoch st" by (simp only: assms)
  then have "rr_code r = Reloaded \<and>
      st' = st\<lparr>as_fileTokens := rules, as_activeTokens := as_inlineTokens st @ rules,
               as_lastWriteTime := t, as_hadFile := True,
               as_generation := as_generation st + 1, as_lastSuccessfulReloadEpoch := epoch\<rparr>"
    unfolding refresh_file_def Inr p sum.case prod.case Let_def c(1) current_result_def by simp
  with l c(2) show ?thesis by blast
qed

text \<open>The three ways a refresh ends: nothing changed, the file was read, or it is gone.\<close>

definition same_tokens :: "auth_store \<Rightarrow> auth_store \<Rightarrow> bool" where
  "same_tokens st st' \<longleftrightarrow>
     as_activeTokens st' = as_activeTokens st \<and> as_fileTokens st' = as_fileTokens st \<and>
     as_inlineTokens st' = as_inlineTokens st \<and> as_secretsFile st' = as_secretsFile st \<and>
     as_generation st' = as_generation st \<and> (as_hadFile st \<longrightarrow> as_hadFile st')"

definition read_tokens :: "file_system \<Rightarrow> auth_store \<Rightarrow> auth_store \<Rightarrow> bool" where
  "read_tokens fs st st' \<longleftrightarrow>
     loadSecretsFile fs (as_secretsFile st) = Inr (as_fileTokens st') \<and>
     as_activeTokens st' = as_inlineTokens st @ as_fileTokens st' \<and>
     distinct (map tk_name (as_activeTokens st')) \<and>
     as_inlineTokens st' = as_inlineTokens st \<and> as_secretsFile st' = as_secretsFile st \<and>
     as_generation st' = as_generation st + 1 \<and> as_hadFile st'"

definition revoked_tokens :: "file_system \<Rightarrow> auth_store \<Rightarrow> auth_store \<Rightarrow> bool" where
  "revoked_tokens fs st st' \<longleftrightarrow>
     path_exists fs (as_secretsFile st) = Inr False \<and>
     as_activeTokens st' = as_inlineTokens st \<and> as_fileTokens st' = [] \<and>
     as_inlineTokens st' = as_inlineTokens st \<and> as_secretsFile st' = as_secretsFile st \<and>
     as_generation st' = as_generation st + 1 \<and> \<not> as_hadFile st'"

lemma refresh_outcome:
  assumes "store_ok st" "refresh force fs now epoch st = (r, st')"
  shows "same_tokens st st' \<and> (\<forall>x. r = Inr x \<longrightarrow> rr_code x \<noteq> Reloaded) \<or>
    (read_tokens fs st st' \<or> revoked_tokens fs st st') \<and> (\<exists>x. r = Inr x \<and> rr_code x = Reloaded)"
proof -
  let ?st1 = "st\<lparr>as_lastCheck := now\<rparr>"
  have "store_ok ?st1 = store_ok st" by (simp add: store_ok_def)
  with assms(1) have st1: "store_ok ?st1" by simp
  show ?thesis
  proof (cases "(\<not> as_hotReload st \<and> \<not> force) \<or> as_secretsFile st = [] \<or> (\<not> force \<and> \<not> checkIntervalElapsed st now)")
    case True
    with assms(2) show ?thesis by (auto simp: refresh_def same_tokens_def current_result_def split: if_splits)
  next
    case due: False
    show ?thesis
    proof (cases "path_exists fs (as_secretsFile st)")
      case (Inl m)
      with due assms(2) show ?thesis by (auto simp: refresh_def same_tokens_def)
    next
      case (Inr ex)
      show ?thesis
      proof (cases ex)
        case False
        obtain x st2 where x: "refresh_removed epoch ?st1 = (x, st2)" by (cases "refresh_removed epoch ?st1")
        with Inr False due assms(2) have "r = Inr x" "st' = st2" by (auto simp: refresh_def Let_def)
        with refresh_removed_cases [OF st1 x] Inr False show ?thesis
          by (auto simp: same_tokens_def revoked_tokens_def)
      next
        case True
        show ?thesis
        proof (cases "last_write_time fs (as_secretsFile st)")
          case (Inl m)
          with Inr True due assms(2) show ?thesis by (auto simp: refresh_def Let_def same_tokens_def current_result_def)
        next
          case t: (Inr t)
          obtain x st2 where x: "refresh_file fs t epoch ?st1 = (x, st2)" by (cases "refresh_file fs t epoch ?st1")
          have "(r = Inr x \<and> st' = st2) \<or> (r = Inr (current_result NoChange [] ?st1) \<and> st' = ?st1)"
            using assms(2) due x by (auto simp: refresh_def Inr True t Let_def split: if_split_asm)
          with refresh_file_cases [OF x] show ?thesis
            unfolding same_tokens_def read_tokens_def current_result_def by (elim disjE exE conjE) simp_all
        qed
      qed
    qed
  qed
qed

section \<open>Stores that occur\<close>

text \<open>A store is made by the constructor and then changed by refreshes only.\<close>

inductive reachable_store :: "auth_store \<Rightarrow> bool" where
  start: "make_store inl path hot iv fs now epoch = Inr st \<Longrightarrow> reachable_store st"
| step: "reachable_store st \<Longrightarrow> refresh force fs now epoch st = (r, st') \<Longrightarrow> reachable_store st'"

lemma refresh_keeps_ok:
  assumes "store_ok st" "refresh force fs now epoch st = (r, st')"
  shows "store_ok st'"
proof -
  consider "same_tokens st st'" | "read_tokens fs st st'" | "revoked_tokens fs st st'"
    using refresh_outcome [OF assms] by blast
  then show ?thesis
  proof cases
    case 1
    with assms(1) show ?thesis unfolding same_tokens_def store_ok_def by metis
  next
    case 2
    then have "list_all (wf_rule True) (as_fileTokens st')" by (auto simp: read_tokens_def dest: loaded_wf)
    with 2 show ?thesis unfolding read_tokens_def store_ok_def by metis
  next
    case 3
    with store_okD(2) [OF assms(1)] show ?thesis by (simp add: revoked_tokens_def store_ok_def)
  qed
qed

lemma reachable_ok: "reachable_store st \<Longrightarrow> store_ok st"
proof (induction rule: reachable_store.induct)
  case (start inl path hot iv fs now epoch st)
  then show ?case by (auto dest: make_store_cases)
next
  case (step st force fs now epoch r st')
  then show ?case by (auto intro: refresh_keeps_ok)
qed

text \<open>
  C21: in every store that occurs the tokens in use are those of the configuration followed by
  those of the file, no name occurs twice, and file tokens are hashed.
\<close>

theorem store_invariant:
  assumes "reachable_store st"
  shows "as_activeTokens st = as_inlineTokens st @ as_fileTokens st \<and>
    distinct (map tk_name (as_activeTokens st)) \<and> list_all (wf_rule True) (as_fileTokens st)"
  using reachable_ok [OF assms] unfolding store_ok_def by blast

text \<open>
  Reloading is all or nothing. A refresh either keeps all tokens and the generation (also when
  the new file does not parse, clashes with the configuration or cannot be read), or installs
  exactly the rules of the file, or, when the file is gone, revokes all file tokens; the
  generation goes up by one exactly when it reports Reloaded.
\<close>

theorem refresh_all_or_nothing:
  assumes "reachable_store st" "refresh force fs now epoch st = (r, st')"
  shows "same_tokens st st' \<and> (\<forall>x. r = Inr x \<longrightarrow> rr_code x \<noteq> Reloaded) \<or>
    (read_tokens fs st st' \<or> revoked_tokens fs st st') \<and> (\<exists>x. r = Inr x \<and> rr_code x = Reloaded)"
  by (rule refresh_outcome [OF reachable_ok [OF assms(1)] assms(2)])

section \<open>Decisions of a store\<close>

lemma hashed_representable: "wf_rule True r \<Longrightarrow> representable r"
  by (auto simp: wf_rule_def representable_def isHex64_def split: if_splits)

lemma store_authorize_pieces:
  assumes "store_authorize header legacy scope nowEpoch fs now epoch st = (Inr (d, reload), st')"
  shows "refresh False fs now epoch st = (Inr reload, st')"
    and "d = authorize header (as_activeTokens st') legacy scope nowEpoch"
  using assms by (auto simp: store_authorize_def split: prod.splits sum.splits)

lemma store_allowed:
  assumes "reachable_store st" "list_all representable (as_inlineTokens st)"
    and "length legacy < 2 ^ 64" "length header < 2 ^ 64"
    and "store_authorize header legacy scope nowEpoch fs now epoch st = (Inr (d, reload), st')" "ad_code d = Allowed"
  shows "\<exists>presented. presented \<noteq> [] \<and> header = ''Bearer '' @ presented \<and>
    (legacy = presented \<or> (\<exists>t \<in> set (as_inlineTokens st) \<union> set (as_fileTokens st').
       token_is presented t \<and> \<not> isExpired t nowEpoch \<and> hasScope t scope)) \<and>
    (as_fileTokens st' = [] \<or> as_fileTokens st' = as_fileTokens st \<or>
       loadSecretsFile fs (as_secretsFile st) = Inr (as_fileTokens st'))"
proof -
  note pieces = store_authorize_pieces [OF assms(5)]
  have ok: "store_ok st" "store_ok st'"
    using reachable_ok [OF assms(1)] refresh_keeps_ok pieces(1) by auto
  have keep: "as_inlineTokens st' = as_inlineTokens st \<and>
      (as_fileTokens st' = [] \<or> as_fileTokens st' = as_fileTokens st \<or>
       loadSecretsFile fs (as_secretsFile st) = Inr (as_fileTokens st'))"
    using refresh_outcome [OF ok(1) pieces(1)] by (auto simp: same_tokens_def read_tokens_def revoked_tokens_def)
  have active: "as_activeTokens st' = as_inlineTokens st @ as_fileTokens st'"
    using store_okD(1) [OF ok(2)] keep by simp
  have "list_all representable (as_fileTokens st')"
    using ok(2) hashed_representable by (auto simp: store_ok_def list_all_iff)
  then have rep: "list_all representable (as_activeTokens st')" using assms(2) by (simp add: active)
  show ?thesis
    using allowed_knows_secret [OF rep assms(3,4) assms(6) [unfolded pieces(2)]] keep
    by (auto simp: active)
qed

text \<open>
  C11: whoever the store lets in holds the secret of a rule of the configuration or of the last
  version of the secrets file that could be loaded, not expired and with the required scope, or
  the legacy token.
\<close>

theorem store_authorize_sound:
  assumes "reachable_store st" "list_all representable (as_inlineTokens st)"
    and "length legacy < 2 ^ 64" "length header < 2 ^ 64"
    and "store_authorize header legacy scope nowEpoch fs now epoch st = (Inr (d, reload), st')" "ad_code d = Allowed"
  shows "\<exists>presented. presented \<noteq> [] \<and> header = ''Bearer '' @ presented \<and>
    (legacy = presented \<or> (\<exists>t \<in> set (as_inlineTokens st) \<union> set (as_fileTokens st').
       token_is presented t \<and> \<not> isExpired t nowEpoch \<and> hasScope t scope)) \<and>
    (as_fileTokens st' = [] \<or> as_fileTokens st' = as_fileTokens st \<or>
       loadSecretsFile fs (as_secretsFile st) = Inr (as_fileTokens st'))"
  using assms by (rule store_allowed)

text \<open>
  Removing the secrets file revokes its tokens: the next request after the check interval is
  decided by the tokens of the configuration alone.
\<close>

theorem removed_file_revokes:
  assumes "reachable_store st" "as_hotReload st" "as_secretsFile st \<noteq> []" "checkIntervalElapsed st now"
    and "as_hadFile st" "path_exists fs (as_secretsFile st) = Inr False"
  shows "\<exists>reload st'. store_authorize header legacy scope nowEpoch fs now epoch st =
      (Inr (authorize header (as_inlineTokens st) legacy scope nowEpoch, reload), st') \<and>
    rr_code reload = Reloaded \<and> as_activeTokens st' = as_inlineTokens st"
proof -
  let ?st1 = "st\<lparr>as_lastCheck := now\<rparr>"
  obtain x st2 where x: "refresh_removed epoch ?st1 = (x, st2)" by (cases "refresh_removed epoch ?st1")
  have "store_ok ?st1 = store_ok st" by (simp add: store_ok_def)
  with reachable_ok [OF assms(1)] have "store_ok ?st1" by simp
  from refresh_removed_cases [OF this x] assms(5) have "rr_code x = Reloaded" "as_activeTokens st2 = as_inlineTokens st"
    by auto
  moreover have "refresh False fs now epoch st = (Inr x, st2)"
    using assms x by (simp add: refresh_def Let_def)
  ultimately show ?thesis by (simp add: store_authorize_def)
qed

section \<open>The theorems at a concrete store\<close>

definition store_fs :: file_system where
  "store_fs = secrets_fs\<lparr>fs_exists := (\<lambda>p. Some (p = ''/etc/secrets'')), fs_mtime := (\<lambda>p. Some 7)\<rparr>"

definition example_store :: auth_store where
  "example_store = projr (make_store [example_rule] ''/etc/secrets'' True 5 store_fs 0 0)"

lemma example_store_made: "make_store [example_rule] ''/etc/secrets'' True 5 store_fs 0 0 = Inr example_store"
proof -
  have "\<not> isl (make_store [example_rule] ''/etc/secrets'' True 5 store_fs 0 0)" by code_simp
  then show ?thesis by (simp add: example_store_def)
qed

lemma example_store_reachable: "reachable_store example_store"
  by (rule reachable_store.start [OF example_store_made])

theorem store_invariant_witness: "distinct (map tk_name (as_activeTokens example_store))"
  using store_invariant [OF example_store_reachable] by blast

theorem refresh_all_or_nothing_witness:
  "same_tokens example_store (snd (refresh True example_fs_base 9 9 example_store)) \<or>
   revoked_tokens example_fs_base example_store (snd (refresh True example_fs_base 9 9 example_store)) \<or>
   read_tokens example_fs_base example_store (snd (refresh True example_fs_base 9 9 example_store))"
  using refresh_all_or_nothing [OF example_store_reachable, of True example_fs_base 9 9] by (metis prod.collapse)

theorem removed_file_revokes_witness:
  "\<exists>reload st'. store_authorize ''Bearer x'' [] ''admin'' 0 example_fs_base 5000000000 9 example_store =
      (Inr (authorize ''Bearer x'' [example_rule] [] ''admin'' 0, reload), st') \<and>
    rr_code reload = Reloaded \<and> as_activeTokens st' = [example_rule]"
proof -
  have "as_inlineTokens example_store = [example_rule]" "as_hotReload example_store"
    "as_secretsFile example_store \<noteq> []" "checkIntervalElapsed example_store 5000000000" "as_hadFile example_store"
    "path_exists example_fs_base (as_secretsFile example_store) = Inr False"
    by code_simp+
  with removed_file_revokes [OF example_store_reachable] show ?thesis by metis
qed

theorem store_authorize_sound_witness:
  "\<exists>t \<in> set (as_inlineTokens example_store) \<union> set (as_fileTokens example_store). token_is ''s3cret'' t \<and> hasScope t ''admin''"
proof -
  have inl: "as_inlineTokens example_store = [example_rule]" by code_simp
  then have rep: "list_all representable (as_inlineTokens example_store)" by (simp add: representable_def example_rule_def)
  have act: "as_activeTokens example_store = example_rule # as_fileTokens example_store"
    using store_okD(1) [OF reachable_ok [OF example_store_reachable]] inl by simp
  have r: "refresh False store_fs 1 1 example_store = (Inr (current_result NoChange [] example_store), example_store)"
    by code_simp
  have m: "token_matched example_rule ''s3cret'' h" for h
    by (simp add: token_matched_def example_rule_def equal_strings)
  have "\<not> isExpired example_rule 1000" "hasScope example_rule ''admin''" by code_simp+
  with m have a: "ad_code (authorize ''Bearer s3cret'' (as_activeTokens example_store) [] ''admin'' 1000) = Allowed"
    by (simp add: authorize_def starts_with_def act Let_def)
  have "store_authorize ''Bearer s3cret'' [] ''admin'' 1000 store_fs 1 1 example_store =
      (Inr (authorize ''Bearer s3cret'' (as_activeTokens example_store) [] ''admin'' 1000,
            current_result NoChange [] example_store), example_store)"
    by (simp add: store_authorize_def r)
  from store_authorize_sound [OF example_store_reachable rep _ _ this a] show ?thesis by auto
qed

end
