(* ===== verification/RateLimiter.thy ===== *)
theory RateLimiter
  imports Bytes "HOL-Library.AList"
begin

text \<open>
  \<open>src/src/RateLimiter.cpp\<close> and \<open>.hpp\<close>: requests per client and minute, counted in fixed
  windows. Buckets live in shards chosen by \<open>std::hash\<close>, an argument of the model because
  the standard leaves it open; each shard is locked for the whole update, so a call is a function
  of the limiter and of the steady clock, in nanoseconds. An \<open>unordered_map\<close> is an association
  list with distinct keys.
\<close>

section \<open>The limiter\<close>

record bucket =
  bk_count :: nat
  bk_windowStart :: int
  bk_lastSeen :: int

record shard =
  sh_buckets :: "(string \<times> bucket) list"
  sh_operations :: nat

record rate_limiter =
  rl_maxPerMinute :: nat
  rl_shards :: "shard list"

definition new_bucket :: bucket where
  "new_bucket = \<lparr>bk_count = 0, bk_windowStart = 0, bk_lastSeen = 0\<rparr>"

definition make_limiter :: "nat \<Rightarrow> nat \<Rightarrow> rate_limiter" where
  "make_limiter maxPerMinute shardCount =
     \<lparr>rl_maxPerMinute = maxPerMinute,
      rl_shards = replicate (if shardCount = 0 then 1 else shardCount) \<lparr>sh_buckets = [], sh_operations = 0\<rparr>\<rparr>"

text \<open>\<open>std::chrono::duration_cast\<close> of nanoseconds to a coarser unit truncates towards zero.\<close>

definition duration_cast :: "int \<Rightarrow> int \<Rightarrow> int" where
  "duration_cast unit d = (if d < 0 then - ((- d) div unit) else d div unit)"

definition seconds :: int where
  "seconds = 1000000000"

definition minutes :: int where
  "minutes = 60 * seconds"

definition cleanupShard :: "int \<Rightarrow> shard \<Rightarrow> shard" where
  "cleanupShard now sh =
     sh\<lparr>sh_buckets := filter (\<lambda>(k, b). \<not> 5 \<le> duration_cast minutes (now - bk_lastSeen b)) (sh_buckets sh)\<rparr>"

definition touch_bucket :: "int \<Rightarrow> bucket \<Rightarrow> bucket" where
  "touch_bucket now b =
     (let b1 = (if bk_windowStart b = 0 then b\<lparr>bk_windowStart := now, bk_count := 0\<rparr> else b);
          b2 = b1\<lparr>bk_lastSeen := now\<rparr>
      in if 60 \<le> duration_cast seconds (now - bk_windowStart b2)
         then b2\<lparr>bk_windowStart := now, bk_count := 0\<rparr> else b2)"

definition shard_allow :: "nat \<Rightarrow> string \<Rightarrow> int \<Rightarrow> shard \<Rightarrow> bool \<times> shard" where
  "shard_allow maxPerMinute key now sh =
     (let ops = (sh_operations sh + 1) mod 2 ^ 64;
          sh1 = sh\<lparr>sh_operations := ops\<rparr>;
          sh2 = (if ops mod 4096 = 0 then cleanupShard now sh1 else sh1);
          b = touch_bucket now (case map_of (sh_buckets sh2) key of None \<Rightarrow> new_bucket | Some b \<Rightarrow> b)
      in if maxPerMinute \<le> bk_count b
         then (False, sh2\<lparr>sh_buckets := AList.update key b (sh_buckets sh2)\<rparr>)
         else (True, sh2\<lparr>sh_buckets := AList.update key (b\<lparr>bk_count := bk_count b + 1\<rparr>) (sh_buckets sh2)\<rparr>))"

definition allow :: "(string \<Rightarrow> nat) \<Rightarrow> string \<Rightarrow> int \<Rightarrow> rate_limiter \<Rightarrow> bool \<times> rate_limiter" where
  "allow hash key now rl =
     (if rl_maxPerMinute rl = 0 then (False, rl)
      else
        let i = hash key mod length (rl_shards rl)
        in (case shard_allow (rl_maxPerMinute rl) key now (rl_shards rl ! i) of
              (ok, sh) \<Rightarrow> (ok, rl\<lparr>rl_shards := (rl_shards rl)[i := sh]\<rparr>)))"

definition bucketCount :: "rate_limiter \<Rightarrow> nat" where
  "bucketCount rl = sum_list (map (\<lambda>sh. length (sh_buckets sh)) (rl_shards rl))"

text \<open>A sequence of calls, each with its key and time, and what they returned.\<close>

fun run_limiter :: "(string \<Rightarrow> nat) \<Rightarrow> rate_limiter \<Rightarrow> (string \<times> int) list \<Rightarrow> bool list" where
  "run_limiter hash rl [] = []"
| "run_limiter hash rl ((key, now) # calls) =
     (case allow hash key now rl of (ok, rl') \<Rightarrow> ok # run_limiter hash rl' calls)"

section \<open>The contract: fixed windows per key\<close>

text \<open>
  What a client of the limiter relies on: each key has its own window of 60 seconds, which starts
  with the first request after the last one ended, and at most \<open>maxPerMinute\<close> requests are let
  through in a window. Shards, hashing and the removal of idle buckets are not visible.
\<close>

type_synonym windows = "string \<Rightarrow> (int \<times> nat) option"

fun spec_step :: "nat \<Rightarrow> int \<Rightarrow> (int \<times> nat) option \<Rightarrow> bool \<times> (int \<times> nat) option" where
  "spec_step m now None = (0 < m, Some (now, if 0 < m then 1 else 0))"
| "spec_step m now (Some (start, n)) =
     (if minutes \<le> now - start then (0 < m, Some (now, if 0 < m then 1 else 0))
      else if m \<le> n then (False, Some (start, n))
      else (True, Some (start, n + 1)))"

fun spec_run :: "nat \<Rightarrow> windows \<Rightarrow> (string \<times> int) list \<Rightarrow> bool list" where
  "spec_run m w [] = []"
| "spec_run m w ((key, now) # calls) =
     (case spec_step m now (w key) of (ok, x) \<Rightarrow> ok # spec_run m (w(key := x)) calls)"

definition call_times :: "int \<Rightarrow> (string \<times> int) list \<Rightarrow> bool" where
  "call_times t calls \<longleftrightarrow> sorted (t # map snd calls)"

lemma call_times_Cons [simp]: "call_times t ((k, n) # calls) \<longleftrightarrow> t \<le> n \<and> call_times n calls"
  by (auto simp: call_times_def)

lemma call_times_Nil [simp]: "call_times t []"
  by (simp add: call_times_def)

definition allowed_count :: "string \<Rightarrow> int \<Rightarrow> (string \<times> int) list \<Rightarrow> bool list \<Rightarrow> nat" where
  "allowed_count key t calls results =
     length (filter (\<lambda>((k, n), ok). k = key \<and> t \<le> n \<and> n < t + minutes \<and> ok) (zip calls results))"

lemma allowed_count_Nil [simp]: "allowed_count key t [] [] = 0"
  by (simp add: allowed_count_def)

lemma allowed_count_Cons [simp]:
  "allowed_count key t ((k, n) # calls) (ok # results) =
    (if k = key \<and> t \<le> n \<and> n < t + minutes \<and> ok then 1 else 0) + allowed_count key t calls results"
  by (simp add: allowed_count_def)

text \<open>What can still be let through in the 60 seconds from \<open>t\<close>, at a time not before \<open>t\<close>.\<close>

definition budget :: "nat \<Rightarrow> int \<Rightarrow> (int \<times> nat) option \<Rightarrow> nat" where
  "budget m t w = (case w of None \<Rightarrow> m | Some (start, n) \<Rightarrow> if t \<le> start then m - n else (m - n) + m)"

lemma spec_late: "call_times u calls \<Longrightarrow> t + minutes \<le> u \<Longrightarrow> allowed_count key t calls (spec_run m w calls) = 0"
  by (induction m w calls arbitrary: u rule: spec_run.induct) (auto split: prod.splits)

lemma spec_step_start:
  assumes "spec_step m now w = (ok, x)" "\<And>s n. w = Some (s, n) \<Longrightarrow> s \<le> now"
  obtains s n where "x = Some (s, n)" "s \<le> now"
  using assms by (cases w) (auto split: if_splits)

lemma spec_step_budget:
  assumes "spec_step m now w = (ok, x)" "now < t + minutes" "t \<le> now"
  shows "(if ok then 1 else 0) + budget m t x \<le> budget m t w"
  using assms by (cases w) (auto simp: budget_def split: if_splits)

lemma spec_run_bound:
  assumes "call_times u calls" "t \<le> u" "\<And>start n. w key = Some (start, n) \<Longrightarrow> start \<le> u"
  shows "allowed_count key t calls (spec_run m w calls) \<le> budget m t (w key)"
  using assms
proof (induction m w calls arbitrary: u rule: spec_run.induct)
  case (2 m w k now calls)
  obtain ok x where step: "spec_step m now (w k) = (ok, x)" by (cases "spec_step m now (w k)")
  have now: "u \<le> now" "call_times now calls" "t \<le> now" using "2.prems"(1,2) by auto
  note IH = "2.IH" [OF step [symmetric] now(2,3)]
  show ?case
  proof (cases "k = key")
    case False
    then have "allowed_count key t calls (spec_run m (w(k := x)) calls) \<le> budget m t ((w(k := x)) key)"
      using "2.prems"(3) now by (intro IH) force
    with False show ?thesis by (simp add: step)
  next
    case True
    show ?thesis
    proof (cases "t + minutes \<le> now")
      case late: True
      then show ?thesis using spec_late [OF now(2) late] by (simp add: step)
    next
      case early: False
      obtain s n where start: "x = Some (s, n)" "s \<le> now"
        using step "2.prems"(3) now(1) True by (elim spec_step_start) force
      then have "allowed_count key t calls (spec_run m (w(k := x)) calls) \<le> budget m t x"
        using IH True by (simp add: fun_upd_def)
      moreover have "(if ok then 1 else 0) + budget m t x \<le> budget m t (w key)"
        using spec_step_budget [OF step _ now(3)] early True by simp
      ultimately show ?thesis using True early now(3) step by simp
    qed
  qed
qed simp

lemma budget_le: "budget m t w \<le> 2 * m"
  by (auto simp: budget_def split: option.splits)

lemma spec_minute_bound:
  assumes "call_times u calls" "\<And>start n. w key = Some (start, n) \<Longrightarrow> start \<le> u"
  shows "allowed_count key t calls (spec_run m w calls) \<le> 2 * m"
  using assms
proof (induction m w calls arbitrary: u rule: spec_run.induct)
  case (2 m w k now calls)
  show ?case
  proof (cases "t \<le> now")
    case True
    have "call_times now ((k, now) # calls)" using "2.prems"(1) by simp
    moreover have "\<And>s n. w key = Some (s, n) \<Longrightarrow> s \<le> now" using "2.prems" by force
    ultimately have "allowed_count key t ((k, now) # calls) (spec_run m w ((k, now) # calls)) \<le> budget m t (w key)"
      using True by (intro spec_run_bound)
    also have "\<dots> \<le> 2 * m" by (rule budget_le)
    finally show ?thesis .
  next
    case False
    obtain ok x where step: "spec_step m now (w k) = (ok, x)" by (cases "spec_step m now (w k)")
    have now: "u \<le> now" "call_times now calls" using "2.prems"(1) by auto
    have "s \<le> now" if "(w(k := x)) key = Some (s, n)" for s n
    proof (cases "k = key")
      case True
      obtain s' n' where "x = Some (s', n')" "s' \<le> now"
        using step "2.prems"(2) now(1) True by (elim spec_step_start) force
      with True that show ?thesis by simp
    next
      case False
      with that "2.prems"(2) now(1) show ?thesis by force
    qed
    then have "allowed_count key t calls (spec_run m (w(k := x)) calls) \<le> 2 * m"
      by (intro "2.IH" [OF step [symmetric] now(2)])
    with False show ?thesis by (simp add: step)
  qed
qed simp

locale window_limiter =
  fixes run :: "(string \<times> int) list \<Rightarrow> bool list" and limit :: nat
  assumes run_spec: "call_times 1 calls \<Longrightarrow> run calls = spec_run limit (\<lambda>_. None) calls"
begin

lemma minute_bound:
  assumes "call_times 1 calls"
  shows "allowed_count key t calls (run calls) \<le> 2 * limit"
  using spec_minute_bound [OF assms, of "\<lambda>_. None"] by (simp add: run_spec assms)

end

section \<open>The limiter keeps the contract\<close>

text \<open>
  A bucket holds the window of its key. A key without a bucket has no window, or one that has
  ended: a bucket is removed only when it was last seen five minutes ago.
\<close>

definition bucket_sim :: "int \<Rightarrow> bucket option \<Rightarrow> (int \<times> nat) option \<Rightarrow> bool" where
  "bucket_sim now bo w =
     (case bo of
        None \<Rightarrow> w = None \<or> (\<exists>s n. w = Some (s, n) \<and> s + minutes \<le> now)
      | Some b \<Rightarrow> w = Some (bk_windowStart b, bk_count b) \<and> 0 < bk_windowStart b \<and>
                  bk_windowStart b \<le> bk_lastSeen b \<and> bk_windowStart b \<le> now)"

definition shard_sim :: "int \<Rightarrow> shard \<Rightarrow> windows \<Rightarrow> (string \<Rightarrow> bool) \<Rightarrow> bool" where
  "shard_sim now sh w here \<longleftrightarrow>
     distinct (map fst (sh_buckets sh)) \<and>
     (\<forall>k. here k \<longrightarrow> bucket_sim now (map_of (sh_buckets sh) k) (w k))"

lemma le_div_iff: "0 < u \<Longrightarrow> n \<le> d div u \<longleftrightarrow> n * u \<le> d" for n d u :: int
proof
  assume "0 < u" "n \<le> d div u"
  then have "n * u \<le> d div u * u" by simp
  also have "\<dots> \<le> d" using pos_mod_sign [OF \<open>0 < u\<close>, of d] div_mult_mod_eq [of d u] by linarith
  finally show "n * u \<le> d" .
next
  assume "0 < u" "n * u \<le> d"
  then show "n \<le> d div u" using zdiv_mono1 [of "n * u" d u] by simp
qed

lemma duration_cast_ge: "0 < unit \<Longrightarrow> 0 < n \<Longrightarrow> n \<le> duration_cast unit d \<longleftrightarrow> n * unit \<le> d"
proof -
  assume u: "0 < unit" and n: "0 < n"
  show ?thesis
  proof (cases "d < 0")
    case True
    then have "0 \<le> (- d) div unit" using u by (simp add: pos_imp_zdiv_nonneg_iff)
    moreover have "\<not> n * unit \<le> d" using True u n by (meson less_le_trans mult_pos_pos not_less order.asym)
    ultimately show ?thesis using True n by (simp add: duration_cast_def)
  next
    case False
    then show ?thesis using u by (simp add: duration_cast_def le_div_iff)
  qed
qed

lemma seconds_pos [simp]: "0 < seconds" "0 < minutes"
  by (simp_all add: seconds_def minutes_def)

lemma map_of_filter_vals:
  "distinct (map fst xs) \<Longrightarrow>
    map_of (filter (\<lambda>(k, b). P b) xs) k = (case map_of xs k of None \<Rightarrow> None | Some b \<Rightarrow> if P b then Some b else None)"
proof (induction xs)
  case (Cons x xs)
  obtain a b where x: "x = (a, b)" by (cases x)
  show ?case
  proof (cases "a = k")
    case True
    then have "map_of xs k = None" using Cons.prems x by (auto simp: map_of_eq_None_iff)
    with Cons True x show ?thesis by simp
  next
    case False
    with Cons x show ?thesis by simp
  qed
qed simp

lemma distinct_filter_keys: "distinct (map fst xs) \<Longrightarrow> distinct (map fst (filter P xs))"
  by (rule distinct_map_filter)

lemma bucket_sim_mono: "bucket_sim t bo w \<Longrightarrow> t \<le> now \<Longrightarrow> bucket_sim now bo w"
  by (cases bo) (force simp: bucket_sim_def)+

lemma shard_sim_mono: "shard_sim t sh w here \<Longrightarrow> t \<le> now \<Longrightarrow> shard_sim now sh w here"
  using bucket_sim_mono by (auto simp: shard_sim_def)

lemma bucket_cleanup:
  assumes "bucket_sim now bo w"
  shows "bucket_sim now (case bo of None \<Rightarrow> None
      | Some b \<Rightarrow> if \<not> 5 \<le> duration_cast minutes (now - bk_lastSeen b) then Some b else None) w"
proof (cases bo)
  case None
  with assms show ?thesis by simp
next
  case (Some b)
  with assms show ?thesis
    by (auto simp: bucket_sim_def duration_cast_ge minutes_def seconds_def)
qed

lemma cleanup_sim:
  assumes "shard_sim now sh w here"
  shows "shard_sim now (cleanupShard now sh) w here"
proof -
  have d: "distinct (map fst (sh_buckets sh))" using assms by (simp add: shard_sim_def)
  show ?thesis
    using assms d bucket_cleanup
    by (simp add: shard_sim_def cleanupShard_def map_of_filter_vals [OF d] distinct_filter_keys)
qed

text \<open>One update of a bucket is one step of the window.\<close>

lemma touch_bucket_step:
  assumes "0 < now" "0 < m" "bucket_sim now bo w"
  defines "b \<equiv> touch_bucket now (case bo of None \<Rightarrow> new_bucket | Some b \<Rightarrow> b)"
  shows "spec_step m now w =
      (if m \<le> bk_count b then (False, Some (bk_windowStart b, bk_count b))
       else (True, Some (bk_windowStart b, bk_count b + 1))) \<and>
    0 < bk_windowStart b \<and> bk_windowStart b \<le> bk_lastSeen b \<and> bk_windowStart b \<le> now"
proof -
  have sixty: "60 \<le> duration_cast seconds d \<longleftrightarrow> minutes \<le> d" for d
    by (simp add: duration_cast_ge minutes_def)
  have zero: "\<not> minutes \<le> 0" by (simp add: minutes_def seconds_def)
  show ?thesis
  proof (cases bo)
    case None
    then have "w = None \<or> (\<exists>s n. w = Some (s, n) \<and> s + minutes \<le> now)" using assms(3) by (simp add: bucket_sim_def)
    with None assms(1,2) show ?thesis
      by (elim disjE exE conjE) (simp_all add: b_def touch_bucket_def new_bucket_def Let_def sixty zero)
  next
    case (Some b')
    then have "w = Some (bk_windowStart b', bk_count b')" "0 < bk_windowStart b'" "bk_windowStart b' \<le> now"
      using assms(3) by (auto simp: bucket_sim_def)
    with Some assms(1,2) show ?thesis by (simp add: b_def touch_bucket_def Let_def sixty)
  qed
qed

lemma shard_allow_sim:
  assumes "0 < now" "0 < m" "shard_sim now sh w here" "here key"
    and "shard_allow m key now sh = (ok, sh')"
  shows "\<exists>x. spec_step m now (w key) = (ok, x) \<and> shard_sim now sh' (w(key := x)) here"
proof -
  define ops where "ops = (sh_operations sh + 1) mod 2 ^ 64"
  define sh1 where "sh1 = sh\<lparr>sh_operations := ops\<rparr>"
  define sh2 where "sh2 = (if ops mod 4096 = 0 then cleanupShard now sh1 else sh1)"
  have "shard_sim now sh1 w here" using assms(3) by (simp add: sh1_def shard_sim_def)
  then have sim: "shard_sim now sh2 w here" by (simp add: sh2_def cleanup_sim)
  define b where "b = touch_bucket now (case map_of (sh_buckets sh2) key of None \<Rightarrow> new_bucket | Some b \<Rightarrow> b)"
  have "bucket_sim now (map_of (sh_buckets sh2) key) (w key)" using sim assms(4) by (simp add: shard_sim_def)
  from touch_bucket_step [OF assms(1,2) this, folded b_def]
  have step: "spec_step m now (w key) =
      (if m \<le> bk_count b then (False, Some (bk_windowStart b, bk_count b))
       else (True, Some (bk_windowStart b, bk_count b + 1)))"
    and b: "0 < bk_windowStart b" "bk_windowStart b \<le> bk_lastSeen b" "bk_windowStart b \<le> now" by auto
  have res: "(ok, sh') = (if m \<le> bk_count b
         then (False, sh2\<lparr>sh_buckets := AList.update key b (sh_buckets sh2)\<rparr>)
         else (True, sh2\<lparr>sh_buckets := AList.update key (b\<lparr>bk_count := bk_count b + 1\<rparr>) (sh_buckets sh2)\<rparr>))"
    using assms(5)
    unfolding shard_allow_def Let_def ops_def [symmetric] sh1_def [symmetric] sh2_def [symmetric] b_def [symmetric]
    by simp
  have upd: "shard_sim now (sh2\<lparr>sh_buckets := AList.update key b' (sh_buckets sh2)\<rparr>)
      (w(key := Some (bk_windowStart b', bk_count b'))) here"
    if "0 < bk_windowStart b'" "bk_windowStart b' \<le> bk_lastSeen b'" "bk_windowStart b' \<le> now" for b'
    using sim that by (simp add: shard_sim_def distinct_update update_conv' bucket_sim_def)
  show ?thesis
  proof (cases "m \<le> bk_count b")
    case True
    with res step upd [OF b] show ?thesis by simp
  next
    case False
    with res step upd [of "b\<lparr>bk_count := bk_count b + 1\<rparr>"] b show ?thesis by simp
  qed
qed

definition limiter_sim :: "(string \<Rightarrow> nat) \<Rightarrow> int \<Rightarrow> rate_limiter \<Rightarrow> windows \<Rightarrow> bool" where
  "limiter_sim hash now rl w \<longleftrightarrow>
     rl_shards rl \<noteq> [] \<and>
     (\<forall>i < length (rl_shards rl).
        shard_sim now (rl_shards rl ! i) w (\<lambda>k. hash k mod length (rl_shards rl) = i))"

lemma shard_sim_other: "shard_sim now sh w here \<Longrightarrow> \<not> here key \<Longrightarrow> shard_sim now sh (w(key := x)) here"
  by (auto simp: shard_sim_def)

lemma allow_sim:
  assumes "limiter_sim hash t rl w" "t \<le> now" "0 < now" "0 < rl_maxPerMinute rl" "allow hash key now rl = (ok, rl')"
  shows "\<exists>x. spec_step (rl_maxPerMinute rl) now (w key) = (ok, x) \<and> limiter_sim hash now rl' (w(key := x)) \<and>
    rl_maxPerMinute rl' = rl_maxPerMinute rl"
proof -
  let ?n = "length (rl_shards rl)" and ?i = "hash key mod length (rl_shards rl)"
  have ne: "rl_shards rl \<noteq> []" using assms(1) by (simp add: limiter_sim_def)
  then have i: "?i < ?n" by simp
  have sims: "shard_sim now (rl_shards rl ! j) w (\<lambda>k. hash k mod ?n = j)" if "j < ?n" for j
    using assms(1,2) that by (auto simp: limiter_sim_def intro: shard_sim_mono)
  obtain sh where sh: "shard_allow (rl_maxPerMinute rl) key now (rl_shards rl ! ?i) = (ok, sh)"
    and rl': "rl' = rl\<lparr>rl_shards := (rl_shards rl)[?i := sh]\<rparr>"
    using assms(4,5) by (auto simp: allow_def Let_def split: prod.splits)
  obtain x where x: "spec_step (rl_maxPerMinute rl) now (w key) = (ok, x)"
    and here: "shard_sim now sh (w(key := x)) (\<lambda>k. hash k mod ?n = ?i)"
    using shard_allow_sim [OF assms(3,4) sims [OF i] refl sh] by blast
  have "shard_sim now (rl_shards rl' ! j) (w(key := x)) (\<lambda>k. hash k mod ?n = j)" if "j < ?n" for j
    using here sims [OF that] i that by (cases "j = ?i") (auto simp: rl' intro: shard_sim_other)
  with x ne show ?thesis by (simp add: limiter_sim_def rl')
qed

lemma run_limiter_sim:
  assumes "limiter_sim hash t rl w" "0 < t" "call_times t calls" "0 < rl_maxPerMinute rl"
  shows "run_limiter hash rl calls = spec_run (rl_maxPerMinute rl) w calls"
  using assms
proof (induction hash rl calls arbitrary: t w rule: run_limiter.induct)
  case (2 hash rl key now calls)
  obtain ok rl' where a: "allow hash key now rl = (ok, rl')" by (cases "allow hash key now rl")
  have now: "t \<le> now" "0 < now" using "2.prems" by auto
  obtain x where x: "spec_step (rl_maxPerMinute rl) now (w key) = (ok, x)" "limiter_sim hash now rl' (w(key := x))"
    "rl_maxPerMinute rl' = rl_maxPerMinute rl"
    using allow_sim [OF "2.prems"(1) now "2.prems"(4) a] by blast
  have "run_limiter hash rl' calls = spec_run (rl_maxPerMinute rl') (w(key := x)) calls"
    by (rule "2.IH" [OF a [symmetric] x(2) now(2)]) (use "2.prems"(3,4) x(3) in simp_all)
  with a x(1,3) show ?case by simp
qed simp

lemma make_limiter_sim: "limiter_sim hash t (make_limiter m n) (\<lambda>_. None)"
  by (simp add: limiter_sim_def make_limiter_def shard_sim_def bucket_sim_def)

lemma run_limiter_zero: "rl_maxPerMinute rl = 0 \<Longrightarrow> run_limiter hash rl calls = replicate (length calls) False"
  by (induction calls arbitrary: rl) (auto simp: allow_def)

lemma spec_run_zero: "spec_run 0 w calls = replicate (length calls) False"
proof (induction calls arbitrary: w)
  case (Cons c calls)
  obtain k n where c: "c = (k, n)" by (cases c)
  have "fst (spec_step 0 n v) = False" for v by (cases "(0::nat, n, v)" rule: spec_step.cases) auto
  then obtain x where "spec_step 0 n (w k) = (False, x)" by (metis prod.collapse)
  with Cons c show ?case by simp
qed simp

lemma limiter_contract:
  "call_times 1 calls \<Longrightarrow> run_limiter hash (make_limiter m n) calls = spec_run m (\<lambda>_. None) calls"
proof (cases "m = 0")
  case True
  then show ?thesis using run_limiter_zero [of "make_limiter m n"] by (simp add: spec_run_zero make_limiter_def)
next
  case False
  assume "call_times 1 calls"
  with False show ?thesis
    using run_limiter_sim [OF make_limiter_sim [of hash 1 m n], of calls] by (simp add: make_limiter_def)
qed

interpretation limiter: window_limiter "run_limiter hash (make_limiter m n)" m for hash m n
  by unfold_locales (rule limiter_contract)

text \<open>
  C14: the sharded limiter with its periodic clean-up answers every sequence of calls, at times
  after the epoch of the steady clock that do not go back, as the fixed windows of 60 seconds per
  key do: shards, hash collisions and the removal of idle buckets are not observable.
\<close>

theorem limiter_refines_windows:
  assumes "call_times 1 calls"
  shows "run_limiter hash (make_limiter maxPerMinute shardCount) calls = spec_run maxPerMinute (\<lambda>_. None) calls"
  using assms by (rule limiter_contract)

text \<open>
  No client gets more than twice the configured number of requests through in any 60 seconds
  (fixed windows cannot promise less), whatever the other clients do.
\<close>

theorem limiter_minute_bound:
  assumes "call_times 1 calls"
  shows "allowed_count key t calls (run_limiter hash (make_limiter maxPerMinute shardCount) calls) \<le> 2 * maxPerMinute"
  using assms by (rule limiter.minute_bound)

section \<open>The theorems at concrete calls\<close>

definition example_calls :: "(string \<times> int) list" where
  "example_calls = [(''a'', 1), (''b'', 2), (''a'', 3), (''a'', 4), (''a'', 60 * seconds + 1), (''a'', 60 * seconds + 2)]"

lemma example_times: "call_times 1 example_calls"
  by (simp add: example_calls_def seconds_def)

theorem limiter_refines_windows_witness:
  "run_limiter length (make_limiter 2 3) example_calls = [True, True, True, False, True, True]"
proof -
  have "spec_run 2 (\<lambda>_. None) example_calls = [True, True, True, False, True, True]" by code_simp
  then show ?thesis using limiter_refines_windows [OF example_times, of length 2 3] by simp
qed

theorem limiter_minute_bound_witness:
  "allowed_count ''a'' 3 example_calls (run_limiter length (make_limiter 2 3) example_calls) \<le> 4"
  using limiter_minute_bound [OF example_times, of "''a''" 3 length 2 3] by simp

end
