(* ===== verification/BoundedQueue.thy ===== *)
theory BoundedQueue
  imports Main "HOL-Library.Sublist"
begin

text \<open>
  The contract of the two bounded queues of the program, the tasks of the thread pool and the
  lines of the access log: a push appends at the end or is refused, and never blocks.
\<close>

locale bounded_queue =
  fixes push :: "'a \<Rightarrow> 'q \<Rightarrow> bool \<times> 'q" and items :: "'q \<Rightarrow> 'a list" and capacity :: "'q \<Rightarrow> nat"
  assumes push_accepted: "push x q = (True, q') \<Longrightarrow> items q' = items q @ [x] \<and> length (items q) < capacity q"
    and push_refused: "push x q = (False, q') \<Longrightarrow> items q' = items q"
    and push_capacity: "push x q = (b, q') \<Longrightarrow> capacity q' = capacity q"
begin

fun push_all :: "'a list \<Rightarrow> 'q \<Rightarrow> 'q" where
  "push_all [] q = q"
| "push_all (x # xs) q = push_all xs (snd (push x q))"

fun accepted :: "'a list \<Rightarrow> 'q \<Rightarrow> 'a list" where
  "accepted [] q = []"
| "accepted (x # xs) q =
     (case push x q of (ok, q') \<Rightarrow> (if ok then [x] else []) @ accepted xs q')"

lemma capacity_push_all: "capacity (push_all xs q) = capacity q"
proof (induction xs arbitrary: q)
  case (Cons x xs)
  have "capacity (snd (push x q)) = capacity q" using push_capacity by (metis prod.collapse)
  with Cons show ?case by simp
qed simp

lemma items_push_all: "items (push_all xs q) = items q @ accepted xs q"
proof (induction xs arbitrary: q)
  case (Cons x xs)
  obtain ok q' where p: "push x q = (ok, q')" by (cases "push x q")
  with Cons show ?case using push_accepted [of x q q'] push_refused [of x q q'] by (cases ok) auto
qed simp

lemma accepted_subseq: "subseq (accepted xs q) xs"
  by (induction xs arbitrary: q) (auto split: prod.splits intro: subseq_Cons')

lemma items_bounded: "length (items q) \<le> capacity q \<Longrightarrow> length (items (push_all xs q)) \<le> capacity q"
proof (induction xs arbitrary: q)
  case (Cons x xs)
  obtain ok q' where p: "push x q = (ok, q')" by (cases "push x q")
  have "capacity q' = capacity q" "length (items q') \<le> capacity q'"
    using p Cons.prems push_accepted [of x q q'] push_refused [of x q q'] push_capacity [of x q ok q']
    by (cases ok; auto)+
  with Cons.IH [of q'] p show ?case by simp
qed simp

lemma push_all_spec:
  assumes "length (items q) \<le> capacity q"
  shows "items (push_all xs q) = items q @ accepted xs q \<and> subseq (accepted xs q) xs \<and>
    length (items (push_all xs q)) \<le> capacity q"
  using items_push_all accepted_subseq items_bounded [OF assms] by blast

end

end
