(* ===== verification/ThreadPool.thy ===== *)
theory ThreadPool
  imports BoundedQueue Paths "HOL-Library.Word"
begin

text \<open>
  \<open>src/src/ThreadPool.cpp\<close> and \<open>.hpp\<close>: a bounded task queue and a fixed number of worker
  threads. What the mutex protects is one step; the atomic counters are changed in steps of their
  own, because they are changed outside of the lock. A worker is where its thread is in
  \<open>workerLoop\<close>; what a task does is not modelled, it may also throw. Any interleaving of the
  callers and the workers is a run.
\<close>

section \<open>State\<close>

text \<open>
  \<open>Waiting\<close>: at the condition variable. \<open>Popped\<close>: has taken a task that \<open>active_\<close> does not
  count yet. \<open>Returned\<close>: the task is over and no longer active, \<open>completed_\<close> does not count
  it yet.
\<close>

datatype 'task worker = Waiting | Popped 'task | Running 'task | Returned | Exited

record 'task pool =
  tp_maxQueueSize :: nat
  tp_tasks :: "'task list"
  tp_workers :: "'task worker list"
  tp_stopping :: bool
  tp_active :: "64 word"
  tp_completed :: "64 word"
  tp_rejected :: "64 word"

definition make_pool :: "nat \<Rightarrow> nat \<Rightarrow> string + 'task pool" where
  "make_pool workerCount maxQueueSize =
     (if workerCount = 0 then Inl ''ThreadPool workerCount must be greater than 0''
      else if maxQueueSize = 0 then Inl ''ThreadPool maxQueueSize must be greater than 0''
      else Inr \<lparr>tp_maxQueueSize = maxQueueSize, tp_tasks = [], tp_workers = replicate workerCount Waiting,
                tp_stopping = False, tp_active = 0, tp_completed = 0, tp_rejected = 0\<rparr>)"

section \<open>Calls of the clients\<close>

definition enqueue :: "'task \<Rightarrow> 'task pool \<Rightarrow> bool \<times> 'task pool" where
  "enqueue task p =
     (if tp_stopping p \<or> tp_maxQueueSize p \<le> length (tp_tasks p)
      then (False, p\<lparr>tp_rejected := tp_rejected p + 1\<rparr>)
      else (True, p\<lparr>tp_tasks := tp_tasks p @ [task]\<rparr>))"

definition shutdown :: "'task pool \<Rightarrow> 'task pool" where
  "shutdown p = (if tp_stopping p then p else p\<lparr>tp_stopping := True\<rparr>)"

text \<open>The first caller of \<open>shutdown\<close> then joins every worker.\<close>

definition joined :: "'task pool \<Rightarrow> bool" where
  "joined p \<longleftrightarrow> list_all (\<lambda>w. w = Exited) (tp_workers p)"

definition queued :: "'task pool \<Rightarrow> nat" where
  "queued p = length (tp_tasks p)"

section \<open>Steps of a worker\<close>

text \<open>What the thread of a worker can do next, and what it then does.\<close>

definition worker_ready :: "'task pool \<Rightarrow> 'task worker \<Rightarrow> bool" where
  "worker_ready p w =
     (case w of
        Waiting \<Rightarrow> tp_stopping p \<or> tp_tasks p \<noteq> []
      | Exited \<Rightarrow> False
      | _ \<Rightarrow> True)"

definition set_worker :: "nat \<Rightarrow> 'task worker \<Rightarrow> 'task pool \<Rightarrow> 'task pool" where
  "set_worker i w p = p\<lparr>tp_workers := (tp_workers p)[i := w]\<rparr>"

definition worker_step :: "nat \<Rightarrow> 'task pool \<Rightarrow> 'task pool" where
  "worker_step i p =
     (case tp_workers p ! i of
        Waiting \<Rightarrow>
          (if tp_stopping p \<and> tp_tasks p = [] then set_worker i Exited p
           else set_worker i (Popped (hd (tp_tasks p))) (p\<lparr>tp_tasks := tl (tp_tasks p)\<rparr>))
      | Popped t \<Rightarrow> set_worker i (Running t) (p\<lparr>tp_active := tp_active p + 1\<rparr>)
      | Running t \<Rightarrow> set_worker i Returned (p\<lparr>tp_active := tp_active p - 1\<rparr>)
      | Returned \<Rightarrow> set_worker i Waiting (p\<lparr>tp_completed := tp_completed p + 1\<rparr>)
      | Exited \<Rightarrow> p)"

section \<open>Runs\<close>

datatype 'task event =
    Enqueue 'task bool
  | Shutdown
  | Start nat 'task
  | Advance nat
  | Exit nat

text \<open>The event of a worker step: taking a task is told apart from the others.\<close>

definition worker_event :: "nat \<Rightarrow> 'task pool \<Rightarrow> 'task event" where
  "worker_event i p =
     (case tp_workers p ! i of
        Waiting \<Rightarrow> (if tp_stopping p \<and> tp_tasks p = [] then Exit i else Start i (hd (tp_tasks p)))
      | _ \<Rightarrow> Advance i)"

inductive pool_step :: "'task pool \<Rightarrow> 'task event \<Rightarrow> 'task pool \<Rightarrow> bool" where
  client: "enqueue t p = (ok, p') \<Longrightarrow> pool_step p (Enqueue t ok) p'"
| stop: "pool_step p Shutdown (shutdown p)"
| worker: "i < length (tp_workers p) \<Longrightarrow> worker_ready p (tp_workers p ! i) \<Longrightarrow>
     pool_step p (worker_event i p) (worker_step i p)"

inductive_cases pool_stepE: "pool_step p e p'"

inductive pool_run :: "'task pool \<Rightarrow> 'task event list \<Rightarrow> 'task pool \<Rightarrow> bool" where
  new: "make_pool n m = Inr p \<Longrightarrow> pool_run p [] p"
| more: "pool_run p es p' \<Longrightarrow> pool_step p' e p'' \<Longrightarrow> pool_run p (es @ [e]) p''"

fun accepted_task :: "'task event \<Rightarrow> 'task list" where
  "accepted_task (Enqueue t True) = [t]"
| "accepted_task e = []"

fun started_task :: "'task event \<Rightarrow> 'task list" where
  "started_task (Start i t) = [t]"
| "started_task e = []"

definition accepted_tasks :: "'task event list \<Rightarrow> 'task list" where
  "accepted_tasks es = concat (map accepted_task es)"

definition started_tasks :: "'task event list \<Rightarrow> 'task list" where
  "started_tasks es = concat (map started_task es)"

fun rejects :: "'task event \<Rightarrow> nat" where
  "rejects (Enqueue t False) = 1"
| "rejects e = 0"

section \<open>The queue keeps its contract\<close>

interpretation pool_queue: bounded_queue enqueue tp_tasks tp_maxQueueSize
  by unfold_locales (auto simp: enqueue_def split: if_splits)

text \<open>
  A burst of new connections: of the tasks offered without a worker taking any, some are
  accepted in their order behind those that wait, the others are refused, and the queue never
  grows beyond its bound.
\<close>

theorem enqueue_burst:
  assumes "length (tp_tasks p) \<le> tp_maxQueueSize p"
  shows "\<exists>taken. subseq taken ts \<and> tp_tasks (fold (\<lambda>t p. snd (enqueue t p)) ts p) = tp_tasks p @ taken \<and>
    length (tp_tasks (fold (\<lambda>t p. snd (enqueue t p)) ts p)) \<le> tp_maxQueueSize p"
proof -
  have "fold (\<lambda>t p. snd (enqueue t p)) ts p = pool_queue.push_all ts p"
    by (induction ts arbitrary: p) simp_all
  with pool_queue.push_all_spec [OF assms, of ts] show ?thesis by auto
qed

section \<open>Invariants of all runs\<close>

definition count_workers :: "('task worker \<Rightarrow> bool) \<Rightarrow> 'task pool \<Rightarrow> nat" where
  "count_workers P p = length (filter P (tp_workers p))"

fun is_running :: "'task worker \<Rightarrow> bool" where
  "is_running (Running t) = True"
| "is_running w = False"

fun is_busy :: "'task worker \<Rightarrow> bool" where
  "is_busy (Popped t) = True"
| "is_busy (Running t) = True"
| "is_busy Returned = True"
| "is_busy w = False"

definition pool_inv :: "'task event list \<Rightarrow> 'task pool \<Rightarrow> bool" where
  "pool_inv es p \<longleftrightarrow>
     tp_workers p \<noteq> [] \<and> 0 < tp_maxQueueSize p \<and>
     length (tp_tasks p) \<le> tp_maxQueueSize p \<and>
     accepted_tasks es = started_tasks es @ tp_tasks p \<and>
     tp_active p = of_nat (count_workers is_running p) \<and>
     (\<exists>n. tp_completed p = of_nat n \<and> length (started_tasks es) = n + count_workers is_busy p) \<and>
     tp_rejected p = of_nat (sum_list (map rejects es)) \<and>
     ((\<exists>w \<in> set (tp_workers p). w = Exited) \<longrightarrow> tp_stopping p \<and> tp_tasks p = [])"

lemma events_snoc [simp]:
  "accepted_tasks (es @ [e]) = accepted_tasks es @ accepted_task e"
  "started_tasks (es @ [e]) = started_tasks es @ started_task e"
  by (simp_all add: accepted_tasks_def started_tasks_def)

lemma length_filter_update:
  "i < length xs \<Longrightarrow> length (filter P (xs[i := x])) + (if P (xs ! i) then 1 else 0) =
     length (filter P xs) + (if P x then 1 else 0)"
proof (induction xs arbitrary: i)
  case (Cons y ys)
  then show ?case by (cases i) auto
qed simp

lemma count_set_worker:
  "i < length (tp_workers p) \<Longrightarrow>
    count_workers P (set_worker i w p) + (if P (tp_workers p ! i) then 1 else 0) =
    count_workers P p + (if P w then 1 else 0)"
  by (simp add: count_workers_def set_worker_def length_filter_update)

lemma worker_step_other [simp]:
  "tp_maxQueueSize (set_worker i w p) = tp_maxQueueSize p" "tp_tasks (set_worker i w p) = tp_tasks p"
  "tp_stopping (set_worker i w p) = tp_stopping p" "tp_active (set_worker i w p) = tp_active p"
  "tp_completed (set_worker i w p) = tp_completed p" "tp_rejected (set_worker i w p) = tp_rejected p"
  "tp_workers (set_worker i w p) = (tp_workers p)[i := w]"
  by (simp_all add: set_worker_def)

lemma count_workers_upd [simp]:
  "count_workers P (p\<lparr>tp_tasks := ts\<rparr>) = count_workers P p"
  "count_workers P (p\<lparr>tp_active := a\<rparr>) = count_workers P p"
  "count_workers P (p\<lparr>tp_completed := a\<rparr>) = count_workers P p"
  "count_workers P (p\<lparr>tp_rejected := a\<rparr>) = count_workers P p"
  "count_workers P (p\<lparr>tp_stopping := s\<rparr>) = count_workers P p"
  by (simp_all add: count_workers_def)

lemma count_workers_set_upd [simp]:
  "count_workers P (set_worker i w (p\<lparr>tp_tasks := ts\<rparr>)) = count_workers P (set_worker i w p)"
  "count_workers P (set_worker i w (p\<lparr>tp_active := a\<rparr>)) = count_workers P (set_worker i w p)"
  "count_workers P (set_worker i w (p\<lparr>tp_completed := a\<rparr>)) = count_workers P (set_worker i w p)"
  by (simp_all add: count_workers_def)

lemma exited_update: "Exited \<in> set (ws[i := w]) \<Longrightarrow> w \<noteq> Exited \<Longrightarrow> Exited \<in> set ws"
  using set_update_subset_insert by fastforce

lemma client_inv:
  assumes "pool_inv es p" "enqueue t p = (ok, p')"
  shows "pool_inv (es @ [Enqueue t ok]) p'"
  using assms by (auto simp: pool_inv_def enqueue_def split: if_splits)

lemma stop_inv: "pool_inv es p \<Longrightarrow> pool_inv (es @ [Shutdown]) (shutdown p)"
  by (auto simp: pool_inv_def shutdown_def)

lemma worker_inv:
  assumes inv: "pool_inv es p" and i: "i < length (tp_workers p)" and ready: "worker_ready p (tp_workers p ! i)"
  shows "pool_inv (es @ [worker_event i p]) (worker_step i p)"
proof -
  have i': "\<And>q. tp_workers q = tp_workers p \<Longrightarrow> i < length (tp_workers q)" using i by simp
  obtain n where n: "tp_completed p = of_nat n" "length (started_tasks es) = n + count_workers is_busy p"
    using inv by (auto simp: pool_inv_def)
  show ?thesis
  proof (cases "tp_workers p ! i")
    case Waiting
    show ?thesis
    proof (cases "tp_stopping p \<and> tp_tasks p = []")
      case True
      with inv n Waiting show ?thesis
        using count_set_worker [OF i, of is_running Exited] count_set_worker [OF i, of is_busy Exited]
        by (simp add: pool_inv_def worker_step_def worker_event_def)
    next
      case False
      then obtain t ts where q: "tp_tasks p = t # ts" using ready Waiting by (cases "tp_tasks p") (auto simp: worker_ready_def)
      let ?p = "p\<lparr>tp_tasks := ts\<rparr>"
      have ne: "\<not> (\<exists>w \<in> set (tp_workers p). w = Exited)" using inv q by (auto simp: pool_inv_def)
      show ?thesis
        using inv n Waiting q count_set_worker [of i ?p is_running "Popped t"] count_set_worker [of i ?p is_busy "Popped t"] i
          ne exited_update [of "tp_workers p" i "Popped t"]
        by (simp add: pool_inv_def worker_step_def worker_event_def) blast
    qed
  next
    case (Popped t)
    let ?p = "p\<lparr>tp_active := tp_active p + 1\<rparr>"
    show ?thesis
      using inv n Popped count_set_worker [of i ?p is_running "Running t"] count_set_worker [of i ?p is_busy "Running t"] i
        exited_update [of "tp_workers p" i "Running t"]
      by (simp add: pool_inv_def worker_step_def worker_event_def)
  next
    case (Running t)
    define c where "c = count_workers is_running (set_worker i Returned p)"
    have c: "count_workers is_running p = Suc c"
      using count_set_worker [OF i, of is_running Returned] Running by (simp add: c_def)
    have "tp_active p = of_nat (count_workers is_running p)" using inv by (simp add: pool_inv_def)
    then have "tp_active p - 1 = of_nat c" unfolding c by simp
    then have "tp_active p - 1 = of_nat (count_workers is_running (set_worker i Returned p))" by (simp only: c_def)
    then show ?thesis
      using inv n Running count_set_worker [OF i, of is_busy Returned] exited_update [of "tp_workers p" i Returned]
      by (simp add: pool_inv_def worker_step_def worker_event_def)
  next
    case Returned
    have "tp_completed p + 1 = of_nat (Suc n)" using n(1) by simp
    moreover have "length (started_tasks es) = Suc n + count_workers is_busy (set_worker i Waiting p)"
      using n(2) count_set_worker [OF i, of is_busy Waiting] Returned by simp
    ultimately have "\<exists>n. tp_completed p + 1 = of_nat n \<and>
        length (started_tasks es) = n + count_workers is_busy (set_worker i Waiting p)" by blast
    with inv Returned count_set_worker [OF i, of is_running Waiting] exited_update [of "tp_workers p" i Waiting]
    show ?thesis by (simp add: pool_inv_def worker_step_def worker_event_def)
  next
    case Exited
    with ready show ?thesis by (simp add: worker_ready_def)
  qed
qed

lemma pool_step_inv: "pool_inv es p \<Longrightarrow> pool_step p e p' \<Longrightarrow> pool_inv (es @ [e]) p'"
  by (erule pool_stepE) (simp_all add: client_inv stop_inv worker_inv)

lemma new_pool_inv: "make_pool n m = Inr p \<Longrightarrow> pool_inv [] p"
  by (auto simp: make_pool_def pool_inv_def accepted_tasks_def started_tasks_def count_workers_def split: if_splits)

lemma pool_run_inv: "pool_run p es p' \<Longrightarrow> pool_inv es p'"
proof (induction rule: pool_run.induct)
  case (new n m p)
  then show ?case by (rule new_pool_inv)
next
  case (more p es p' e p'')
  then show ?case by (blast intro: pool_step_inv)
qed

text \<open>
  C23: in every interleaving of clients and workers the queue is within its bound, tasks are
  started in the order in which they were accepted, none is lost or started twice, the counters
  say how many tasks run, are over and were refused, and no worker has left while tasks wait.
\<close>

theorem pool_invariant:
  assumes "pool_run p es p'"
  shows "length (tp_tasks p') \<le> tp_maxQueueSize p' \<and>
    accepted_tasks es = started_tasks es @ tp_tasks p' \<and>
    tp_active p' = of_nat (count_workers is_running p') \<and>
    (\<exists>n. tp_completed p' = of_nat n \<and> length (started_tasks es) = n + count_workers is_busy p') \<and>
    tp_rejected p' = of_nat (sum_list (map rejects es)) \<and>
    (Exited \<in> set (tp_workers p') \<longrightarrow> tp_stopping p' \<and> tp_tasks p' = [])"
  using pool_run_inv [OF assms] by (auto simp: pool_inv_def)

text \<open>
  C24: graceful shutdown: once the workers are joined, every task that was ever accepted was
  started and is over, and all later tasks are refused.
\<close>

theorem shutdown_drains:
  assumes "pool_run p es p'" "joined p'"
  shows "started_tasks es = accepted_tasks es \<and> tp_completed p' = of_nat (length (accepted_tasks es)) \<and>
    fst (enqueue t p') = False"
proof -
  have inv: "pool_inv es p'" by (rule pool_run_inv [OF assms(1)])
  have "filter is_busy (tp_workers p') = []" using assms(2) by (auto simp: joined_def list_all_iff filter_empty_conv)
  then have busy: "count_workers is_busy p' = 0" by (simp add: count_workers_def)
  have "\<exists>w \<in> set (tp_workers p'). w = Exited"
    using inv assms(2) by (cases "tp_workers p'") (auto simp: pool_inv_def joined_def)
  with inv busy show ?thesis by (auto simp: pool_inv_def enqueue_def)
qed

section \<open>Shutdown ends\<close>

text \<open>Each step of a worker of a stopping pool brings the pool nearer to its end.\<close>

fun worker_work :: "'task worker \<Rightarrow> nat" where
  "worker_work Waiting = 1"
| "worker_work (Popped t) = 4"
| "worker_work (Running t) = 3"
| "worker_work Returned = 2"
| "worker_work Exited = 0"

definition pool_work :: "'task pool \<Rightarrow> nat" where
  "pool_work p = 4 * length (tp_tasks p) + sum_list (map worker_work (tp_workers p))"

inductive worker_run :: "'task pool \<Rightarrow> nat \<Rightarrow> 'task pool \<Rightarrow> bool" where
  here: "worker_run p 0 p"
| there: "i < length (tp_workers p) \<Longrightarrow> worker_ready p (tp_workers p ! i) \<Longrightarrow>
     worker_run (worker_step i p) n p' \<Longrightarrow> worker_run p (Suc n) p'"

lemma work_update:
  "i < length ws \<Longrightarrow> sum_list (map worker_work (ws[i := w])) + worker_work (ws ! i) =
    sum_list (map worker_work ws) + worker_work w"
proof (induction ws arbitrary: i)
  case (Cons y ys)
  then show ?case by (cases i) auto
qed simp

lemma worker_step_work:
  assumes "tp_stopping p" "i < length (tp_workers p)" "worker_ready p (tp_workers p ! i)"
  shows "pool_work (worker_step i p) < pool_work p \<and> tp_stopping (worker_step i p)"
proof (cases "tp_workers p ! i")
  case Waiting
  with assms work_update [OF assms(2), of Exited] work_update [OF assms(2), of "Popped (hd (tp_tasks p))"]
  show ?thesis by (cases "tp_tasks p") (auto simp: worker_step_def pool_work_def worker_ready_def)
next
  case (Popped t)
  with assms work_update [OF assms(2), of "Running t"] show ?thesis by (simp add: worker_step_def pool_work_def)
next
  case (Running t)
  with assms work_update [OF assms(2), of Returned] show ?thesis by (simp add: worker_step_def pool_work_def)
next
  case Returned
  with assms work_update [OF assms(2), of Waiting] show ?thesis by (simp add: worker_step_def pool_work_def)
next
  case Exited
  with assms show ?thesis by (simp add: worker_ready_def)
qed

lemma worker_run_bound: "worker_run p n p' \<Longrightarrow> tp_stopping p \<Longrightarrow> n + pool_work p' \<le> pool_work p \<and> tp_stopping p'"
proof (induction rule: worker_run.induct)
  case (there i p n p')
  with worker_step_work [of p i] show ?case by auto
qed simp

lemma stuck_joined:
  assumes "tp_stopping p" "\<And>i. i < length (tp_workers p) \<Longrightarrow> \<not> worker_ready p (tp_workers p ! i)"
  shows "joined p"
proof -
  have "w = Exited" if w: "w \<in> set (tp_workers p)" for w
  proof -
    obtain i where "i < length (tp_workers p)" "tp_workers p ! i = w" using w by (auto simp: in_set_conv_nth)
    with assms(2) [of i] assms(1) show ?thesis by (cases w) (auto simp: worker_ready_def)
  qed
  then show ?thesis by (auto simp: joined_def list_all_iff)
qed


section \<open>The theorems at a concrete run\<close>

text \<open>A scheduler's choices, and the run they give.\<close>

datatype 'task choice = Offer 'task | Stop | Work nat

fun run_choices :: "'task choice list \<Rightarrow> 'task pool \<Rightarrow> 'task event list \<Rightarrow> 'task event list \<times> 'task pool" where
  "run_choices [] p es = (es, p)"
| "run_choices (Offer t # cs) p es = (case enqueue t p of (ok, p') \<Rightarrow> run_choices cs p' (es @ [Enqueue t ok]))"
| "run_choices (Stop # cs) p es = run_choices cs (shutdown p) (es @ [Shutdown])"
| "run_choices (Work i # cs) p es =
     (if i < length (tp_workers p) \<and> worker_ready p (tp_workers p ! i)
      then run_choices cs (worker_step i p) (es @ [worker_event i p]) else run_choices cs p es)"

lemma run_choices_run: "pool_run p0 es p \<Longrightarrow> run_choices cs p es = (es', p') \<Longrightarrow> pool_run p0 es' p'"
proof (induction cs p es rule: run_choices.induct)
  case (2 t cs p es)
  then show ?case by (auto split: prod.splits intro: pool_run.more pool_step.client)
next
  case (3 cs p es)
  then show ?case by (auto intro: pool_run.more pool_step.stop)
next
  case (4 i cs p es)
  then show ?case by (auto split: if_splits intro: pool_run.more pool_step.worker)
qed simp

definition example_pool :: "nat pool" where
  "example_pool =
     \<lparr>tp_maxQueueSize = 1, tp_tasks = [], tp_workers = [Waiting], tp_stopping = False, tp_active = 0,
      tp_completed = 0, tp_rejected = 0\<rparr>"

definition example_choices :: "nat choice list" where
  "example_choices = [Offer 7, Offer 8, Work 0, Offer 9, Stop] @ replicate 8 (Work 0)"

definition example_run :: "nat event list \<times> nat pool" where
  "example_run = run_choices example_choices example_pool []"

lemma example_run_is_run: "pool_run example_pool (fst example_run) (snd example_run)"
proof (rule run_choices_run)
  show "pool_run example_pool [] example_pool"
    by (rule pool_run.new [of 1 1]) (simp add: make_pool_def example_pool_def)
  show "run_choices example_choices example_pool [] = (fst example_run, snd example_run)"
    by (simp add: example_run_def)
qed

lemma example_run_events: "accepted_tasks (fst example_run) = [7, 9]" and example_run_joined: "joined (snd example_run)"
  by code_simp+

theorem enqueue_burst_witness:
  "\<exists>taken. subseq taken [1, 2, 3] \<and>
     tp_tasks (fold (\<lambda>t p. snd (enqueue t p)) [1, 2, 3] example_pool) = taken"
proof -
  have "length (tp_tasks example_pool) \<le> tp_maxQueueSize example_pool" by code_simp
  from enqueue_burst [OF this, of "[1, 2, 3]"] show ?thesis by (auto simp: example_pool_def)
qed

theorem pool_invariant_witness: "accepted_tasks (fst example_run) = started_tasks (fst example_run) @ tp_tasks (snd example_run)"
  using pool_invariant [OF example_run_is_run] by blast

theorem shutdown_drains_witness: "started_tasks (fst example_run) = [7, 9]"
  using shutdown_drains [OF example_run_is_run example_run_joined] by (simp add: example_run_events)


end
