(* ===== verification/StaticCache.thy ===== *)
theory StaticCache
  imports Paths Numbers "HOL-Library.AList" "HOL-Library.Word"
begin

text \<open>
  \<open>src/src/StaticFileCache.cpp\<close> and \<open>.hpp\<close>: bodies of static files in memory. A shard is
  locked for each of the phases of \<open>get\<close> (look up, revalidate, insert with eviction), which are
  functions of their own here, so that the lemmas hold for any interleaving of several threads;
  \<open>get\<close> is their composition as one thread runs it. Byte counts are integers (the invariant
  shows that they never leave the range of \<open>std::uintmax_t\<close>), times are nanoseconds.
\<close>

section \<open>State\<close>

record cached_static_file =
  cf_body :: string
  cf_etag :: string
  cf_size :: nat

record cache_entry =
  ce_file :: cached_static_file
  ce_modified :: int
  ce_validatedAt :: int
  ce_lastAccess :: nat

record cache_shard =
  cs_entries :: "(string \<times> cache_entry) list"
  cs_bytes :: int

record static_cache =
  sc_enabled :: bool
  sc_maxEntries :: nat
  sc_maxBytes :: nat
  sc_maxFileBytes :: nat
  sc_revalidateInterval :: int
  sc_shards :: "cache_shard list"
  sc_clock :: nat
  sc_hits :: "64 word"
  sc_misses :: "64 word"
  sc_evictions :: "64 word"
  sc_bytes :: int
  sc_entryCount :: int

definition make_cache :: "bool \<Rightarrow> nat \<Rightarrow> nat \<Rightarrow> nat \<Rightarrow> nat \<Rightarrow> nat \<Rightarrow> static_cache" where
  "make_cache enabled shardCount maxEntries maxBytes maxFileBytes revalidateMilliseconds =
     \<lparr>sc_enabled = enabled, sc_maxEntries = maxEntries, sc_maxBytes = maxBytes, sc_maxFileBytes = maxFileBytes,
      sc_revalidateInterval = int revalidateMilliseconds * 1000000,
      sc_shards = replicate (if shardCount = 0 then 1 else shardCount) \<lparr>cs_entries = [], cs_bytes = 0\<rparr>,
      sc_clock = 0, sc_hits = 0, sc_misses = 0, sc_evictions = 0, sc_bytes = 0, sc_entryCount = 0\<rparr>"

definition shardIndex :: "(string \<Rightarrow> nat) \<Rightarrow> static_cache \<Rightarrow> string \<Rightarrow> nat" where
  "shardIndex hash c key = hash key mod length (sc_shards c)"

definition makeEtag :: "nat \<Rightarrow> int \<Rightarrow> string" where
  "makeEtag sz modified = [DQUOTE] @ to_hex sz @ ''-'' @ to_hex (nat (modified mod 2 ^ 64)) @ [DQUOTE]"

section \<open>Eviction\<close>

text \<open>The loop over all entries for the smallest \<open>lastAccess\<close>, starting from the largest number.\<close>

fun find_victim :: "(string \<times> cache_entry) list \<Rightarrow> string option \<Rightarrow> nat \<Rightarrow> string option" where
  "find_victim [] victim oldest = victim"
| "find_victim ((k, e) # es) victim oldest =
     (if ce_lastAccess e < oldest then find_victim es (Some k) (ce_lastAccess e) else find_victim es victim oldest)"

definition entry_size :: "cache_entry \<Rightarrow> int" where
  "entry_size e = int (cf_size (ce_file e))"

definition over_budget :: "nat \<Rightarrow> nat \<Rightarrow> cache_shard \<Rightarrow> bool" where
  "over_budget maxEntries maxBytes sh \<longleftrightarrow> maxEntries < length (cs_entries sh) \<or> int maxBytes < cs_bytes sh"

definition remove_entry :: "string \<Rightarrow> cache_shard \<Rightarrow> cache_shard" where
  "remove_entry k sh =
     sh\<lparr>cs_entries := AList.delete k (cs_entries sh),
        cs_bytes := cs_bytes sh - (case map_of (cs_entries sh) k of None \<Rightarrow> 0 | Some e \<Rightarrow> entry_size e)\<rparr>"

lemma find_victim_mem: "find_victim es v o' = Some k \<Longrightarrow> k \<in> fst ` set es \<or> v = Some k"
  by (induction es v o' rule: find_victim.induct) (auto split: if_splits)

lemma delete_shorter: "k \<in> fst ` set es \<Longrightarrow> length (AList.delete k es) < length es"
  by (induction es) (auto simp: AList.delete_eq intro: le_imp_less_Suc)

text \<open>The shard after eviction and the keys that were evicted, in order.\<close>

function evict :: "nat \<Rightarrow> nat \<Rightarrow> cache_shard \<Rightarrow> cache_shard \<times> string list" where
  "evict maxEntries maxBytes sh =
     (if cs_entries sh \<noteq> [] \<and> over_budget maxEntries maxBytes sh then
        (case find_victim (cs_entries sh) None (2 ^ 64 - 1) of
           None \<Rightarrow> (sh, [])
         | Some k \<Rightarrow> (case evict maxEntries maxBytes (remove_entry k sh) of (sh', ks) \<Rightarrow> (sh', k # ks)))
      else (sh, []))"
  by pat_completeness auto
termination
  by (relation "measure (\<lambda>(n, b, sh). length (cs_entries sh))")
    (auto simp: remove_entry_def dest!: find_victim_mem intro: delete_shorter)

declare evict.simps [simp del]

text \<open>The global counters change by what the shard lost.\<close>

definition evictIfNeeded :: "nat \<Rightarrow> nat \<Rightarrow> nat \<Rightarrow> static_cache \<Rightarrow> static_cache" where
  "evictIfNeeded i shardMaxEntries shardMaxBytes c =
     (let sh = sc_shards c ! i
      in (case evict shardMaxEntries shardMaxBytes sh of
            (sh', ks) \<Rightarrow>
              c\<lparr>sc_shards := (sc_shards c)[i := sh'],
                sc_bytes := sc_bytes c - (cs_bytes sh - cs_bytes sh'),
                sc_entryCount := sc_entryCount c - int (length ks),
                sc_evictions := sc_evictions c + of_nat (length ks)\<rparr>))"

section \<open>The phases of get\<close>

definition cache_lookup :: "(string \<Rightarrow> nat) \<Rightarrow> string \<Rightarrow> int \<Rightarrow> static_cache \<Rightarrow> cached_static_file option \<times> static_cache" where
  "cache_lookup hash key now c =
     (if \<not> sc_enabled c then (None, c)
      else (case map_of (cs_entries (sc_shards c ! shardIndex hash c key)) key of
              None \<Rightarrow> (None, c)
            | Some e \<Rightarrow>
                if now - ce_validatedAt e < sc_revalidateInterval c
                then (Some (ce_file e), c\<lparr>sc_hits := sc_hits c + 1\<rparr>)
                else (None, c)))"

definition update_shard :: "nat \<Rightarrow> (cache_shard \<Rightarrow> cache_shard) \<Rightarrow> static_cache \<Rightarrow> static_cache" where
  "update_shard i f c = c\<lparr>sc_shards := (sc_shards c)[i := f (sc_shards c ! i)]\<rparr>"

definition cache_revalidate ::
  "(string \<Rightarrow> nat) \<Rightarrow> string \<Rightarrow> int \<Rightarrow> nat \<Rightarrow> int \<Rightarrow> static_cache \<Rightarrow> cached_static_file option \<times> static_cache" where
  "cache_revalidate hash key now sz modified c =
     (if \<not> sc_enabled c then (None, c)
      else
        let i = shardIndex hash c key
        in (case map_of (cs_entries (sc_shards c ! i)) key of
              None \<Rightarrow> (None, c)
            | Some e \<Rightarrow>
                if modified = ce_modified e \<and> sz = cf_size (ce_file e)
                then (Some (ce_file e),
                      (update_shard i (\<lambda>sh. sh\<lparr>cs_entries := AList.update key (e\<lparr>ce_validatedAt := now\<rparr>) (cs_entries sh)\<rparr>) c)
                        \<lparr>sc_hits := sc_hits c + 1\<rparr>)
                else (None, c)))"

definition shardMaxEntries :: "static_cache \<Rightarrow> nat" where
  "shardMaxEntries c = max 1 ((sc_maxEntries c + length (sc_shards c) - 1) div length (sc_shards c))"

definition shardMaxBytes :: "static_cache \<Rightarrow> nat" where
  "shardMaxBytes c = max 1 ((sc_maxBytes c + length (sc_shards c) - 1) div length (sc_shards c))"

definition put_entry :: "string \<Rightarrow> cache_entry \<Rightarrow> cache_shard \<Rightarrow> cache_shard" where
  "put_entry key e sh =
     sh\<lparr>cs_entries := AList.update key e (cs_entries sh),
        cs_bytes := cs_bytes sh -
          (case map_of (cs_entries sh) key of None \<Rightarrow> 0 | Some old \<Rightarrow> entry_size old) + entry_size e\<rparr>"

definition cache_insert ::
  "(string \<Rightarrow> nat) \<Rightarrow> string \<Rightarrow> cached_static_file \<Rightarrow> int \<Rightarrow> int \<Rightarrow> static_cache \<Rightarrow> static_cache" where
  "cache_insert hash key cached modified now c =
     (let i = shardIndex hash c key;
          old = map_of (cs_entries (sc_shards c ! i)) key;
          oldSize = (case old of None \<Rightarrow> 0 | Some e \<Rightarrow> entry_size e);
          clock = (sc_clock c + 1) mod 2 ^ 64;
          e = \<lparr>ce_file = cached, ce_modified = modified, ce_validatedAt = now, ce_lastAccess = clock\<rparr>
      in evictIfNeeded i (shardMaxEntries c) (shardMaxBytes c)
           ((update_shard i (put_entry key e) c)
              \<lparr>sc_clock := clock,
               sc_bytes := sc_bytes c - oldSize + int (cf_size cached),
               sc_entryCount := (if old = None then sc_entryCount c + 1 else sc_entryCount c)\<rparr>))"

text \<open>Reading the file: \<open>sz\<close> bytes, or nothing when it cannot be opened or is shorter by now.\<close>

definition read_bytes :: "file_system \<Rightarrow> string \<Rightarrow> nat \<Rightarrow> string option" where
  "read_bytes fs path sz =
     (case fs_content fs path of
        None \<Rightarrow> None
      | Some text \<Rightarrow> if sz \<le> length text then Some (take sz text) else None)"

text \<open>\<open>file_time_type::min()\<close> stands for a time that cannot be read.\<close>

definition modified_time :: "file_system \<Rightarrow> string \<Rightarrow> int" where
  "modified_time fs path = (case fs_mtime fs path of None \<Rightarrow> - (2 ^ 63) | Some t \<Rightarrow> t)"

definition cacheable :: "static_cache \<Rightarrow> nat \<Rightarrow> bool" where
  "cacheable c sz \<longleftrightarrow>
     \<not> (\<not> sc_enabled c \<or> sc_maxEntries c = 0 \<or> sc_maxBytes c = 0 \<or> sc_maxFileBytes c < sz \<or> sc_maxBytes c < sz)"

definition cache_load ::
  "(string \<Rightarrow> nat) \<Rightarrow> file_system \<Rightarrow> string \<Rightarrow> int \<Rightarrow> nat \<Rightarrow> static_cache \<Rightarrow> cached_static_file option \<times> static_cache" where
  "cache_load hash fs path now sz c =
     (let c1 = c\<lparr>sc_misses := sc_misses c + 1\<rparr>; modified = modified_time fs path
      in (case read_bytes fs path sz of
            None \<Rightarrow> (None, c1)
          | Some body \<Rightarrow>
              let cached = \<lparr>cf_body = body, cf_etag = makeEtag sz modified, cf_size = sz\<rparr>
              in if cacheable c1 sz then (Some cached, cache_insert hash path cached modified now c1)
                 else (Some cached, c1)))"

definition cache_get ::
  "(string \<Rightarrow> nat) \<Rightarrow> file_system \<Rightarrow> string \<Rightarrow> int \<Rightarrow> static_cache \<Rightarrow> cached_static_file option \<times> static_cache" where
  "cache_get hash fs path now c =
     (case cache_lookup hash path now c of
        (Some f, c1) \<Rightarrow> (Some f, c1)
      | (None, c1) \<Rightarrow>
          (case fs_size fs path of
             None \<Rightarrow> (None, c1)
           | Some sz \<Rightarrow>
               (case cache_revalidate hash path now sz (modified_time fs path) c1 of
                  (Some f, c2) \<Rightarrow> (Some f, c2)
                | (None, c2) \<Rightarrow> cache_load hash fs path now sz c2)))"

section \<open>Accounting\<close>

definition entries_size :: "(string \<times> cache_entry) list \<Rightarrow> int" where
  "entries_size es = sum_list (map (\<lambda>(k, e). entry_size e) es)"

definition shard_ok :: "cache_shard \<Rightarrow> bool" where
  "shard_ok sh \<longleftrightarrow> distinct (map fst (cs_entries sh)) \<and> cs_bytes sh = entries_size (cs_entries sh)"

definition size_at :: "string \<Rightarrow> (string \<times> cache_entry) list \<Rightarrow> int" where
  "size_at k es = (case map_of es k of None \<Rightarrow> 0 | Some e \<Rightarrow> entry_size e)"

lemma entries_size_simps [simp]: "entries_size [] = 0" "entries_size ((k, e) # es) = entry_size e + entries_size es"
  by (simp_all add: entries_size_def)

lemma entries_size_delete:
  "distinct (map fst es) \<Longrightarrow> entries_size (AList.delete k es) = entries_size es - size_at k es"
proof (induction es)
  case (Cons x es)
  obtain a e where x: "x = (a, e)" by (cases x)
  show ?case
  proof (cases "a = k")
    case True
    then have "k \<notin> fst ` set es" using Cons.prems x by simp
    then have "AList.delete k es = es" "map_of es k = None" by (auto simp: delete_idem map_of_eq_None_iff)
    with True x show ?thesis by (simp add: size_at_def)
  next
    case False
    with Cons x show ?thesis by (simp add: size_at_def)
  qed
qed (simp add: size_at_def)

lemma entries_size_update:
  "entries_size (AList.update k e es) = entries_size es - size_at k es + entry_size e"
  by (induction es) (auto simp: size_at_def)

lemma length_delete:
  "distinct (map fst es) \<Longrightarrow> length (AList.delete k es) + (if map_of es k = None then 0 else 1) = length es"
proof (induction es)
  case (Cons x es)
  obtain a e where x: "x = (a, e)" by (cases x)
  show ?case
  proof (cases "a = k")
    case True
    then have "k \<notin> fst ` set es" using Cons.prems x by simp
    with True x show ?thesis by (simp add: delete_idem)
  next
    case False
    with Cons x show ?thesis by simp
  qed
qed simp

lemma length_update: "length (AList.update k e es) = length es + (if map_of es k = None then 1 else 0)"
  by (induction es) auto

lemma set_update: "set (AList.update k e es) \<subseteq> insert (k, e) (set es)"
  by (induction es) auto

lemma set_delete: "set (AList.delete k es) \<subseteq> set es"
  by (auto simp: AList.delete_eq)

lemma remove_entry_ok: "shard_ok sh \<Longrightarrow> shard_ok (remove_entry k sh)"
  by (simp add: shard_ok_def remove_entry_def entries_size_delete distinct_delete size_at_def)

lemma put_entry_ok: "shard_ok sh \<Longrightarrow> shard_ok (put_entry k e sh)"
  by (simp add: shard_ok_def put_entry_def entries_size_update distinct_update size_at_def)

lemma entries_size_nonneg: "0 \<le> entries_size es"
  by (induction es) (auto simp: entry_size_def)

lemma find_victim_Some: "\<exists>(k, e) \<in> set es. ce_lastAccess e < n \<Longrightarrow> find_victim es v n \<noteq> None"
proof (induction es v n rule: find_victim.induct)
  case (2 k e es v n)
  have ne: "find_victim es (Some k) m \<noteq> None" for k m by (induction es "Some k" m arbitrary: k rule: find_victim.induct) auto
  show ?case using 2 ne by (cases "ce_lastAccess e < n") auto
qed simp

lemma find_victim_None_mem: "find_victim es None n = Some k \<Longrightarrow> map_of es k \<noteq> None"
  using find_victim_mem [of es None n k] by (auto simp: map_of_eq_None_iff)

text \<open>What eviction does: it only removes, keeps the accounts, and ends within the budget.\<close>

lemma evict_spec:
  assumes "evict n b sh = (sh', ks)" "shard_ok sh" "\<forall>(k, e) \<in> set (cs_entries sh). ce_lastAccess e < 2 ^ 64 - 1"
  shows "shard_ok sh' \<and> \<not> over_budget n b sh' \<and> set (cs_entries sh') \<subseteq> set (cs_entries sh) \<and>
    length ks + length (cs_entries sh') = length (cs_entries sh)"
  using assms
proof (induction n b sh arbitrary: sh' ks rule: evict.induct)
  case (1 n b sh)
  show ?case
  proof (cases "cs_entries sh \<noteq> [] \<and> over_budget n b sh")
    case False
    then have "sh' = sh" "ks = []" using "1.prems"(1) by (auto simp: evict.simps [of n b sh] split: if_splits)
    with False "1.prems"(2) show ?thesis by (auto simp: over_budget_def shard_ok_def)
  next
    case True
    have "find_victim (cs_entries sh) None (2 ^ 64 - 1) \<noteq> None"
      using True "1.prems"(3) by (intro find_victim_Some) (cases "cs_entries sh", auto)
    then obtain k where k: "find_victim (cs_entries sh) None (2 ^ 64 - 1) = Some k" by blast
    obtain sh2 ks2 where rec: "evict n b (remove_entry k sh) = (sh2, ks2)" by (cases "evict n b (remove_entry k sh)")
    with True k "1.prems"(1) have res: "sh' = sh2" "ks = k # ks2" by (auto simp: evict.simps [of n b sh])
    have sub: "set (cs_entries (remove_entry k sh)) \<subseteq> set (cs_entries sh)"
      by (simp add: remove_entry_def set_delete)
    have "shard_ok sh2 \<and> \<not> over_budget n b sh2 \<and> set (cs_entries sh2) \<subseteq> set (cs_entries (remove_entry k sh)) \<and>
        length ks2 + length (cs_entries sh2) = length (cs_entries (remove_entry k sh))"
      using "1.prems"(2,3) sub by (intro "1.IH" [OF True k rec] remove_entry_ok) auto
    moreover have "Suc (length (cs_entries (remove_entry k sh))) = length (cs_entries sh)"
      using length_delete [of "cs_entries sh" k] "1.prems"(2) find_victim_None_mem [OF k]
      by (auto simp: shard_ok_def remove_entry_def)
    ultimately show ?thesis using res sub by auto
  qed
qed

section \<open>The invariant of the cache\<close>

definition file_ok :: "cache_entry \<Rightarrow> bool" where
  "file_ok e \<longleftrightarrow> length (cf_body (ce_file e)) = cf_size (ce_file e) \<and>
     cf_etag (ce_file e) = makeEtag (cf_size (ce_file e)) (ce_modified e)"

definition cache_ok :: "nat \<Rightarrow> static_cache \<Rightarrow> bool" where
  "cache_ok n c \<longleftrightarrow>
     sc_shards c \<noteq> [] \<and> sc_clock c \<le> n \<and>
     (\<forall>sh \<in> set (sc_shards c). shard_ok sh \<and> \<not> over_budget (shardMaxEntries c) (shardMaxBytes c) sh \<and>
        (\<forall>(k, e) \<in> set (cs_entries sh). ce_lastAccess e \<le> n \<and> file_ok e)) \<and>
     sc_bytes c = sum_list (map cs_bytes (sc_shards c)) \<and>
     sc_entryCount c = sum_list (map (\<lambda>sh. int (length (cs_entries sh))) (sc_shards c))"

lemma sum_list_update_int:
  "i < length xs \<Longrightarrow> sum_list (map f (xs[i := x])) = sum_list (map f xs) - f (xs ! i) + (f x :: int)"
proof (induction xs arbitrary: i)
  case (Cons y ys)
  then show ?case by (cases i) auto
qed simp

lemma shardIndex_less: "sc_shards c \<noteq> [] \<Longrightarrow> shardIndex hash c key < length (sc_shards c)"
  by (simp add: shardIndex_def)

lemma budget_consts [simp]:
  "shardMaxEntries (c\<lparr>sc_hits := h\<rparr>) = shardMaxEntries c" "shardMaxBytes (c\<lparr>sc_hits := h\<rparr>) = shardMaxBytes c"
  "shardMaxEntries (c\<lparr>sc_misses := h\<rparr>) = shardMaxEntries c" "shardMaxBytes (c\<lparr>sc_misses := h\<rparr>) = shardMaxBytes c"
  by (simp_all add: shardMaxEntries_def shardMaxBytes_def)

lemma cache_ok_counters:
  "cache_ok n (c\<lparr>sc_hits := h\<rparr>) = cache_ok n c" "cache_ok n (c\<lparr>sc_misses := h\<rparr>) = cache_ok n c"
  by (simp_all add: cache_ok_def)

lemma cache_ok_mono: "cache_ok n c \<Longrightarrow> n \<le> m \<Longrightarrow> cache_ok m c"
  by (force simp: cache_ok_def)

lemma lookup_ok: "cache_ok n c \<Longrightarrow> cache_lookup hash key now c = (r, c') \<Longrightarrow> cache_ok n c'"
  by (auto simp: cache_lookup_def cache_ok_counters split: if_splits option.splits)

lemma revalidate_cases:
  assumes "cache_revalidate hash key now sz modified c = (r, c')"
  obtains "c' = c" "r = None"
  | e where "map_of (cs_entries (sc_shards c ! shardIndex hash c key)) key = Some e" "r = Some (ce_file e)"
      "c' = (update_shard (shardIndex hash c key)
                (\<lambda>sh. sh\<lparr>cs_entries := AList.update key (e\<lparr>ce_validatedAt := now\<rparr>) (cs_entries sh)\<rparr>) c)
              \<lparr>sc_hits := sc_hits c + 1\<rparr>"
proof (cases "sc_enabled c")
  case False
  with assms that(1) show ?thesis by (simp add: cache_revalidate_def)
next
  case en: True
  show ?thesis
  proof (cases "map_of (cs_entries (sc_shards c ! shardIndex hash c key)) key")
    case None
    with assms en that(1) show ?thesis by (simp add: cache_revalidate_def)
  next
    case (Some e)
    note eq = assms [unfolded cache_revalidate_def Let_def Some option.case] en
    show ?thesis
    proof (cases "modified = ce_modified e \<and> sz = cf_size (ce_file e)")
      case True
      with eq that(2) [OF Some] show ?thesis by simp
    next
      case False
      with eq that(1) show ?thesis by simp
    qed
  qed
qed

lemma revalidate_ok:
  assumes "cache_ok n c" "cache_revalidate hash key now sz modified c = (r, c')"
  shows "cache_ok n c'"
proof -
  let ?i = "shardIndex hash c key" let ?sh = "sc_shards c ! ?i"
  have i: "?i < length (sc_shards c)" using assms(1) by (intro shardIndex_less) (simp add: cache_ok_def)
  then have mem: "?sh \<in> set (sc_shards c)" by simp
  from assms(2) show ?thesis
  proof (cases rule: revalidate_cases)
    case (2 e)
    note e = 2(1) and c' = 2(3)
    define sh where "sh = ?sh\<lparr>cs_entries := AList.update key (e\<lparr>ce_validatedAt := now\<rparr>) (cs_entries ?sh)\<rparr>"
    have ok: "shard_ok ?sh" "\<not> over_budget (shardMaxEntries c) (shardMaxBytes c) ?sh"
      "\<forall>(k, e) \<in> set (cs_entries ?sh). ce_lastAccess e \<le> n \<and> file_ok e"
      using assms(1) mem by (auto simp: cache_ok_def)
    have es: "entry_size (e\<lparr>ce_validatedAt := now\<rparr>) = entry_size e" by (simp add: entry_size_def)
    have "shard_ok sh" using ok(1) e es
      by (simp add: shard_ok_def sh_def distinct_update entries_size_update size_at_def)
    moreover have "length (cs_entries sh) = length (cs_entries ?sh)" "cs_bytes sh = cs_bytes ?sh"
      using e by (simp_all add: sh_def length_update)
    moreover from this ok(2) have "\<not> over_budget (shardMaxEntries c) (shardMaxBytes c) sh" by (simp add: over_budget_def)
    moreover have "\<forall>(k, e) \<in> set (cs_entries sh). ce_lastAccess e \<le> n \<and> file_ok e"
      using ok(3) map_of_SomeD [OF e] set_update [of key "e\<lparr>ce_validatedAt := now\<rparr>" "cs_entries ?sh"]
      by (fastforce simp: sh_def file_ok_def)
    moreover have "sc_shards c' = (sc_shards c)[?i := sh]" by (simp add: c' update_shard_def sh_def)
    moreover have "shardMaxEntries c' = shardMaxEntries c" "shardMaxBytes c' = shardMaxBytes c"
      by (simp_all add: c' update_shard_def shardMaxEntries_def shardMaxBytes_def)
    ultimately show ?thesis
      using assms(1) i by (auto simp: cache_ok_def c' update_shard_def sum_list_update_int dest!: set_update_subset_insert [THEN subsetD])
  qed (use assms(1) in simp)
qed

text \<open>The state of a cache after an insertion, as one equation.\<close>

lemma cache_insert_eq:
  fixes c :: static_cache and hash :: "string \<Rightarrow> nat" and key :: string and cached :: cached_static_file and modified now :: int
  defines "i \<equiv> shardIndex hash c key"
  defines "clock \<equiv> (sc_clock c + 1) mod 2 ^ 64"
  defines "e \<equiv> \<lparr>ce_file = cached, ce_modified = modified, ce_validatedAt = now, ce_lastAccess = clock\<rparr>"
  defines "old \<equiv> map_of (cs_entries (sc_shards c ! i)) key"
  assumes "i < length (sc_shards c)"
    and "evict (shardMaxEntries c) (shardMaxBytes c) (put_entry key e (sc_shards c ! i)) = (sh, ks)"
  shows "cache_insert hash key cached modified now c =
    c\<lparr>sc_shards := (sc_shards c)[i := sh], sc_clock := clock,
      sc_bytes := sc_bytes c - size_at key (cs_entries (sc_shards c ! i)) + int (cf_size cached) -
        (cs_bytes (put_entry key e (sc_shards c ! i)) - cs_bytes sh),
      sc_entryCount := (if old = None then sc_entryCount c + 1 else sc_entryCount c) - int (length ks),
      sc_evictions := sc_evictions c + of_nat (length ks)\<rparr>"
  using assms(5,6)
  unfolding cache_insert_def evictIfNeeded_def Let_def i_def [symmetric] clock_def [symmetric] e_def [symmetric]
    old_def [symmetric]
  by (simp add: update_shard_def size_at_def old_def)

lemma insert_ok:
  assumes ok: "cache_ok n c" and n: "Suc n < 2 ^ 64 - 1"
    and cf: "length (cf_body cached) = cf_size cached" "cf_etag cached = makeEtag (cf_size cached) modified"
  shows "cache_ok (Suc n) (cache_insert hash key cached modified now c)"
proof -
  define i where "i = shardIndex hash c key"
  have clock_le: "sc_clock c \<le> n" using ok by (simp add: cache_ok_def)
  define clock where "clock = (sc_clock c + 1) mod 2 ^ 64"
  have clock: "clock = sc_clock c + 1" "clock \<le> Suc n" "clock < 2 ^ 64 - 1"
    using clock_le n by (simp_all add: clock_def)
  define e where "e = \<lparr>ce_file = cached, ce_modified = modified, ce_validatedAt = now, ce_lastAccess = clock\<rparr>"
  define sh1 where "sh1 = put_entry key e (sc_shards c ! i)"
  obtain sh ks where ev: "evict (shardMaxEntries c) (shardMaxBytes c) sh1 = (sh, ks)"
    by (cases "evict (shardMaxEntries c) (shardMaxBytes c) sh1")
  have i: "i < length (sc_shards c)" unfolding i_def using ok by (intro shardIndex_less) (simp add: cache_ok_def)
  then have mem: "sc_shards c ! i \<in> set (sc_shards c)" by simp
  have sh0: "shard_ok (sc_shards c ! i)" "\<forall>(k, e) \<in> set (cs_entries (sc_shards c ! i)). ce_lastAccess e \<le> n \<and> file_ok e"
    using ok mem by (auto simp: cache_ok_def)
  have ok1: "shard_ok sh1" using sh0(1) by (simp add: sh1_def put_entry_ok)
  have fe: "file_ok e" using cf by (simp add: file_ok_def e_def)
  have ents1: "\<forall>(k, e) \<in> set (cs_entries sh1). ce_lastAccess e \<le> Suc n \<and> file_ok e"
    using set_update [of key e "cs_entries (sc_shards c ! i)"] sh0(2) fe clock(2)
    by (fastforce simp: sh1_def put_entry_def e_def)
  then have acc1: "\<forall>(k, e) \<in> set (cs_entries sh1). ce_lastAccess e < 2 ^ 64 - 1" using n by fastforce
  from evict_spec [OF ev ok1 acc1] have sh: "shard_ok sh" "\<not> over_budget (shardMaxEntries c) (shardMaxBytes c) sh"
    "set (cs_entries sh) \<subseteq> set (cs_entries sh1)" "length ks + length (cs_entries sh) = length (cs_entries sh1)" by auto
  note eq = cache_insert_eq [OF i [unfolded i_def] ev [unfolded sh1_def e_def clock_def i_def],
      folded i_def clock_def, folded e_def, folded sh1_def]
  define c' where "c' = cache_insert hash key cached modified now c"
  have fields: "sc_shards c' = (sc_shards c)[i := sh]" "sc_clock c' = clock"
    "sc_bytes c' = sc_bytes c - size_at key (cs_entries (sc_shards c ! i)) + int (cf_size cached) - (cs_bytes sh1 - cs_bytes sh)"
    "sc_entryCount c' = (if map_of (cs_entries (sc_shards c ! i)) key = None then sc_entryCount c + 1
        else sc_entryCount c) - int (length ks)"
    by (simp_all add: c'_def eq)
  have budget: "shardMaxEntries c' = shardMaxEntries c" "shardMaxBytes c' = shardMaxBytes c"
    by (simp_all add: c'_def eq shardMaxEntries_def shardMaxBytes_def)
  let ?P = "\<lambda>s. shard_ok s \<and> \<not> over_budget (shardMaxEntries c) (shardMaxBytes c) s \<and>
      (\<forall>(k, e) \<in> set (cs_entries s). ce_lastAccess e \<le> Suc n \<and> file_ok e)"
  have "?P sh" using sh ents1 by blast
  moreover have "\<forall>s \<in> set (sc_shards c). ?P s" using ok by (fastforce simp: cache_ok_def)
  ultimately have shards: "\<forall>s \<in> set (sc_shards c'). ?P s"
    using set_update_subset_insert [of "sc_shards c" i sh] unfolding fields by blast
  have bytes1: "cs_bytes sh1 = cs_bytes (sc_shards c ! i) - size_at key (cs_entries (sc_shards c ! i)) + int (cf_size cached)"
    by (simp add: sh1_def put_entry_def size_at_def entry_size_def e_def)
  have len1: "int (length ks) + int (length (cs_entries sh)) = int (length (cs_entries (sc_shards c ! i))) +
      (if map_of (cs_entries (sc_shards c ! i)) key = None then 1 else 0)"
    using sh(4) by (simp add: sh1_def put_entry_def length_update flip: of_nat_add)
  have "sc_bytes c' = sum_list (map cs_bytes (sc_shards c'))"
    using ok bytes1 by (simp add: fields sum_list_update_int [OF i] cache_ok_def)
  moreover have "sc_entryCount c' = sum_list (map (\<lambda>sh. int (length (cs_entries sh))) (sc_shards c'))"
    using ok len1 by (simp add: fields sum_list_update_int [OF i] cache_ok_def split: if_split_asm)
  moreover have "sc_shards c' \<noteq> []" "sc_clock c' \<le> Suc n" using i clock by (auto simp: fields)
  ultimately show ?thesis using shards unfolding cache_ok_def budget c'_def [symmetric] by blast
qed

lemma load_ok:
  assumes "cache_ok n c" "Suc n < 2 ^ 64 - 1" "cache_load hash fs path now sz c = (r, c')"
  shows "cache_ok (Suc n) c'"
proof -
  let ?c1 = "c\<lparr>sc_misses := sc_misses c + 1\<rparr>"
  have c1: "cache_ok n ?c1" using assms(1) by (simp add: cache_ok_counters)
  consider "c' = ?c1" | body where "read_bytes fs path sz = Some body"
      "c' = cache_insert hash path \<lparr>cf_body = body, cf_etag = makeEtag sz (modified_time fs path), cf_size = sz\<rparr>
        (modified_time fs path) now ?c1"
    using assms(3) by (auto simp: cache_load_def Let_def split: option.splits if_splits)
  then show ?thesis
  proof cases
    case 1
    with c1 show ?thesis by (auto intro: cache_ok_mono)
  next
    case 2
    have "length body = sz" using 2(1) by (auto simp: read_bytes_def split: option.splits if_splits)
    then show ?thesis unfolding 2(2) by (intro insert_ok [OF c1 assms(2)]) simp_all
  qed
qed

text \<open>
  Any number of threads run \<open>get\<close>; the phases of different calls interleave in any order, each
  with the clock and the file system of its moment. The second argument counts the phases.
\<close>

inductive cache_run :: "(string \<Rightarrow> nat) \<Rightarrow> nat \<Rightarrow> static_cache \<Rightarrow> bool" for hash where
  new: "cache_run hash 0 (make_cache en shards maxE maxB maxF ms)"
| lookup: "cache_run hash n c \<Longrightarrow> cache_lookup hash key now c = (r, c') \<Longrightarrow> cache_run hash (Suc n) c'"
| revalidate: "cache_run hash n c \<Longrightarrow> cache_revalidate hash key now sz modified c = (r, c') \<Longrightarrow> cache_run hash (Suc n) c'"
| load: "cache_run hash n c \<Longrightarrow> cache_load hash fs path now sz c = (r, c') \<Longrightarrow> cache_run hash (Suc n) c'"

lemma make_cache_ok: "cache_ok 0 (make_cache en shards maxE maxB maxF ms)"
  by (simp add: cache_ok_def make_cache_def shard_ok_def over_budget_def sum_list_replicate)

lemma cache_run_ok: "cache_run hash n c \<Longrightarrow> n < 2 ^ 64 - 1 \<Longrightarrow> cache_ok n c"
proof (induction rule: cache_run.induct)
  case (new en shards maxE maxB maxF ms)
  show ?case by (rule make_cache_ok)
next
  case (lookup n c key now r c')
  then have "cache_ok n c" by simp
  from lookup_ok [OF this lookup.hyps(2)] show ?case by (rule cache_ok_mono) simp
next
  case (revalidate n c key now sz modified r c')
  then have "cache_ok n c" by simp
  from revalidate_ok [OF this revalidate.hyps(2)] show ?case by (rule cache_ok_mono) simp
next
  case (load n c fs path now sz r c')
  then have "cache_ok n c" by simp
  from load_ok [OF this load.prems load.hyps(2)] show ?case .
qed

text \<open>
  C12: whatever the threads do, each shard stays within its share of the budget, the byte and
  entry counters are exact, keys are unique, and every cached file carries its own size and the
  ETag of its size and time.
\<close>

theorem cache_invariant:
  assumes "cache_run hash n c" "n < 2 ^ 64 - 1"
  shows "(\<forall>sh \<in> set (sc_shards c). length (cs_entries sh) \<le> shardMaxEntries c \<and> cs_bytes sh \<le> int (shardMaxBytes c) \<and>
      distinct (map fst (cs_entries sh)) \<and> cs_bytes sh = entries_size (cs_entries sh) \<and>
      (\<forall>(k, e) \<in> set (cs_entries sh). file_ok e)) \<and>
    sc_bytes c = sum_list (map cs_bytes (sc_shards c)) \<and>
    sc_entryCount c = sum_list (map (\<lambda>sh. int (length (cs_entries sh))) (sc_shards c))"
  using cache_run_ok [OF assms] by (fastforce simp: cache_ok_def shard_ok_def over_budget_def)

section \<open>The cache is not visible\<close>

text \<open>What \<open>get\<close> would return without a cache.\<close>

definition direct_read :: "file_system \<Rightarrow> string \<Rightarrow> cached_static_file option" where
  "direct_read fs path =
     (case fs_size fs path of
        None \<Rightarrow> None
      | Some sz \<Rightarrow>
          (case read_bytes fs path sz of
             None \<Rightarrow> None
           | Some body \<Rightarrow> Some \<lparr>cf_body = body, cf_etag = makeEtag sz (modified_time fs path), cf_size = sz\<rparr>))"

definition cache_current :: "file_system \<Rightarrow> static_cache \<Rightarrow> bool" where
  "cache_current fs c \<longleftrightarrow> sc_shards c \<noteq> [] \<and>
     (\<forall>sh \<in> set (sc_shards c). \<forall>(k, e) \<in> set (cs_entries sh). direct_read fs k = Some (ce_file e))"

lemma current_entry:
  "cache_current fs c \<Longrightarrow> map_of (cs_entries (sc_shards c ! shardIndex hash c key)) key = Some e \<Longrightarrow>
    direct_read fs key = Some (ce_file e)"
  using shardIndex_less [of c hash key] by (fastforce simp: cache_current_def dest: map_of_SomeD)

lemma evict_subset: "evict n b sh = (sh', ks) \<Longrightarrow> set (cs_entries sh') \<subseteq> set (cs_entries sh)"
proof (induction n b sh arbitrary: sh' ks rule: evict.induct)
  case (1 n b sh)
  show ?case
  proof (cases "(cs_entries sh \<noteq> [] \<and> over_budget n b sh) \<and> find_victim (cs_entries sh) None (2 ^ 64 - 1) \<noteq> None")
    case False
    with "1.prems" show ?thesis by (auto simp: evict.simps [of n b sh] split: if_splits)
  next
    case True
    then obtain k where k: "find_victim (cs_entries sh) None (2 ^ 64 - 1) = Some k" by blast
    obtain sh2 ks2 where rec: "evict n b (remove_entry k sh) = (sh2, ks2)" by (cases "evict n b (remove_entry k sh)")
    with True k "1.prems" have "sh' = sh2" by (auto simp: evict.simps [of n b sh])
    with "1.IH" [OF _ k rec] True set_delete [of k "cs_entries sh"] show ?thesis by (auto simp: remove_entry_def)
  qed
qed

lemma current_update:
  assumes "cache_current fs c" "\<forall>(k, e) \<in> set (cs_entries sh). direct_read fs k = Some (ce_file e)"
    and "sc_shards c' = (sc_shards c)[i := sh]"
  shows "cache_current fs c'"
  using assms set_update_subset_insert [of "sc_shards c" i sh] by (fastforce simp: cache_current_def)

lemma insert_current:
  assumes "cache_current fs c" "direct_read fs key = Some cached"
  shows "cache_current fs (cache_insert hash key cached modified now c)"
proof -
  define i where "i = shardIndex hash c key"
  have i: "i < length (sc_shards c)" unfolding i_def using assms(1) by (intro shardIndex_less) (simp add: cache_current_def)
  let ?e = "\<lparr>ce_file = cached, ce_modified = modified, ce_validatedAt = now, ce_lastAccess = (sc_clock c + 1) mod 2 ^ 64\<rparr>"
  obtain sh ks where ev: "evict (shardMaxEntries c) (shardMaxBytes c) (put_entry key ?e (sc_shards c ! i)) = (sh, ks)"
    by (cases "evict (shardMaxEntries c) (shardMaxBytes c) (put_entry key ?e (sc_shards c ! i))")
  have "\<forall>(k, e) \<in> set (cs_entries (sc_shards c ! i)). direct_read fs k = Some (ce_file e)"
    using assms(1) nth_mem [OF i] unfolding cache_current_def by blast
  then have "\<forall>(k, e) \<in> set (cs_entries sh). direct_read fs k = Some (ce_file e)"
    using evict_subset [OF ev] set_update [of key ?e "cs_entries (sc_shards c ! i)"] assms(2)
    by (fastforce simp: put_entry_def)
  then show ?thesis
    by (rule current_update [OF assms(1), of _ _ i])
      (simp add: cache_insert_eq [OF i [unfolded i_def] ev [unfolded i_def]] i_def)
qed

lemma current_counters: "cache_current fs (c\<lparr>sc_hits := h\<rparr>) = cache_current fs c"
  "cache_current fs (c\<lparr>sc_misses := h\<rparr>) = cache_current fs c"
  by (simp_all add: cache_current_def)

lemma revalidate_current:
  assumes "cache_current fs c" "cache_revalidate hash path now sz modified c = (r, c')"
  shows "cache_current fs c' \<and> (r = None \<or> r = direct_read fs path)"
proof -
  let ?i = "shardIndex hash c path"
  have i: "?i < length (sc_shards c)" using assms(1) by (intro shardIndex_less) (simp add: cache_current_def)
  from assms(2) show ?thesis
  proof (cases rule: revalidate_cases)
    case (2 e)
    note e = 2(1) and r = 2(2) and c' = 2(3)
    have d: "direct_read fs path = Some (ce_file e)" by (rule current_entry [OF assms(1) e])
    have "\<forall>(k, e) \<in> set (cs_entries (sc_shards c ! ?i)). direct_read fs k = Some (ce_file e)"
      using assms(1) nth_mem [OF i] unfolding cache_current_def by blast
    then have "\<forall>(k, x) \<in> set (AList.update path (e\<lparr>ce_validatedAt := now\<rparr>) (cs_entries (sc_shards c ! ?i))).
        direct_read fs k = Some (ce_file x)"
      using set_update [of path "e\<lparr>ce_validatedAt := now\<rparr>" "cs_entries (sc_shards c ! ?i)"] d by fastforce
    then have "cache_current fs c'"
      by (intro current_update [OF assms(1), where i = ?i and
            sh = "(sc_shards c ! ?i)\<lparr>cs_entries := AList.update path (e\<lparr>ce_validatedAt := now\<rparr>) (cs_entries (sc_shards c ! ?i))\<rparr>"])
        (simp_all add: c' update_shard_def)
    with r d show ?thesis by simp
  qed (use assms(1) in simp)
qed

lemma get_current:
  assumes "cache_current fs c" "cache_get hash fs path now c = (r, c')"
  shows "r = direct_read fs path \<and> cache_current fs c'"
proof -
  obtain r1 c1 where l: "cache_lookup hash path now c = (r1, c1)" by (cases "cache_lookup hash path now c")
  have c1: "cache_current fs c1" "r1 = None \<or> r1 = direct_read fs path"
    using l assms(1) current_entry [OF assms(1), of hash path]
    by (auto simp: cache_lookup_def current_counters split: if_splits option.splits)
  show ?thesis
  proof (cases r1)
    case (Some f)
    with l assms(2) c1 show ?thesis by (auto simp: cache_get_def)
  next
    case r1: None
    show ?thesis
    proof (cases "fs_size fs path")
      case None
      with l r1 assms(2) c1 show ?thesis by (auto simp: cache_get_def direct_read_def)
    next
      case (Some sz)
      obtain r2 c2 where v: "cache_revalidate hash path now sz (modified_time fs path) c1 = (r2, c2)"
        by (cases "cache_revalidate hash path now sz (modified_time fs path) c1")
      have c2: "cache_current fs c2" "r2 = None \<or> r2 = direct_read fs path" using revalidate_current [OF c1(1) v] by auto
      show ?thesis
      proof (cases r2)
        case (Some f)
        with l r1 \<open>fs_size fs path = Some sz\<close> v assms(2) c2 show ?thesis by (auto simp: cache_get_def)
      next
        case r2: None
        then have load: "cache_load hash fs path now sz c2 = (r, c')"
          using l r1 \<open>fs_size fs path = Some sz\<close> v assms(2) by (simp add: cache_get_def)
        show ?thesis
        proof (cases "read_bytes fs path sz")
          case None
          with load Some c2 show ?thesis by (auto simp: cache_load_def direct_read_def Let_def current_counters)
        next
          case (Some body)
          let ?f = "\<lparr>cf_body = body, cf_etag = makeEtag sz (modified_time fs path), cf_size = sz\<rparr>"
          have d: "direct_read fs path = Some ?f" using Some \<open>fs_size fs path = Some sz\<close> by (simp add: direct_read_def)
          have "cache_current fs (c2\<lparr>sc_misses := sc_misses c2 + 1\<rparr>)" using c2 by (simp add: current_counters)
          from insert_current [OF this d] this load Some d show ?thesis
            by (auto simp: cache_load_def Let_def split: if_splits)
        qed
      qed
    qed
  qed
qed

fun run_gets :: "(string \<Rightarrow> nat) \<Rightarrow> file_system \<Rightarrow> (string \<times> int) list \<Rightarrow> static_cache \<Rightarrow> cached_static_file option list" where
  "run_gets hash fs [] c = []"
| "run_gets hash fs ((path, now) # gets) c =
     (case cache_get hash fs path now c of (r, c') \<Rightarrow> r # run_gets hash fs gets c')"

lemma run_gets_current: "cache_current fs c \<Longrightarrow> run_gets hash fs gets c = map (\<lambda>(path, now). direct_read fs path) gets"
  by (induction hash fs gets c rule: run_gets.induct) (auto split: prod.splits dest: get_current)

text \<open>
  C22: as long as the files do not change, a cache of any configuration answers any sequence of
  requests exactly as reading the files would: hits, revalidations, evictions and files too large
  to be cached make no difference.
\<close>

theorem cache_transparent:
  "run_gets hash fs gets (make_cache en shards maxE maxB maxF ms) = map (\<lambda>(path, now). direct_read fs path) gets"
  by (rule run_gets_current) (simp add: cache_current_def make_cache_def)

section \<open>ETags\<close>

lemma hex_no_dash: "CHR ''-'' \<notin> set (to_hex n)"
proof
  assume "CHR ''-'' \<in> set (to_hex n)"
  then have "isxdigit CHR ''-''" by (blast dest: to_hex_chars)
  then show False by (simp add: ctype_defs uc_def)
qed

lemma append_dash_inject:
  "CHR ''-'' \<notin> set a \<Longrightarrow> CHR ''-'' \<notin> set c \<Longrightarrow> a @ CHR ''-'' # b = c @ CHR ''-'' # d \<Longrightarrow> a = c \<and> b = d"
proof -
  assume *: "CHR ''-'' \<notin> set a" "CHR ''-'' \<notin> set c" "a @ CHR ''-'' # b = c @ CHR ''-'' # d"
  have "a = takeWhile (\<lambda>x. x \<noteq> CHR ''-'') (a @ CHR ''-'' # b)" using *(1) by (rule takeWhile_neq [symmetric])
  also have "\<dots> = c" using *(2) unfolding *(3) by (rule takeWhile_neq)
  finally show ?thesis using *(3) by simp
qed

text \<open>
  Two versions of a file have the same ETag only if they agree in size and in the time of the
  last change (a 64-bit tick count), so a 304 answer is never given for a file that changed in
  either.
\<close>

theorem makeEtag_inject:
  assumes "- (2 ^ 63) \<le> m" "m < 2 ^ 63" "- (2 ^ 63) \<le> m'" "m' < 2 ^ 63"
  shows "makeEtag s m = makeEtag s' m' \<longleftrightarrow> s = s' \<and> m = m'"
proof
  assume "makeEtag s m = makeEtag s' m'"
  then have "to_hex s @ CHR ''-'' # to_hex (nat (m mod 2 ^ 64)) @ [DQUOTE] =
      to_hex s' @ CHR ''-'' # to_hex (nat (m' mod 2 ^ 64)) @ [DQUOTE]"
    by (simp add: makeEtag_def)
  from append_dash_inject [OF hex_no_dash hex_no_dash this]
  have s: "s = s'" and "nat (m mod 2 ^ 64) = nat (m' mod 2 ^ 64)" by auto
  then have "m mod 2 ^ 64 = m' mod 2 ^ 64" by (simp add: nat_eq_iff)
  then have "(m + 2 ^ 63) mod 2 ^ 64 = (m' + 2 ^ 63) mod 2 ^ 64" by (rule mod_add_cong) simp
  then have "m + 2 ^ 63 = m' + 2 ^ 63" using assms by (simp add: mod_pos_pos_trivial)
  with s show "s = s' \<and> m = m'" by simp
qed simp

section \<open>A file larger than its shard\<close>

text \<open>
  A file may be within the limits of the cache and yet larger than the share of its shard. It is
  inserted all the same, and the eviction then removes every entry of the shard, the oldest
  first, and the file itself at last.
\<close>

lemma find_victim_least:
  assumes "find_victim es v n = Some k"
  shows "(v = Some k \<and> (\<forall>(k', e') \<in> set es. n \<le> ce_lastAccess e')) \<or>
    (\<exists>e. (k, e) \<in> set es \<and> ce_lastAccess e < n \<and> (\<forall>(k', e') \<in> set es. ce_lastAccess e \<le> ce_lastAccess e'))"
  using assms
proof (induction es v n rule: find_victim.induct)
  case (2 k' e' es v n)
  show ?case
  proof (cases "ce_lastAccess e' < n")
    case True
    with "2.prems" have "find_victim es (Some k') (ce_lastAccess e') = Some k" by simp
    from "2.IH"(1) [OF True this] show ?thesis
    proof (elim disjE exE conjE)
      assume "Some k' = Some k" "\<forall>(k'', e'') \<in> set es. ce_lastAccess e' \<le> ce_lastAccess e''"
      with True show ?thesis by (intro disjI2 exI [of _ e']) simp
    next
      fix e assume "(k, e) \<in> set es" "ce_lastAccess e < ce_lastAccess e'"
        "\<forall>(k', e') \<in> set es. ce_lastAccess e \<le> ce_lastAccess e'"
      with True show ?thesis by (intro disjI2 exI [of _ e]) simp
    qed
  next
    case False
    with "2.prems" have "find_victim es v n = Some k" by simp
    from "2.IH"(2) [OF False this] show ?thesis
    proof (elim disjE exE conjE)
      assume "v = Some k" "\<forall>(k', e') \<in> set es. n \<le> ce_lastAccess e'"
      with False show ?thesis by simp
    next
      fix e assume "(k, e) \<in> set es" "ce_lastAccess e < n" "\<forall>(k', e') \<in> set es. ce_lastAccess e \<le> ce_lastAccess e'"
      with False show ?thesis by (intro disjI2 exI [of _ e]) simp
    qed
  qed
qed auto

lemma evict_oversized:
  assumes "evict n b sh = (sh', ks)" "shard_ok sh" "(k0, e0) \<in> set (cs_entries sh)" "int b < entry_size e0"
    and "\<forall>(k, e) \<in> set (cs_entries sh). ce_lastAccess e < 2 ^ 64 - 1"
    and "\<forall>(k, e) \<in> set (cs_entries sh). k \<noteq> k0 \<longrightarrow> ce_lastAccess e < ce_lastAccess e0"
  shows "cs_entries sh' = []"
  using assms
proof (induction n b sh arbitrary: sh' ks rule: evict.induct)
  case (1 n b sh)
  have d: "distinct (map fst (cs_entries sh))" and bytes: "cs_bytes sh = entries_size (cs_entries sh)"
    using "1.prems"(2) by (auto simp: shard_ok_def)
  have e0: "map_of (cs_entries sh) k0 = Some e0" using d "1.prems"(3) by simp
  have "entries_size (AList.delete k0 (cs_entries sh)) = cs_bytes sh - entry_size e0"
    using entries_size_delete [OF d, of k0] e0 bytes by (simp add: size_at_def)
  then have over: "over_budget n b sh"
    using entries_size_nonneg [of "AList.delete k0 (cs_entries sh)"] "1.prems"(4) by (simp add: over_budget_def)
  then have go: "cs_entries sh \<noteq> [] \<and> over_budget n b sh" using "1.prems"(3) by auto
  have "find_victim (cs_entries sh) None (2 ^ 64 - 1) \<noteq> None"
    using go "1.prems"(5) by (intro find_victim_Some) (cases "cs_entries sh", auto)
  then obtain k where k: "find_victim (cs_entries sh) None (2 ^ 64 - 1) = Some k" by blast
  obtain sh2 ks2 where rec: "evict n b (remove_entry k sh) = (sh2, ks2)" by (cases "evict n b (remove_entry k sh)")
  with go k "1.prems"(1) have res: "sh' = sh2" by (auto simp: evict.simps [of n b sh])
  from find_victim_least [OF k] obtain e where e: "(k, e) \<in> set (cs_entries sh)"
    "\<forall>(k', e') \<in> set (cs_entries sh). ce_lastAccess e \<le> ce_lastAccess e'" by auto
  have sub: "set (cs_entries (remove_entry k sh)) \<subseteq> set (cs_entries sh)" by (simp add: remove_entry_def set_delete)
  show ?case
  proof (cases "k = k0")
    case True
    with e(1) e0 d have "e = e0" by (metis map_of_is_SomeI option.inject)
    have "k' = k0" if "(k', e') \<in> set (cs_entries sh)" for k' e'
      using that e(2) "1.prems"(6) \<open>e = e0\<close> by fastforce
    then have "cs_entries (remove_entry k sh) = []"
      using True by (auto simp: remove_entry_def AList.delete_eq filter_empty_conv)
    then have "sh2 = remove_entry k sh" using rec by (simp add: evict.simps [of n b "remove_entry k sh"])
    with res \<open>cs_entries (remove_entry k sh) = []\<close> show ?thesis by simp
  next
    case False
    then have "(k0, e0) \<in> set (cs_entries (remove_entry k sh))"
      using "1.prems"(3) by (auto simp: remove_entry_def AList.delete_eq)
    then have "cs_entries sh2 = []"
      using "1.prems"(4-6) sub by (intro "1.IH" [OF go k rec remove_entry_ok [OF "1.prems"(2)]]) auto
    with res show ?thesis by simp
  qed
qed

theorem oversized_clears_shard:
  assumes "cache_ok n c" "Suc n < 2 ^ 64 - 1" "sc_clock c = n" "shardMaxBytes c < cf_size cached"
  shows "cs_entries (sc_shards (cache_insert hash key cached modified now c) ! shardIndex hash c key) = []"
proof -
  define i where "i = shardIndex hash c key"
  have i: "i < length (sc_shards c)" unfolding i_def using assms(1) by (intro shardIndex_less) (simp add: cache_ok_def)
  define e where "e = \<lparr>ce_file = cached, ce_modified = modified, ce_validatedAt = now,
      ce_lastAccess = (sc_clock c + 1) mod 2 ^ 64\<rparr>"
  obtain sh ks where ev: "evict (shardMaxEntries c) (shardMaxBytes c) (put_entry key e (sc_shards c ! i)) = (sh, ks)"
    by (cases "evict (shardMaxEntries c) (shardMaxBytes c) (put_entry key e (sc_shards c ! i))")
  have sh0: "shard_ok (sc_shards c ! i)" "\<forall>(k, e) \<in> set (cs_entries (sc_shards c ! i)). ce_lastAccess e \<le> n"
    using assms(1) nth_mem [OF i] unfolding cache_ok_def by blast+
  have clock: "ce_lastAccess e = Suc n" using assms(2,3) by (simp add: e_def)
  have new: "map_of (cs_entries (put_entry key e (sc_shards c ! i))) key = Some e" by (simp add: put_entry_def update_conv)
  have others: "ce_lastAccess e' \<le> n" if "(k', e') \<in> set (cs_entries (put_entry key e (sc_shards c ! i)))" "k' \<noteq> key" for k' e'
  proof -
    have "(k', e') \<in> set (cs_entries (sc_shards c ! i))"
      using that set_update [of key e "cs_entries (sc_shards c ! i)"] by (auto simp: put_entry_def)
    then show ?thesis using sh0(2) by auto
  qed
  have ok: "shard_ok (put_entry key e (sc_shards c ! i))" using sh0(1) by (rule put_entry_ok)
  then have only: "e' = e" if "(key, e') \<in> set (cs_entries (put_entry key e (sc_shards c ! i)))" for e'
    using that new by (auto simp: shard_ok_def)
  have "cs_entries sh = []"
  proof (rule evict_oversized [OF ev ok map_of_SomeD [OF new]])
    show "int (shardMaxBytes c) < entry_size e" using assms(4) by (simp add: entry_size_def e_def)
    show "\<forall>(k, x) \<in> set (cs_entries (put_entry key e (sc_shards c ! i))). ce_lastAccess x < 2 ^ 64 - 1"
      using others only clock assms(2) by fastforce
    show "\<forall>(k, x) \<in> set (cs_entries (put_entry key e (sc_shards c ! i))). k \<noteq> key \<longrightarrow> ce_lastAccess x < ce_lastAccess e"
      using others clock by fastforce
  qed
  then show ?thesis
    using i by (simp add: cache_insert_eq [OF i [unfolded i_def] ev [unfolded e_def i_def]] i_def)
qed

section \<open>The theorems at a concrete cache\<close>

definition cache_fs :: file_system where
  "cache_fs = example_fs_base\<lparr>fs_size := (\<lambda>p. Some 5), fs_mtime := (\<lambda>p. Some 7),
     fs_content := (\<lambda>p. if p = ''/c'' then None else Some ''hello'')\<rparr>"

definition example_cache :: static_cache where
  "example_cache = snd (cache_load length cache_fs ''/a'' 3 5 (make_cache True 2 4 100 50 1000))"

lemma example_cache_run: "cache_run length (Suc 0) example_cache"
  by (rule cache_run.load [OF cache_run.new, where r = "fst (cache_load length cache_fs ''/a'' 3 5 (make_cache True 2 4 100 50 1000))"])
    (simp add: example_cache_def)

theorem cache_invariant_witness: "sc_bytes example_cache = 5 \<and> sc_bytes example_cache = sum_list (map cs_bytes (sc_shards example_cache))"
proof
  show "sc_bytes example_cache = 5" by code_simp
  show "sc_bytes example_cache = sum_list (map cs_bytes (sc_shards example_cache))"
    using cache_invariant [OF example_cache_run] by simp
qed

theorem makeEtag_inject_witness: "makeEtag 5 (-1) \<noteq> makeEtag 5 1"
  using makeEtag_inject [of "-1" 1 5 5] by simp

end
