(* ===== verification/Multipart.thy ===== *)
theory Multipart
  imports Paths Numbers
begin

text \<open>
  \<open>src/src/Multipart.cpp\<close> and \<open>.hpp\<close>: multipart form data, once from a body in memory and
  once from the spool file of a streamed upload. The file system is what was written so far, a
  map from paths to contents; which calls fail and what the clock says is given by the
  environment. A thrown exception is the left part of a result.
\<close>

section \<open>Data\<close>

record multipart_limits =
  ml_maxParts :: nat
  ml_maxFileBytes :: nat
  ml_maxFieldBytes :: nat

definition default_multipart_limits :: multipart_limits where
  "default_multipart_limits = \<lparr>ml_maxParts = 16, ml_maxFileBytes = 1024 * 1024, ml_maxFieldBytes = 16 * 1024\<rparr>"

record saved_file =
  sf_fieldName :: string
  sf_originalFilename :: string
  sf_storedFilename :: string
  sf_storedPath :: string
  sf_size :: nat

record multipart_result =
  mr_ok :: bool
  mr_status :: int
  mr_error :: string
  mr_files :: "saved_file list"

record upload_env =
  ue_mkdir :: "string \<Rightarrow> bool"
  ue_creatable :: "string \<Rightarrow> bool"
  ue_clock :: "nat \<Rightarrow> int"

text \<open>What was written, and how often the clock was read.\<close>

record upload_state =
  us_store :: "string \<rightharpoonup> string"
  us_ticks :: nat

definition upload_failed :: "int \<Rightarrow> string \<Rightarrow> saved_file list \<Rightarrow> multipart_result" where
  "upload_failed status error files = \<lparr>mr_ok = False, mr_status = status, mr_error = error, mr_files = files\<rparr>"

definition upload_ok :: "saved_file list \<Rightarrow> multipart_result" where
  "upload_ok files = \<lparr>mr_ok = True, mr_status = 200, mr_error = [], mr_files = files\<rparr>"

section \<open>Names, headers and boundaries\<close>

definition basenameOnly :: "string \<Rightarrow> string" where
  "basenameOnly s = rev (takeWhile (\<lambda>c. c \<noteq> CHR ''/'' \<and> c \<noteq> BACKSLASH) (rev s))"

definition validBoundaryChar :: "char \<Rightarrow> bool" where
  "validBoundaryChar c \<longleftrightarrow> isalnum c \<or> c \<in> set ([CHR 0x27] @ ''()+_,-./:=?'')"

definition strip_blanks :: "string \<Rightarrow> string" where
  "strip_blanks v = strip (\<lambda>c. c = SP \<or> c = TAB) v"

text \<open>One header line, and the loop over the lines that end with \<open>"\r\n"\<close> or with the text.\<close>

definition add_part_header :: "string \<Rightarrow> (string \<rightharpoonup> string) \<Rightarrow> (string \<rightharpoonup> string)" where
  "add_part_header line headers =
     (case find_char line CHR '':'' of
        None \<Rightarrow> headers
      | Some colon \<Rightarrow>
          headers(lowercase (strip_back isspace (substr line 0 colon)) \<mapsto> strip_blanks (drop (colon + 1) line)))"

function part_headers_from :: "string \<Rightarrow> nat \<Rightarrow> (string \<rightharpoonup> string) \<Rightarrow> (string \<rightharpoonup> string)" where
  "part_headers_from raw start headers =
     (if start < length raw then
        (case find_from raw crlf start of
           None \<Rightarrow> add_part_header (drop start raw) headers
         | Some e \<Rightarrow>
             let headers' = add_part_header (substr raw start (e - start)) headers
             in if e = length raw then headers' else part_headers_from raw (e + 2) headers')
      else headers)"
  by pat_completeness auto
termination
  by (relation "measure (\<lambda>(raw, start, h). length raw - start)") (auto dest!: find_from_Some(1))

declare part_headers_from.simps [simp del]

definition parsePartHeaders :: "string \<Rightarrow> (string \<rightharpoonup> string)" where
  "parsePartHeaders raw = part_headers_from raw 0 Map.empty"

definition dispositionValue :: "string \<Rightarrow> string \<Rightarrow> string" where
  "dispositionValue disposition key =
     (case find_str disposition (key @ ''='' @ [DQUOTE]) of
        Some p \<Rightarrow>
          let pos = p + length (key @ ''='' @ [DQUOTE])
          in (case find_from disposition [DQUOTE] pos of
                None \<Rightarrow> []
              | Some e \<Rightarrow> substr disposition pos (e - pos))
      | None \<Rightarrow>
          (case find_str disposition (key @ ''='') of
             Some p \<Rightarrow>
               let pos = p + length (key @ ''='')
               in (case find_from disposition '';'' pos of
                     None \<Rightarrow> drop pos disposition
                   | Some e \<Rightarrow> substr disposition pos (e - pos))
           | None \<Rightarrow> []))"

definition multipart_trim :: "string \<Rightarrow> string" where
  "multipart_trim v = strip isspace v"

definition extractBoundary :: "string \<Rightarrow> string option" where
  "extractBoundary contentType =
     (let low = lowercase contentType
      in if \<not> contains_str low ''multipart/form-data'' then None
         else (case find_str low ''boundary='' of
                 None \<Rightarrow> None
               | Some p \<Rightarrow>
                   let b0 = drop (p + 9) contentType;
                       b1 = (case find_char b0 CHR '';'' of None \<Rightarrow> b0 | Some semi \<Rightarrow> substr b0 0 semi)
                   in if find_char b1 CR \<noteq> None \<or> find_char b1 LF \<noteq> None then None
                      else
                        let b2 = multipart_trim b1;
                            b3 = (if 2 \<le> length b2 \<and> hd b2 = DQUOTE \<and> last b2 = DQUOTE
                                  then substr b2 1 (length b2 - 2) else b2)
                        in if b3 = [] \<or> 70 < length b3 then None
                           else if \<not> list_all validBoundaryChar b3 then None
                           else Some b3))"

definition filename_char :: "char \<Rightarrow> bool" where
  "filename_char c \<longleftrightarrow> isalnum c \<or> c = CHR ''.'' \<or> c = CHR ''_'' \<or> c = CHR ''-''"

definition sanitizeFilename :: "string \<Rightarrow> string" where
  "sanitizeFilename input =
     (let name = basenameOnly input;
          out1 = map (\<lambda>c. if filename_char c then c else CHR ''_'') name;
          out2 = strip (\<lambda>c. c = CHR ''.'' \<or> c = SP) out1;
          out3 = (if out2 = [] then ''upload.bin'' else out2);
          out4 = (if 96 < length out3 then drop (length out3 - 96) out3 else out3)
      in if out4 \<noteq> [] \<and> hd out4 = CHR ''.'' then ''upload_'' @ out4 else out4)"

definition blockedExt :: "string list" where
  "blockedExt =
     [''.php'', ''.phtml'', ''.php3'', ''.php4'', ''.php5'', ''.phar'', ''.cgi'', ''.pl'', ''.py'', ''.rb'', ''.lua'',
      ''.sh'', ''.bash'', ''.zsh'', ''.fish'', ''.bat'', ''.cmd'', ''.ps1'', ''.vbs'', ''.exe'', ''.dll'', ''.so'',
      ''.dylib'', ''.htaccess'', ''.conf'', ''.ini'', ''.db'', ''.sqlite'', ''.sqlite3'', ''.key'', ''.pem'', ''.crt'',
      ''.csr'', ''.log'']"

definition isSafeUploadFilename :: "string \<Rightarrow> bool" where
  "isSafeUploadFilename filename =
     (let low = lowercase (sanitizeFilename filename)
      in if low = [] then False
         else if low = ''.htaccess'' \<or> low = ''server.conf'' \<or> low = ''server.production.conf'' then False
         else path_extension low \<notin> set blockedExt)"

section \<open>Storing a file\<close>

text \<open>\<open>uniquePrefix() + "_" + clean\<close>: the clock in microseconds.\<close>

definition stored_name :: "upload_env \<Rightarrow> string \<Rightarrow> upload_state \<Rightarrow> string" where
  "stored_name env clean st = to_string_int (ue_clock env (us_ticks st)) @ ''_'' @ clean"

definition tick :: "upload_state \<Rightarrow> upload_state" where
  "tick st = st\<lparr>us_ticks := us_ticks st + 1\<rparr>"

definition write_file :: "string \<Rightarrow> string \<Rightarrow> upload_state \<Rightarrow> upload_state" where
  "write_file path content st = st\<lparr>us_store := (us_store st)(path \<mapsto> content)\<rparr>"

section \<open>A body in memory\<close>

text \<open>One part: the files so far are extended, or the upload ends with an error.\<close>

definition save_part ::
  "upload_env \<Rightarrow> string \<Rightarrow> multipart_limits \<Rightarrow> string \<Rightarrow> saved_file list \<Rightarrow> upload_state \<Rightarrow>
     (multipart_result + saved_file list) \<times> upload_state" where
  "save_part env dir limits part files st =
     (case find_str part (crlf @ crlf) of
        None \<Rightarrow> (Inl (upload_failed 400 ''Multipart part headers missing'' files), st)
      | Some headerEnd \<Rightarrow>
          let content = drop (headerEnd + 4) part
          in (case parsePartHeaders (substr part 0 headerEnd) ''content-disposition'' of
                None \<Rightarrow> (Inr files, st)
              | Some disposition \<Rightarrow>
                  let originalFilename = dispositionValue disposition ''filename''
                  in if originalFilename = [] then
                       (if ml_maxFieldBytes limits < length content
                        then (Inl (upload_failed 413 ''Multipart field too large'' files), st) else (Inr files, st))
                     else if ml_maxFileBytes limits < length content
                       then (Inl (upload_failed 413 ''Uploaded file too large'' files), st)
                     else
                       let clean = sanitizeFilename originalFilename
                       in if \<not> isSafeUploadFilename clean
                            then (Inl (upload_failed 415 ''Upload filename or extension is not allowed'' files), st)
                          else
                            let storedName = stored_name env clean st; storedPath = path_join dir storedName
                            in if \<not> ue_creatable env storedPath
                                 then (Inl (upload_failed 500 ''Failed to create uploaded file'' files), tick st)
                               else (Inr (files @ [\<lparr>sf_fieldName = dispositionValue disposition ''name'',
                                                    sf_originalFilename = originalFilename,
                                                    sf_storedFilename = storedName, sf_storedPath = storedPath,
                                                    sf_size = length content\<rparr>]),
                                     write_file storedPath content (tick st))))"

function save_parts ::
  "upload_env \<Rightarrow> string \<Rightarrow> multipart_limits \<Rightarrow> string \<Rightarrow> string \<Rightarrow> nat \<Rightarrow> nat \<Rightarrow> saved_file list \<Rightarrow> upload_state \<Rightarrow>
     multipart_result \<times> upload_state" where
  "save_parts env dir limits delimiter body pos partCount files st =
     (let p = pos + length delimiter
      in if substr body p 2 = ''--'' then (upload_ok files, st)
         else if substr body p 2 \<noteq> crlf then (upload_failed 400 ''Malformed multipart boundary'' files, st)
         else
           (case find_from body (crlf @ delimiter) (p + 2) of
              None \<Rightarrow> (upload_failed 400 ''Multipart terminator missing'' files, st)
            | Some next \<Rightarrow>
                if ml_maxParts limits < partCount + 1
                then (upload_failed 413 ''Too many multipart parts'' files, st)
                else
                  (case save_part env dir limits (substr body (p + 2) (next - (p + 2))) files st of
                     (Inl r, st') \<Rightarrow> (r, st')
                   | (Inr files', st') \<Rightarrow>
                       save_parts env dir limits delimiter body (next + 2) (partCount + 1) files' st')))"
  by pat_completeness auto
termination
  by (relation "measure (\<lambda>(env, dir, limits, d, body, pos, n, files, st). length body + 2 - pos)")
    (auto dest!: find_from_bounds)

declare save_parts.simps [simp del]

definition saveUploads ::
  "upload_env \<Rightarrow> string \<Rightarrow> string \<Rightarrow> string \<Rightarrow> multipart_limits \<Rightarrow> upload_state \<Rightarrow>
     (string + multipart_result) \<times> upload_state" where
  "saveUploads env body contentType uploadDirectory limits st =
     (case extractBoundary contentType of
        None \<Rightarrow> (Inr (upload_failed 415 ''Unsupported Media Type'' []), st)
      | Some boundary \<Rightarrow>
          if ml_maxParts limits = 0 \<or> ml_maxFileBytes limits = 0
          then (Inr (upload_failed 500 ''Upload limits are invalid'' []), st)
          else if \<not> ue_mkdir env uploadDirectory
          then (Inl ''filesystem error: cannot create directories'', st)
          else
            (case find_str body (''--'' @ boundary) of
               None \<Rightarrow> (Inr (upload_failed 400 ''Multipart boundary not found'' []), st)
             | Some pos \<Rightarrow>
                 (case save_parts env uploadDirectory limits (''--'' @ boundary) body pos 0 [] st of
                    (r, st') \<Rightarrow> (Inr r, st'))))"

section \<open>The spool file\<close>

text \<open>
  The input stream is what is left of it, or \<^const>\<open>None\<close> once a read has failed.
  \<open>getlineClean\<close> drops one carriage return at the end of the line.
\<close>

definition drop_cr :: "string \<Rightarrow> string" where
  "drop_cr l = (if l \<noteq> [] \<and> last l = CR then butlast l else l)"

definition getlineClean :: "string option \<Rightarrow> (string \<times> string) option" where
  "getlineClean s = (case s of None \<Rightarrow> None
     | Some rest \<Rightarrow> (case getline rest of None \<Rightarrow> None | Some (l, r) \<Rightarrow> Some (drop_cr l, r)))"

lemma getlineClean_shorter: "getlineClean (Some s) = Some (l, r) \<Longrightarrow> length r < length s"
  by (auto simp: getlineClean_def split: option.splits dest: getline_delim_shorter)

function spool_headers :: "string \<Rightarrow> string \<Rightarrow> string \<times> string option" where
  "spool_headers rawHeaders s =
     (case getlineClean (Some s) of
        None \<Rightarrow> (rawHeaders, None)
      | Some (line, r) \<Rightarrow> if line = [] then (rawHeaders, Some r) else spool_headers (rawHeaders @ line @ crlf) r)"
  by pat_completeness auto
termination
  by (relation "measure (\<lambda>(h, s). length s)") (auto intro: getlineClean_shorter)

declare spool_headers.simps [simp del]

text \<open>
  The content of a part. \<open>count\<close> is \<open>bytesWritten\<close> for a file and \<open>fieldBytes\<close> for a field,
  bounded by \<open>limit\<close>; \<open>data\<close> is what was written to the file.
\<close>

datatype part_end = NextPart string | FinalPart | PartTooLarge | NoTerminator

function spool_content ::
  "string \<Rightarrow> nat \<Rightarrow> string \<Rightarrow> string option \<Rightarrow> nat \<Rightarrow> string \<Rightarrow> part_end \<times> nat \<times> string" where
  "spool_content delimiter limit s pending count data =
     (case getlineClean (Some s) of
        None \<Rightarrow> (NoTerminator, count, data)
      | Some (line, r) \<Rightarrow>
          if line = delimiter \<or> line = delimiter @ ''--'' then
            (let stop = (if line = delimiter @ ''--'' then FinalPart else NextPart r)
             in (case pending of
                   None \<Rightarrow> (stop, count, data)
                 | Some p \<Rightarrow>
                     if limit < count + length p then (PartTooLarge, count, data)
                     else (stop, count + length p, data @ p)))
          else
            (case pending of
               None \<Rightarrow> spool_content delimiter limit r (Some line) count data
             | Some p \<Rightarrow>
                 if limit < count + length p + 1 then (PartTooLarge, count, data)
                 else spool_content delimiter limit r (Some line) (count + length p + 1) (data @ p @ [LF])))"
  by pat_completeness auto
termination
  by (relation "measure (\<lambda>(d, l, s, p, c, dt). length s)") (auto intro: getlineClean_shorter)

declare spool_content.simps [simp del]

text \<open>
  One part from its header lines on. The rest of the stream after a part that is followed by
  another one is in the result.
\<close>

definition spool_part ::
  "upload_env \<Rightarrow> string \<Rightarrow> multipart_limits \<Rightarrow> string \<Rightarrow> string \<Rightarrow> saved_file list \<Rightarrow> upload_state \<Rightarrow>
     (multipart_result + string \<times> saved_file list) \<times> upload_state" where
  "spool_part env dir limits delimiter s files st =
     (case spool_headers [] s of
        (rawHeaders, s1) \<Rightarrow>
          if s1 = None \<and> rawHeaders = [] then (Inl (upload_failed 400 ''Multipart part headers missing'' files), st)
          else
            let disposition = parsePartHeaders rawHeaders ''content-disposition'';
                fieldName = (case disposition of None \<Rightarrow> [] | Some d \<Rightarrow> dispositionValue d ''name'');
                originalFilename = (case disposition of None \<Rightarrow> [] | Some d \<Rightarrow> dispositionValue d ''filename'');
                isFile = (originalFilename \<noteq> []);
                clean = sanitizeFilename originalFilename
            in if isFile \<and> \<not> isSafeUploadFilename clean
               then (Inl (upload_failed 415 ''Upload filename or extension is not allowed'' files), st)
               else
                 let storedName = stored_name env clean st;
                     storedPath = path_join dir storedName;
                     st1 = (if isFile then tick st else st)
                 in if isFile \<and> \<not> ue_creatable env storedPath
                    then (Inl (upload_failed 500 ''Failed to create uploaded file'' files), st1)
                    else
                      let limit = (if isFile then ml_maxFileBytes limits else ml_maxFieldBytes limits)
                      in (case (case s1 of None \<Rightarrow> (NoTerminator, 0, []) | Some r \<Rightarrow> spool_content delimiter limit r None 0 []) of
                            (stop, count, data) \<Rightarrow>
                              let st2 = (if isFile then write_file storedPath data st1 else st1);
                                  files' = (if isFile
                                    then files @ [\<lparr>sf_fieldName = fieldName, sf_originalFilename = originalFilename,
                                                  sf_storedFilename = storedName, sf_storedPath = storedPath, sf_size = count\<rparr>]
                                    else files)
                              in (case stop of
                                    PartTooLarge \<Rightarrow>
                                      (Inl (upload_failed 413 (if isFile then ''Uploaded file too large'' else ''Multipart field too large'') files), st2)
                                  | NoTerminator \<Rightarrow> (Inl (upload_failed 400 ''Multipart terminator missing'' files), st2)
                                  | FinalPart \<Rightarrow> (Inl (upload_ok files'), st2)
                                  | NextPart r \<Rightarrow> (Inr (r, files'), st2))))"

lemma spool_headers_shorter: "spool_headers h s = (h', Some r) \<Longrightarrow> length r < length s"
proof (induction h s rule: spool_headers.induct)
  case (1 h s)
  show ?case
  proof (cases "getlineClean (Some s)")
    case None
    with "1.prems" show ?thesis by (simp add: spool_headers.simps [of h s])
  next
    case (Some p)
    obtain line rest where p: "p = (line, rest)" by (cases p)
    with Some have "length rest < length s" by (simp add: getlineClean_shorter)
    moreover have "rest = r \<or> length r < length rest"
      using "1.prems" "1.IH" [OF Some p [symmetric]] Some p
      by (cases "line = []") (simp_all add: spool_headers.simps [of h s])
    ultimately show ?thesis by auto
  qed
qed

lemma spool_content_shorter: "spool_content d l s p c dt = (NextPart r, n, dt') \<Longrightarrow> length r < length s"
proof (induction d l s p c dt rule: spool_content.induct)
  case (1 d l s p c dt)
  note unfold = spool_content.simps [of d l s]
  show ?case
  proof (cases "getlineClean (Some s)")
    case None
    with "1.prems" show ?thesis by (simp add: unfold)
  next
    case (Some q)
    obtain line rest where q: "q = (line, rest)" by (cases q)
    with Some have less: "length rest < length s" by (simp add: getlineClean_shorter)
    show ?thesis
    proof (cases "line = d \<or> line = d @ ''--''")
      case True
      with "1.prems" Some q less show ?thesis by (auto simp: unfold Let_def split: option.splits if_splits)
    next
      case False
      note IH = "1.IH" [OF Some q [symmetric] False]
      show ?thesis
      proof (cases p)
        case None
        with "1.prems" Some q False have "spool_content d l rest (Some line) c dt = (NextPart r, n, dt')"
          by (simp add: unfold)
        from IH(1) [OF None this] less show ?thesis by simp
      next
        case (Some x)
        with "1.prems" \<open>getlineClean (Some s) = Some q\<close> q False
        have x: "\<not> l < c + length x + 1"
          "spool_content d l rest (Some line) (c + length x + 1) (dt @ x @ [LF]) = (NextPart r, n, dt')"
          by (simp_all add: unfold split: if_splits)
        from IH(2) [OF Some x] less show ?thesis by simp
      qed
    qed
  qed
qed

text \<open>The pieces of a part that was stored, or skipped, and is followed by another one.\<close>

definition content_of :: "multipart_limits \<Rightarrow> string \<Rightarrow> bool \<Rightarrow> string option \<Rightarrow> part_end \<times> nat \<times> string" where
  "content_of limits delimiter isFile s =
     (case s of None \<Rightarrow> (NoTerminator, 0, [])
      | Some r \<Rightarrow> spool_content delimiter (if isFile then ml_maxFileBytes limits else ml_maxFieldBytes limits) r None 0 [])"

lemma spool_part_shorter: "spool_part env dir limits d s files st = (Inr (r, files'), st') \<Longrightarrow> length r < length s"
proof -
  assume a: "spool_part env dir limits d s files st = (Inr (r, files'), st')"
  obtain h s1 where h: "spool_headers [] s = (h, s1)" by (cases "spool_headers [] s")
  from a h have "\<exists>isFile n data. content_of limits d isFile s1 = (NextPart r, n, data)"
    by (auto simp: spool_part_def content_of_def [symmetric] Let_def split: if_splits prod.splits part_end.splits)
  then obtain isFile n data where c: "content_of limits d isFile s1 = (NextPart r, n, data)" by blast
  then obtain rest where s1: "s1 = Some rest" by (cases s1) (auto simp: content_of_def)
  with c have "length r < length rest" by (auto simp: content_of_def dest: spool_content_shorter)
  with h s1 show ?thesis by (auto dest: spool_headers_shorter)
qed

function spool_parts ::
  "upload_env \<Rightarrow> string \<Rightarrow> multipart_limits \<Rightarrow> string \<Rightarrow> string \<Rightarrow> nat \<Rightarrow> saved_file list \<Rightarrow> upload_state \<Rightarrow>
     multipart_result \<times> upload_state" where
  "spool_parts env dir limits delimiter s partCount files st =
     (if ml_maxParts limits < partCount + 1 then (upload_failed 413 ''Too many multipart parts'' files, st)
      else (case spool_part env dir limits delimiter s files st of
              (Inl r, st') \<Rightarrow> (r, st')
            | (Inr (r, files'), st') \<Rightarrow> spool_parts env dir limits delimiter r (partCount + 1) files' st'))"
  by pat_completeness auto
termination
  by (relation "measure (\<lambda>(env, dir, l, d, s, n, f, st). length s)") (auto dest: spool_part_shorter [OF sym])

declare spool_parts.simps [simp del]

definition saveUploadsFromSpoolFile ::
  "upload_env \<Rightarrow> string option \<Rightarrow> string \<Rightarrow> string \<Rightarrow> multipart_limits \<Rightarrow> upload_state \<Rightarrow>
     (string + multipart_result) \<times> upload_state" where
  "saveUploadsFromSpoolFile env spool contentType uploadDirectory limits st =
     (case extractBoundary contentType of
        None \<Rightarrow> (Inr (upload_failed 415 ''Unsupported Media Type'' []), st)
      | Some boundary \<Rightarrow>
          if ml_maxParts limits = 0 \<or> ml_maxFileBytes limits = 0
          then (Inr (upload_failed 500 ''Upload limits are invalid'' []), st)
          else
            (case spool of
               None \<Rightarrow> (Inr (upload_failed 500 ''Failed to open upload spool'' []), st)
             | Some text \<Rightarrow>
                 if \<not> ue_mkdir env uploadDirectory
                 then (Inl ''filesystem error: cannot create directories'', st)
                 else
                   (case getlineClean (Some text) of
                      None \<Rightarrow> (Inr (upload_failed 400 ''Multipart boundary not found'' []), st)
                    | Some (line, rest) \<Rightarrow>
                        if line \<noteq> ''--'' @ boundary
                        then (Inr (upload_failed 400 ''Multipart boundary not found'' []), st)
                        else (case spool_parts env uploadDirectory limits (''--'' @ boundary) rest 0 [] st of
                                (r, st') \<Rightarrow> (Inr r, st')))))"

section \<open>Names are safe\<close>

lemma basename_plain: "list_all filename_char s \<Longrightarrow> basenameOnly s = s"
proof -
  assume s: "list_all filename_char s"
  have sep: "\<not> filename_char CHR ''/''" "\<not> filename_char BACKSLASH"
    by (simp_all add: filename_char_def ctype_defs uc_def)
  have "takeWhile (\<lambda>c. c \<noteq> CHR ''/'' \<and> c \<noteq> BACKSLASH) (rev s) = rev s"
    using s sep unfolding takeWhile_eq_all_conv by (auto simp: list_all_iff)
  then show ?thesis by (simp only: basenameOnly_def rev_rev_ident)
qed

lemma sanitize_plain:
  assumes "list_all filename_char s" "s \<noteq> []" "hd s \<noteq> CHR ''.''" "last s \<noteq> CHR ''.''" "length s \<le> 96"
  shows "sanitizeFilename s = s"
proof -
  have "map (\<lambda>c. if filename_char c then c else CHR ''_'') s = s"
    using assms(1) by (intro map_idI) (auto simp: list_all_iff)
  moreover have "\<not> filename_char SP" by (simp add: filename_char_def ctype_defs uc_def)
  then have "SP \<notin> set s" using assms(1) by (auto simp: list_all_iff)
  then have "hd s \<noteq> SP" "last s \<noteq> SP" using assms(2) by (metis hd_in_set, metis last_in_set)
  then have "clean_ends (\<lambda>c. c = CHR ''.'' \<or> c = SP) s"
    using assms(2-4) by (simp add: clean_ends_def)
  ultimately show ?thesis
    using assms by (simp add: sanitizeFilename_def basename_plain strip_fixed Let_def)
qed

text \<open>The name in front of the cut to 96 characters.\<close>

definition clean_name :: "string \<Rightarrow> string" where
  "clean_name input =
     (let out = strip (\<lambda>c. c = CHR ''.'' \<or> c = SP) (map (\<lambda>c. if filename_char c then c else CHR ''_'') (basenameOnly input))
      in if out = [] then ''upload.bin'' else out)"

lemma sanitize_eq:
  "sanitizeFilename input =
    (let out = (if 96 < length (clean_name input) then drop (length (clean_name input) - 96) (clean_name input)
                else clean_name input)
     in if out \<noteq> [] \<and> hd out = CHR ''.'' then ''upload_'' @ out else out)"
  unfolding sanitizeFilename_def clean_name_def Let_def by (rule refl)

lemma clean_name_cases:
  obtains (default) "clean_name input = ''upload.bin''"
  | (given) "clean_name input \<noteq> []"
      "clean_ends (\<lambda>c. c = CHR ''.'' \<or> c = SP) (clean_name input)" "list_all filename_char (clean_name input)"
proof -
  let ?P = "\<lambda>c. c = CHR ''.'' \<or> c = SP"
  let ?m = "map (\<lambda>c. if filename_char c then c else CHR ''_'') (basenameOnly input)"
  have "filename_char CHR ''_''" by (simp add: filename_char_def)
  then have "\<forall>c\<in>set ?m. filename_char c" by auto
  then have chars: "list_all filename_char (strip ?P ?m)"
    using set_strip [of ?P ?m] unfolding list_all_iff by blast
  show ?thesis
  proof (cases "strip ?P ?m = []")
    case True
    then show ?thesis by (intro default) (simp add: clean_name_def Let_def)
  next
    case False
    then have eq: "clean_name input = strip ?P ?m" by (simp only: clean_name_def Let_def if_False)
    show ?thesis
    proof (rule given)
      show "clean_name input \<noteq> []" unfolding eq by (rule False)
      show "clean_ends ?P (clean_name input)" unfolding eq by (rule strip_clean_ends)
      show "list_all filename_char (clean_name input)" unfolding eq by (rule chars)
    qed
  qed
qed

lemma clean_name_chars:
  "list_all filename_char (clean_name input) \<and> clean_name input \<noteq> [] \<and>
   hd (clean_name input) \<noteq> CHR ''.'' \<and> last (clean_name input) \<noteq> CHR ''.''"
proof (cases rule: clean_name_cases [of input])
  case default
  have "list_all filename_char ''upload.bin''" by code_simp
  with default show ?thesis by simp
next
  case given
  then show ?thesis by (simp add: clean_ends_def)
qed

definition safe_name :: "string \<Rightarrow> bool" where
  "safe_name s \<longleftrightarrow> list_all filename_char s \<and> s \<noteq> [] \<and> hd s \<noteq> CHR ''.'' \<and> length s \<le> 103"

lemma sanitize_cases:
  obtains (short) "sanitizeFilename input = clean_name input" "length (clean_name input) \<le> 96"
  | (cut) t where "sanitizeFilename input = t" "length t = 96" "hd t \<noteq> CHR ''.''" "list_all filename_char t" "last t \<noteq> CHR ''.''"
  | (cut_dot) t where "sanitizeFilename input = ''upload_'' @ t" "length t = 96" "hd t = CHR ''.''"
      "list_all filename_char t" "last t \<noteq> CHR ''.''"
proof (cases "96 < length (clean_name input)")
  case False
  with short clean_name_chars [of input] show ?thesis by (simp add: sanitize_eq)
next
  case True
  let ?t = "drop (length (clean_name input) - 96) (clean_name input)"
  have t: "length ?t = 96" "?t \<noteq> []" using True by auto
  have "list_all filename_char ?t" "last ?t \<noteq> CHR ''.''"
    using clean_name_chars [of input] t(2) by (auto simp: list_all_iff last_drop dest: in_set_dropD)
  with cut cut_dot t True show ?thesis by (cases "hd ?t = CHR ''.''") (simp_all add: sanitize_eq)
qed

lemma sanitized_safe: "safe_name (sanitizeFilename input)"
proof (cases rule: sanitize_cases [of input])
  case short
  with clean_name_chars [of input] show ?thesis by (simp add: safe_name_def)
next
  case (cut t)
  then show ?thesis by (auto simp: safe_name_def)
next
  case (cut_dot t)
  have "list_all filename_char ''upload_''" by code_simp
  with cut_dot show ?thesis by (simp add: safe_name_def)
qed

lemma sanitize_idem: "sanitizeFilename (sanitizeFilename input) = sanitizeFilename input"
proof (cases rule: sanitize_cases [of input])
  case short
  with clean_name_chars [of input] show ?thesis by (simp add: sanitize_plain)
next
  case (cut t)
  then have "t \<noteq> []" by auto
  with cut show ?thesis by (simp add: sanitize_plain)
next
  case (cut_dot t)
  let ?u = "''upload_'' @ t"
  have u: "list_all filename_char ?u" using cut_dot by (simp add: filename_char_def ctype_defs uc_def)
  have "t \<noteq> []" using cut_dot(2) by auto
  have "map (\<lambda>c. if filename_char c then c else CHR ''_'') ?u = ?u"
    using u by (intro map_idI) (auto simp: list_all_iff)
  moreover have "clean_ends (\<lambda>c. c = CHR ''.'' \<or> c = SP) ?u"
  proof -
    have "\<not> filename_char SP" by (simp add: filename_char_def ctype_defs uc_def)
    then have "last t \<noteq> SP" using cut_dot(4) last_in_set [OF \<open>t \<noteq> []\<close>] by (auto simp: list_all_iff)
    with cut_dot(5) \<open>t \<noteq> []\<close> show ?thesis by (simp add: clean_ends_def)
  qed
  ultimately have "clean_name ?u = ?u" using basename_plain [OF u] by (simp add: clean_name_def strip_fixed)
  then have "sanitizeFilename ?u = ?u" using cut_dot(2,3) \<open>t \<noteq> []\<close> by (simp add: sanitize_eq)
  then show ?thesis by (simp add: cut_dot(1))
qed

text \<open>
  Whatever name a client sends, the name used for the file has only letters, digits, dots,
  underscores and dashes, does not start with a dot, has at most 103 characters, and sanitizing
  again does not change it.
\<close>

theorem sanitizeFilename_safe:
  "list_all filename_char (sanitizeFilename input) \<and> sanitizeFilename input \<noteq> [] \<and>
   hd (sanitizeFilename input) \<noteq> CHR ''.'' \<and> length (sanitizeFilename input) \<le> 103 \<and>
   sanitizeFilename (sanitizeFilename input) = sanitizeFilename input"
  using sanitized_safe [of input] sanitize_idem [of input] by (simp add: safe_name_def)

text \<open>The extension of a stored file.\<close>

definition stored_ok :: "string \<Rightarrow> bool" where
  "stored_ok n \<longleftrightarrow> list_all filename_char n \<and> n \<noteq> [] \<and> hd n \<noteq> CHR ''.'' \<and> lowercase (name_extension n) \<notin> set blockedExt"

lemma to_string_int_chars: "c \<in> set (to_string_int i) \<Longrightarrow> isdigit c \<or> c = CHR ''-''"
  by (auto simp: to_string_int_def dest: to_string_digits split: if_splits)

lemma name_extension_dot:
  assumes "hd n \<noteq> CHR ''.''" "n \<noteq> []"
  shows "name_extension n =
    (if CHR ''.'' \<in> set n then CHR ''.'' # rev (takeWhile (\<lambda>c. c \<noteq> CHR ''.'') (rev n)) else [])"
  using assms by (cases n) (auto simp: name_extension_def)

lemma takeWhile_dot_append:
  "CHR ''.'' \<in> set c \<Longrightarrow> takeWhile (\<lambda>x. x \<noteq> CHR ''.'') (rev (a @ c)) = takeWhile (\<lambda>x. x \<noteq> CHR ''.'') (rev c)"
  by (simp add: takeWhile_append1)

lemma name_extension_prefix:
  assumes "CHR ''.'' \<notin> set a" "a \<noteq> []" "c \<noteq> []" "hd c \<noteq> CHR ''.''"
  shows "name_extension (a @ c) = name_extension c"
proof -
  have "hd (a @ c) \<noteq> CHR ''.''" using assms(1,2) hd_in_set by (cases a) auto
  moreover have "CHR ''.'' \<in> set (a @ c) \<longleftrightarrow> CHR ''.'' \<in> set c" using assms(1) by simp
  ultimately show ?thesis
    using assms(2,3,4) takeWhile_dot_append [of c a] by (simp add: name_extension_dot)
qed

lemma lowercase_dot: "CHR ''.'' \<in> set (lowercase s) \<longleftrightarrow> CHR ''.'' \<in> set s"
  by (rule in_lowercase_symbol) (simp_all add: isupper_def islower_def uc_def)

lemma tolower_dot [simp]: "tolower c = CHR ''.'' \<longleftrightarrow> c = CHR ''.''"
  by (rule tolower_eq_symbol) (simp_all add: isupper_def islower_def uc_def)

lemma takeWhile_lowercase_dot:
  "takeWhile (\<lambda>c. c \<noteq> CHR ''.'') (rev (lowercase s)) = map tolower (takeWhile (\<lambda>c. c \<noteq> CHR ''.'') (rev s))"
  unfolding lowercase_def rev_map takeWhile_map by (simp add: comp_def)

lemma name_extension_lowercase:
  assumes "hd n \<noteq> CHR ''.''" "n \<noteq> []"
  shows "name_extension (lowercase n) = lowercase (name_extension n)"
proof -
  have "hd (lowercase n) \<noteq> CHR ''.''" "lowercase n \<noteq> []" using assms by (auto simp: lowercase_def hd_map)
  moreover have "lowercase (CHR ''.'' # x) = CHR ''.'' # lowercase x" for x by (simp add: lowercase_def)
  ultimately show ?thesis using assms
    by (simp add: name_extension_dot lowercase_dot takeWhile_lowercase_dot) (simp add: lowercase_def rev_map)
qed

lemma stored_name_ok:
  assumes "isSafeUploadFilename (sanitizeFilename orig)"
  shows "stored_ok (stored_name env (sanitizeFilename orig) st)"
proof -
  let ?c = "sanitizeFilename orig" and ?a = "to_string_int (ue_clock env (us_ticks st)) @ ''_''"
  have c: "list_all filename_char ?c" "?c \<noteq> []" "hd ?c \<noteq> CHR ''.''"
    using sanitized_safe [of orig] by (auto simp: safe_name_def)
  have slash: "\<not> filename_char CHR ''/''" by (simp add: filename_char_def ctype_defs uc_def)
  have low: "CHR ''/'' \<notin> set (lowercase ?c)"
  proof -
    have "CHR ''/'' \<in> set (lowercase ?c) \<longleftrightarrow> CHR ''/'' \<in> set ?c"
      by (rule in_lowercase_symbol) (simp_all add: isupper_def islower_def uc_def)
    then show ?thesis using c(1) slash by (auto simp: list_all_iff)
  qed
  then have "takeWhile (\<lambda>x. x \<noteq> CHR ''/'') (rev (lowercase ?c)) = rev (lowercase ?c)"
    unfolding takeWhile_eq_all_conv by auto
  then have "path_extension (lowercase ?c) = name_extension (lowercase ?c)"
    by (simp only: path_extension_def path_filename_def rev_rev_ident)
  with assms c have ext: "lowercase (name_extension ?c) \<notin> set blockedExt"
    by (auto simp: isSafeUploadFilename_def sanitize_idem name_extension_lowercase Let_def split: if_splits)
  have "\<not> isdigit CHR ''.''" by (simp add: isdigit_def uc_def)
  then have "CHR ''.'' \<notin> set (to_string_int (ue_clock env (us_ticks st)))"
    using to_string_int_chars [of "CHR ''.''"] by auto
  then have a2: "CHR ''.'' \<notin> set ?a" by simp
  have "filename_char c" if c: "c \<in> set ?a" for c
    using c to_string_int_chars [of c] by (auto simp: filename_char_def isalnum_def)
  then have a1: "list_all filename_char ?a" by (simp only: list_all_iff) blast
  note a = a1 a2
  have "name_extension (?a @ ?c) = name_extension ?c" using a(2) c by (intro name_extension_prefix) auto
  moreover have "hd (?a @ ?c) \<noteq> CHR ''.''" using a(2) hd_in_set [of ?a] by (auto simp: hd_append)
  ultimately show ?thesis using a c ext by (simp add: stored_ok_def stored_name_def)
qed

section \<open>What an upload may change\<close>

definition saved_ok :: "string \<Rightarrow> multipart_limits \<Rightarrow> saved_file \<Rightarrow> bool" where
  "saved_ok dir limits f \<longleftrightarrow>
     stored_ok (sf_storedFilename f) \<and> sf_storedPath f = path_join dir (sf_storedFilename f) \<and>
     sf_size f \<le> ml_maxFileBytes limits"

definition upload_frame :: "string \<Rightarrow> multipart_limits \<Rightarrow> upload_state \<Rightarrow> upload_state \<Rightarrow> bool" where
  "upload_frame dir limits st st' \<longleftrightarrow>
     us_ticks st \<le> us_ticks st' \<and>
     (\<forall>p. us_store st' p = us_store st p \<or>
          (\<exists>n c. stored_ok n \<and> p = path_join dir n \<and> us_store st' p = Some c \<and> length c \<le> ml_maxFileBytes limits))"

lemma upload_frame_refl [simp]: "upload_frame dir limits st st"
  by (simp add: upload_frame_def)

lemma upload_frame_tick [simp]: "upload_frame dir limits st (tick st)"
  by (simp add: upload_frame_def tick_def)

lemma upload_frame_trans [trans]:
  "upload_frame dir limits a b \<Longrightarrow> upload_frame dir limits b c \<Longrightarrow> upload_frame dir limits a c"
  unfolding upload_frame_def by (metis order_trans)

lemma upload_frame_write:
  "stored_ok n \<Longrightarrow> length c \<le> ml_maxFileBytes limits \<Longrightarrow>
   upload_frame dir limits st (write_file (path_join dir n) c (tick st))"
  by (auto simp: upload_frame_def write_file_def tick_def)

lemma mr_simps [simp]:
  "mr_files (upload_failed s e fs) = fs" "mr_files (upload_ok fs) = fs"
  "mr_ok (upload_failed s e fs) = False" "mr_ok (upload_ok fs) = True"
  by (simp_all add: upload_failed_def upload_ok_def)

text \<open>One part, from a body in memory.\<close>

lemma save_part_cases:
  assumes "save_part env dir limits part files st = (res, st')"
  obtains (err) s e where "res = Inl (upload_failed s e files)" "st' = st \<or> st' = tick st"
  | (skip) "res = Inr files" "st' = st"
  | (saved) orig f where "res = Inr (files @ [f])"
      "isSafeUploadFilename (sanitizeFilename orig)"
      "sf_storedFilename f = stored_name env (sanitizeFilename orig) st"
      "sf_storedPath f = path_join dir (sf_storedFilename f)"
      "sf_size f \<le> ml_maxFileBytes limits"
      "\<exists>c. length c = sf_size f \<and> st' = write_file (sf_storedPath f) c (tick st)"
proof (cases "find_str part (crlf @ crlf)")
  case None
  with assms show ?thesis by (intro err) (auto simp: save_part_def)
next
  case (Some headerEnd)
  note he = this
  let ?content = "drop (headerEnd + 4) part"
  show ?thesis
  proof (cases "parsePartHeaders (substr part 0 headerEnd) ''content-disposition''")
    case None
    with assms he show ?thesis by (intro skip) (auto simp: save_part_def)
  next
    case (Some d)
    let ?orig = "dispositionValue d ''filename''" and ?clean = "sanitizeFilename (dispositionValue d ''filename'')"
    let ?path = "path_join dir (stored_name env ?clean st)"
    note eq = assms [unfolded save_part_def he Some option.simps Let_def]
    consider "?orig = []" | "?orig \<noteq> []" "ml_maxFileBytes limits < length ?content \<or> \<not> isSafeUploadFilename ?clean"
      | "?orig \<noteq> []" "\<not> ml_maxFileBytes limits < length ?content" "isSafeUploadFilename ?clean" "\<not> ue_creatable env ?path"
      | (ok) "?orig \<noteq> []" "\<not> ml_maxFileBytes limits < length ?content" "isSafeUploadFilename ?clean" "ue_creatable env ?path"
      by blast
    then show ?thesis
    proof cases
      case 1
      with eq show ?thesis by (cases "ml_maxFieldBytes limits < length ?content") (auto intro: err skip)
    next
      case 2
      with eq show ?thesis by (cases "ml_maxFileBytes limits < length ?content") (auto intro: err)
    next
      case 3
      with eq show ?thesis by (auto intro: err)
    next
      case ok
      let ?f = "\<lparr>sf_fieldName = dispositionValue d ''name'', sf_originalFilename = ?orig,
                 sf_storedFilename = stored_name env ?clean st, sf_storedPath = ?path, sf_size = length ?content\<rparr>"
      from ok eq have "res = Inr (files @ [?f])" "st' = write_file ?path ?content (tick st)" by simp_all
      then show ?thesis using ok by (intro saved [of ?f ?orig]) (auto intro!: exI [of _ ?content])
    qed
  qed
qed

text \<open>
  With a clock that never shows the same time twice the stored names differ, so a later part
  leaves the earlier files alone.
\<close>

definition on_disk :: "upload_env \<Rightarrow> upload_state \<Rightarrow> saved_file \<Rightarrow> bool" where
  "on_disk env st f \<longleftrightarrow>
     (\<exists>t clean. t < us_ticks st \<and> sf_storedFilename f = to_string_int (ue_clock env t) @ CHR ''_'' # clean) \<and>
     (\<exists>c. us_store st (sf_storedPath f) = Some c \<and> length c = sf_size f)"

definition upload_inv ::
  "upload_env \<Rightarrow> string \<Rightarrow> multipart_limits \<Rightarrow> upload_state \<Rightarrow> nat \<Rightarrow> upload_state \<Rightarrow> saved_file list \<Rightarrow> bool" where
  "upload_inv env dir limits st0 n st files \<longleftrightarrow>
     upload_frame dir limits st0 st \<and> length files \<le> n \<and> list_all (saved_ok dir limits) files \<and>
     (inj (ue_clock env) \<longrightarrow> list_all (on_disk env st) files)"

lemma to_string_int_inject [simp]: "to_string_int i = to_string_int j \<longleftrightarrow> i = j"
proof -
  have sign: "to_string n \<noteq> CHR ''-'' # s" for n s
  proof
    assume "to_string n = CHR ''-'' # s"
    then have "CHR ''-'' \<in> set (to_string n)" by simp
    then show False using to_string_digits [of "CHR ''-''" n] by (simp add: isdigit_def uc_def)
  qed
  show ?thesis
  proof (cases "i < 0"; cases "j < 0")
    assume "i < 0" "j < 0"
    then show ?thesis by (simp add: to_string_int_def eq_nat_nat_iff)
  next
    assume "i < 0" "\<not> j < 0"
    then show ?thesis using sign [of "nat j" "to_string (nat (- i))"] by (auto simp: to_string_int_def)
  next
    assume "\<not> i < 0" "j < 0"
    then show ?thesis using sign [of "nat i" "to_string (nat (- j))"] by (auto simp: to_string_int_def)
  next
    assume "\<not> i < 0" "\<not> j < 0"
    then show ?thesis by (simp add: to_string_int_def eq_nat_nat_iff)
  qed
qed

lemma stamped_name_inject:
  assumes "to_string_int i @ CHR ''_'' # a = to_string_int j @ CHR ''_'' # b"
  shows "i = j"
proof -
  have no: "c \<noteq> CHR ''_''" if "c \<in> set (to_string_int k)" for c k
    using to_string_int_chars [OF that] by (auto simp: isdigit_def uc_def)
  have "takeWhile (\<lambda>c. c \<noteq> CHR ''_'') (to_string_int k @ CHR ''_'' # s) = to_string_int k" for k s
    using no by (simp add: takeWhile_append2)
  with assms show ?thesis by (metis to_string_int_inject)
qed

lemma stored_relative: "stored_ok n \<Longrightarrow> \<not> is_absolute n"
proof -
  assume n: "stored_ok n"
  have "\<not> filename_char CHR ''/''" by (simp add: filename_char_def ctype_defs uc_def)
  with n show ?thesis by (cases n) (auto simp: stored_ok_def is_absolute_def starts_with_def)
qed

lemma path_join_inject:
  "\<not> is_absolute a \<Longrightarrow> \<not> is_absolute b \<Longrightarrow> path_join dir a = path_join dir b \<longleftrightarrow> a = b"
  by (simp add: path_join_def)

lemma on_disk_tick: "on_disk env st f \<Longrightarrow> on_disk env (tick st) f"
  unfolding on_disk_def tick_def by (auto intro: less_SucI)

lemma upload_inv_tick: "upload_inv env dir limits st0 n st files \<Longrightarrow> upload_inv env dir limits st0 n (tick st) files"
  using upload_frame_trans [OF _ upload_frame_tick, of dir limits st0 st]
  by (auto simp: upload_inv_def list_all_iff on_disk_tick)

lemma upload_inv_mono: "upload_inv env dir limits st0 n st files \<Longrightarrow> n \<le> m \<Longrightarrow> upload_inv env dir limits st0 m st files"
  by (auto simp: upload_inv_def)

lemma upload_inv_write:
  assumes inv: "upload_inv env dir limits st0 n st files" and safe: "isSafeUploadFilename (sanitizeFilename orig)"
    and c: "length c \<le> ml_maxFileBytes limits"
  shows "upload_inv env dir limits st0 n
           (write_file (path_join dir (stored_name env (sanitizeFilename orig) st)) c (tick st)) files"
proof -
  let ?n = "stored_name env (sanitizeFilename orig) st"
  let ?w = "write_file (path_join dir ?n) c (tick st)"
  have ok: "stored_ok ?n" by (rule stored_name_ok [OF safe])
  have "upload_frame dir limits st0 ?w"
    using inv upload_frame_trans [OF _ upload_frame_write [OF ok c]] by (auto simp: upload_inv_def)
  moreover have "on_disk env ?w f" if f: "f \<in> set files" and inj: "inj (ue_clock env)" for f
  proof -
    from f inj inv have d: "on_disk env st f" and s: "saved_ok dir limits f"
      by (auto simp: upload_inv_def list_all_iff)
    from d obtain t cl where t: "t < us_ticks st" "sf_storedFilename f = to_string_int (ue_clock env t) @ CHR ''_'' # cl"
      by (auto simp: on_disk_def)
    have "ue_clock env t \<noteq> ue_clock env (us_ticks st)" using t(1) injD [OF inj] by blast
    then have "sf_storedFilename f \<noteq> ?n" using t(2) stamped_name_inject by (auto simp: stored_name_def)
    then have "sf_storedPath f \<noteq> path_join dir ?n"
      using s ok by (simp add: saved_ok_def path_join_inject stored_relative)
    with d t show ?thesis by (auto simp: on_disk_def write_file_def tick_def intro!: exI [of _ t])
  qed
  ultimately show ?thesis using inv by (simp add: upload_inv_def list_all_iff)
qed

lemma upload_inv_saved:
  assumes inv: "upload_inv env dir limits st0 n st files" and safe: "isSafeUploadFilename (sanitizeFilename orig)"
    and f: "sf_storedFilename f = stored_name env (sanitizeFilename orig) st"
      "sf_storedPath f = path_join dir (sf_storedFilename f)" "sf_size f = length c" "length c \<le> ml_maxFileBytes limits"
  shows "upload_inv env dir limits st0 (Suc n) (write_file (sf_storedPath f) c (tick st)) (files @ [f])"
proof -
  let ?w = "write_file (sf_storedPath f) c (tick st)"
  have w: "upload_inv env dir limits st0 n ?w files"
    using upload_inv_write [OF inv safe f(4)] f(1,2) by simp
  have "saved_ok dir limits f" using stored_name_ok [OF safe] f by (simp add: saved_ok_def)
  moreover have "on_disk env ?w f"
    using f by (auto simp: on_disk_def write_file_def tick_def stored_name_def)
  ultimately show ?thesis using w by (simp add: upload_inv_def)
qed

text \<open>The two loops keep the invariant.\<close>

lemma save_part_inv:
  assumes "save_part env dir limits part files st = (res, st')" "upload_inv env dir limits st0 n st files"
  shows "case res of Inl r \<Rightarrow> upload_inv env dir limits st0 (Suc n) st' (mr_files r)
                   | Inr files' \<Rightarrow> upload_inv env dir limits st0 (Suc n) st' files'"
  using assms(1)
proof (cases rule: save_part_cases)
  case (err s e)
  then show ?thesis using upload_inv_mono [OF upload_inv_tick [OF assms(2)]] upload_inv_mono [OF assms(2)] by auto
next
  case skip
  then show ?thesis using upload_inv_mono [OF assms(2)] by auto
next
  case (saved orig f)
  then obtain c where c: "length c = sf_size f" "st' = write_file (sf_storedPath f) c (tick st)" by blast
  then show ?thesis using saved upload_inv_saved [OF assms(2) saved(2) saved(3) saved(4), of c] by simp
qed

lemma save_parts_inv:
  "save_parts env dir limits delimiter body pos n files st = (r, st') \<Longrightarrow>
   upload_inv env dir limits st0 n st files \<Longrightarrow> n \<le> ml_maxParts limits \<Longrightarrow>
   upload_inv env dir limits st0 (ml_maxParts limits) st' (mr_files r)"
proof (induction env dir limits delimiter body pos n files st rule: save_parts.induct)
  case (1 env dir limits delimiter body pos n files st)
  note unfold = save_parts.simps [of env dir limits delimiter body pos n files st, unfolded Let_def]
  note keep = upload_inv_mono [OF "1.prems"(2,3)]
  let ?p = "pos + length delimiter"
  show ?case
  proof (cases "substr body ?p 2 = ''--'' \<or> substr body ?p 2 \<noteq> crlf")
    case True
    with "1.prems"(1) keep show ?thesis by (auto simp: unfold split: if_splits)
  next
    case False
    then have d: "substr body ?p 2 \<noteq> ''--''" "\<not> substr body ?p 2 \<noteq> crlf" by blast+
    show ?thesis
    proof (cases "find_from body (crlf @ delimiter) (?p + 2)")
      case None
      with "1.prems"(1) keep d show ?thesis by (auto simp: unfold)
    next
      case (Some stop)
      show ?thesis
      proof (cases "ml_maxParts limits < n + 1")
        case True
        with "1.prems"(1) keep d Some show ?thesis by (auto simp: unfold)
      next
        case False
        obtain res st1 where part: "save_part env dir limits (substr body (?p + 2) (stop - (?p + 2))) files st = (res, st1)"
          by fastforce
        note inv = save_part_inv [OF part "1.prems"(2)]
        show ?thesis
        proof (cases res)
          case (Inl x)
          with "1.prems"(1) d Some False part have "r = x" "st' = st1" by (auto simp: unfold)
          with inv Inl False show ?thesis by (auto intro: upload_inv_mono)
        next
          case (Inr files')
          with "1.prems"(1) d Some False part
          have "save_parts env dir limits delimiter body (stop + 2) (n + 1) files' st1 = (r, st')" by (simp add: unfold)
          then show ?thesis
            using "1.IH" [OF refl d Some False part [symmetric] Inr] inv Inr False by simp
        qed
      qed
    qed
  qed
qed

lemma spool_content_size:
  "spool_content d l s p c dt = (stop, n, dt') \<Longrightarrow> c = length dt \<Longrightarrow> c \<le> l \<Longrightarrow> n = length dt' \<and> n \<le> l"
proof (induction d l s p c dt rule: spool_content.induct)
  case (1 d l s p c dt)
  note unfold = spool_content.simps [of d l s]
  show ?case
  proof (cases "getlineClean (Some s)")
    case None
    with "1.prems" show ?thesis by (auto simp: unfold)
  next
    case (Some q)
    obtain line rest where q: "q = (line, rest)" by (cases q)
    show ?thesis
    proof (cases "line = d \<or> line = d @ ''--''")
      case True
      with "1.prems" Some q show ?thesis by (cases p) (auto simp: unfold Let_def split: if_splits)
    next
      case False
      note IH = "1.IH" [OF Some q [symmetric] False]
      show ?thesis
      proof (cases p)
        case None
        with "1.prems"(1) Some q False have "spool_content d l rest (Some line) c dt = (stop, n, dt')"
          by (simp add: unfold)
        from IH(1) [OF None this "1.prems"(2,3)] show ?thesis .
      next
        case (Some x)
        note px = this
        show ?thesis
        proof (cases "l < c + length x + 1")
          case True
          with "1.prems" \<open>getlineClean (Some s) = Some q\<close> q False px show ?thesis by (auto simp: unfold)
        next
          case small: False
          with "1.prems"(1) \<open>getlineClean (Some s) = Some q\<close> q False px
          have x: "spool_content d l rest (Some line) (c + length x + 1) (dt @ x @ [LF]) = (stop, n, dt')"
            by (simp add: unfold)
          show ?thesis by (rule IH(2) [OF px small x]) (use "1.prems"(2) small in simp_all)
        qed
      qed
    qed
  qed
qed

lemma content_of_size:
  assumes "content_of limits d isFile s = (stop, n, data)"
  shows "n = length data" "isFile \<Longrightarrow> n \<le> ml_maxFileBytes limits"
  using assms by (auto simp: content_of_def split: option.splits if_splits dest: spool_content_size)

text \<open>Reading a part before any check, and the part as a whole in terms of it.\<close>

lemma spool_part_cases:
  assumes "spool_part env dir limits d s files st = (res, st')"
  obtains (err) s e where "res = Inl (upload_failed s e files)" "st' = st \<or> st' = tick st"
  | (field) "st' = st" "(\<exists>s e. res = Inl (upload_failed s e files)) \<or> res = Inl (upload_ok files) \<or> (\<exists>r. res = Inr (r, files))"
  | (cut) orig c s e where "res = Inl (upload_failed s e files)" "isSafeUploadFilename (sanitizeFilename orig)"
      "length c \<le> ml_maxFileBytes limits"
      "st' = write_file (path_join dir (stored_name env (sanitizeFilename orig) st)) c (tick st)"
  | (saved) orig f c where "res = Inl (upload_ok (files @ [f])) \<or> (\<exists>r. res = Inr (r, files @ [f]))"
      "isSafeUploadFilename (sanitizeFilename orig)"
      "sf_storedFilename f = stored_name env (sanitizeFilename orig) st"
      "sf_storedPath f = path_join dir (sf_storedFilename f)"
      "sf_size f = length c" "length c \<le> ml_maxFileBytes limits"
      "st' = write_file (sf_storedPath f) c (tick st)"
proof -
  obtain raw s1 where h: "spool_headers [] s = (raw, s1)" by (cases "spool_headers [] s")
  define disp where "disp = parsePartHeaders raw ''content-disposition''"
  define name where "name = (case disp of None \<Rightarrow> [] | Some d \<Rightarrow> dispositionValue d ''name'')"
  define orig where "orig = (case disp of None \<Rightarrow> [] | Some d \<Rightarrow> dispositionValue d ''filename'')"
  define stored where "stored = stored_name env (sanitizeFilename orig) st"
  obtain stop n data where c: "content_of limits d (orig \<noteq> []) s1 = (stop, n, data)"
    by (cases "content_of limits d (orig \<noteq> []) s1")
  note eq = assms [unfolded spool_part_def h Let_def prod.case, folded disp_def, folded name_def orig_def,
      folded stored_def content_of_def, unfolded c prod.case]
  consider (missing) "s1 = None \<and> raw = []" | (field) "\<not> (s1 = None \<and> raw = [])" "orig = []"
    | (bad) "\<not> (s1 = None \<and> raw = [])" "orig \<noteq> []" "\<not> isSafeUploadFilename (sanitizeFilename orig)"
    | (closed) "\<not> (s1 = None \<and> raw = [])" "orig \<noteq> []" "isSafeUploadFilename (sanitizeFilename orig)" "\<not> ue_creatable env (path_join dir stored)"
    | (ok) "\<not> (s1 = None \<and> raw = [])" "orig \<noteq> []" "isSafeUploadFilename (sanitizeFilename orig)" "ue_creatable env (path_join dir stored)"
    by blast
  then show ?thesis
  proof cases
    case missing
    with eq have "res = Inl (upload_failed 400 ''Multipart part headers missing'' files)" "st' = st"
      by simp_all
    then show ?thesis by (intro err) simp_all
  next
    case field
    have "st' = st \<and> ((\<exists>s e. res = Inl (upload_failed s e files)) \<or> res = Inl (upload_ok files) \<or> (\<exists>r. res = Inr (r, files)))"
      using eq field by (cases stop) auto
    then show ?thesis by (intro that(2)) blast+
  next
    case bad
    with eq have "res = Inl (upload_failed 415 ''Upload filename or extension is not allowed'' files)" "st' = st"
      by simp_all
    then show ?thesis by (intro err) simp_all
  next
    case closed
    with eq have "res = Inl (upload_failed 500 ''Failed to create uploaded file'' files)" "st' = tick st"
      by simp_all
    then show ?thesis by (intro err) simp_all
  next
    case ok
    let ?f = "\<lparr>sf_fieldName = name, sf_originalFilename = orig, sf_storedFilename = stored,
                sf_storedPath = path_join dir stored, sf_size = n\<rparr>"
    let ?res = "case stop of
        PartTooLarge \<Rightarrow> Inl (upload_failed 413 ''Uploaded file too large'' files)
      | NoTerminator \<Rightarrow> Inl (upload_failed 400 ''Multipart terminator missing'' files)
      | FinalPart \<Rightarrow> Inl (upload_ok (files @ [?f]))
      | NextPart r \<Rightarrow> Inr (r, files @ [?f])"
    have n: "n = length data" "n \<le> ml_maxFileBytes limits" using content_of_size [OF c] ok(2) by simp_all
    from ok eq have r: "res = ?res" and s: "st' = write_file (path_join dir stored) data (tick st)"
      by (cases stop; simp)+
    show ?thesis
    proof (cases "stop = PartTooLarge \<or> stop = NoTerminator")
      case True
      with r obtain s e where "res = Inl (upload_failed s e files)" by (cases stop) auto
      then show ?thesis using ok(3) n s unfolding stored_def by (intro cut [of s e orig data]) simp_all
    next
      case False
      with r have "res = Inl (upload_ok (files @ [?f])) \<or> (\<exists>r. res = Inr (r, files @ [?f]))" by (cases stop) auto
      then show ?thesis using ok(3) n s by (intro saved [of ?f orig data]) (simp_all add: stored_def)
    qed
  qed
qed

lemma spool_part_inv:
  assumes "spool_part env dir limits d s files st = (res, st')" "upload_inv env dir limits st0 n st files"
  shows "case res of Inl r \<Rightarrow> upload_inv env dir limits st0 (Suc n) st' (mr_files r)
                   | Inr q \<Rightarrow> upload_inv env dir limits st0 (Suc n) st' (snd q)"
  using assms(1)
proof (cases rule: spool_part_cases)
  case (err s e)
  then show ?thesis using upload_inv_mono [OF upload_inv_tick [OF assms(2)]] upload_inv_mono [OF assms(2)] by auto
next
  case field
  then show ?thesis using upload_inv_mono [OF assms(2), of "Suc n"] by auto
next
  case (cut orig c s e)
  then show ?thesis using upload_inv_mono [OF upload_inv_write [OF assms(2) cut(2,3)], of "Suc n"] by simp
next
  case (saved orig f c)
  then show ?thesis using upload_inv_saved [OF assms(2) saved(2-6)] by auto
qed

lemma spool_parts_inv:
  "spool_parts env dir limits delimiter s n files st = (r, st') \<Longrightarrow>
   upload_inv env dir limits st0 n st files \<Longrightarrow> n \<le> ml_maxParts limits \<Longrightarrow>
   upload_inv env dir limits st0 (ml_maxParts limits) st' (mr_files r)"
proof (induction env dir limits delimiter s n files st rule: spool_parts.induct)
  case (1 env dir limits delimiter s n files st)
  note unfold = spool_parts.simps [of env dir limits delimiter s n files st]
  note keep = upload_inv_mono [OF "1.prems"(2,3)]
  show ?case
  proof (cases "ml_maxParts limits < n + 1")
    case True
    with "1.prems"(1) keep show ?thesis by (auto simp: unfold)
  next
    case False
    obtain res st1 where part: "spool_part env dir limits delimiter s files st = (res, st1)" by fastforce
    note inv = spool_part_inv [OF part "1.prems"(2)]
    show ?thesis
    proof (cases res)
      case (Inl x)
      with "1.prems"(1) False part have "r = x" "st' = st1" by (auto simp: unfold)
      with inv Inl False show ?thesis by (auto intro: upload_inv_mono)
    next
      case (Inr q)
      obtain rest files' where q: "q = (rest, files')" by (cases q)
      with "1.prems"(1) False part Inr
      have "spool_parts env dir limits delimiter rest (n + 1) files' st1 = (r, st')" by (simp add: unfold)
      then show ?thesis
        using "1.IH" [OF False part [symmetric] Inr q [symmetric]] inv Inr q False by simp
    qed
  qed
qed

lemma upload_inv_start: "upload_inv env dir limits st 0 st []"
  by (simp add: upload_inv_def)

lemma saveUploads_inv:
  assumes "saveUploads env body ct dir limits st = (res, st')"
  shows "case res of Inl e \<Rightarrow> st' = st | Inr r \<Rightarrow> upload_inv env dir limits st (ml_maxParts limits) st' (mr_files r)"
proof -
  note start = upload_inv_mono [OF upload_inv_start le0]
  show ?thesis
  proof (cases "\<exists>b pos. extractBoundary ct = Some b \<and> \<not> (ml_maxParts limits = 0 \<or> ml_maxFileBytes limits = 0) \<and>
      ue_mkdir env dir \<and> find_str body (''--'' @ b) = Some pos")
    case True
    then obtain b pos where b: "extractBoundary ct = Some b" "\<not> (ml_maxParts limits = 0 \<or> ml_maxFileBytes limits = 0)"
      "ue_mkdir env dir" "find_str body (''--'' @ b) = Some pos" by (elim exE conjE) (rule that)
    obtain r st1 where r: "save_parts env dir limits (''--'' @ b) body pos 0 [] st = (r, st1)" by fastforce
    with b assms have "res = Inr r" "st' = st1" by (simp_all add: saveUploads_def)
    with save_parts_inv [OF r upload_inv_start le0] show ?thesis by simp
  next
    case False
    with assms start show ?thesis
      by (auto simp: saveUploads_def split: option.splits if_splits)
  qed
qed

lemma saveUploadsFromSpoolFile_inv:
  assumes "saveUploadsFromSpoolFile env spool ct dir limits st = (res, st')"
  shows "case res of Inl e \<Rightarrow> st' = st | Inr r \<Rightarrow> upload_inv env dir limits st (ml_maxParts limits) st' (mr_files r)"
proof -
  note start = upload_inv_mono [OF upload_inv_start le0]
  show ?thesis
  proof (cases "\<exists>b whole rest. extractBoundary ct = Some b \<and> \<not> (ml_maxParts limits = 0 \<or> ml_maxFileBytes limits = 0) \<and>
      spool = Some whole \<and> ue_mkdir env dir \<and> getlineClean (Some whole) = Some (''--'' @ b, rest)")
    case True
    then obtain b whole rest where b: "extractBoundary ct = Some b"
      "\<not> (ml_maxParts limits = 0 \<or> ml_maxFileBytes limits = 0)" "spool = Some whole"
      "ue_mkdir env dir" "getlineClean (Some whole) = Some (''--'' @ b, rest)" by (elim exE conjE) (rule that)
    obtain r st1 where r: "spool_parts env dir limits (''--'' @ b) rest 0 [] st = (r, st1)" by fastforce
    with b assms have "res = Inr r" "st' = st1" by (simp_all add: saveUploadsFromSpoolFile_def)
    with spool_parts_inv [OF r upload_inv_start le0] show ?thesis by simp
  next
    case False
    with assms start show ?thesis
      by (auto simp: saveUploadsFromSpoolFile_def split: option.splits if_splits)
  qed
qed

text \<open>
  C13: whatever the body and its headers are, and whether the upload is accepted or refused halfway,
  both parsers only create or overwrite files directly under the upload directory, with a name of
  safe characters that does not start with a dot and has no blocked extension (such as \<open>.php\<close>, in
  any case of letters), and with at most \<open>maxFileBytes\<close> bytes. Every file of the result has such a
  name and there are at most \<open>maxParts\<close> of them. With a clock that never repeats a reading, every
  file of the result is on disk with the size that is reported.
\<close>

theorem uploads_safe:
  assumes "saveUploads env body ct dir limits st = (Inr r, st') \<or>
           saveUploadsFromSpoolFile env spool ct dir limits st = (Inr r, st')"
  shows "(\<forall>p. us_store st' p = us_store st p \<or>
            (\<exists>n c. stored_ok n \<and> p = path_join dir n \<and> us_store st' p = Some c \<and> length c \<le> ml_maxFileBytes limits)) \<and>
         length (mr_files r) \<le> ml_maxParts limits \<and>
         (\<forall>f\<in>set (mr_files r). stored_ok (sf_storedFilename f) \<and> sf_storedPath f = path_join dir (sf_storedFilename f) \<and>
            sf_size f \<le> ml_maxFileBytes limits) \<and>
         (inj (ue_clock env) \<longrightarrow>
            (\<forall>f\<in>set (mr_files r). \<exists>c. us_store st' (sf_storedPath f) = Some c \<and> length c = sf_size f))"
proof -
  have "upload_inv env dir limits st (ml_maxParts limits) st' (mr_files r)"
    using assms saveUploads_inv [of env body ct dir limits st "Inr r" st']
      saveUploadsFromSpoolFile_inv [of env spool ct dir limits st "Inr r" st'] by auto
  then show ?thesis
    by (auto simp: upload_inv_def upload_frame_def list_all_iff saved_ok_def on_disk_def)
qed

section \<open>What the spool file loses\<close>

text \<open>
  The content is read line by line, and a line loses one carriage return at its end; only line
  feeds are written between the lines.
\<close>

fun crlf_to_lf :: "string \<Rightarrow> string" where
  "crlf_to_lf [] = []"
| "crlf_to_lf (c # s) = (if c = CR \<and> s \<noteq> [] \<and> hd s = LF then crlf_to_lf s else c # crlf_to_lf s)"

text \<open>Neither the boundary nor the closing one is a line of the content.\<close>

definition no_boundary_line :: "string \<Rightarrow> string \<Rightarrow> bool" where
  "no_boundary_line delimiter content \<longleftrightarrow>
     (\<forall>l\<in>set (all_lines_delim LF (content @ crlf)). drop_cr l \<noteq> delimiter \<and> drop_cr l \<noteq> delimiter @ ''--'')"

lemma crlf_to_lf_line: "LF \<notin> set l \<Longrightarrow> crlf_to_lf (l @ LF # s) = drop_cr l @ LF # crlf_to_lf s"
proof (induction l)
  case Nil
  then show ?case by (simp add: drop_cr_def uc_def)
next
  case (Cons c l)
  then have IH: "crlf_to_lf (l @ LF # s) = drop_cr l @ LF # crlf_to_lf s" by simp
  show ?case
  proof (cases l)
    case Nil
    then show ?thesis using IH by (auto simp: drop_cr_def uc_def)
  next
    case (Cons d k)
    with Cons.prems have "d \<noteq> LF" by auto
    then have "crlf_to_lf ((c # l) @ LF # s) = c # crlf_to_lf (l @ LF # s)" using Cons by simp
    also have "\<dots> = drop_cr (c # l) @ LF # crlf_to_lf s" using IH Cons by (simp add: drop_cr_def)
    finally show ?thesis .
  qed
qed

lemma crlf_to_lf_last: "LF \<notin> set l \<Longrightarrow> crlf_to_lf l = l"
proof (induction l)
  case (Cons c l)
  then have "l = [] \<or> hd l \<noteq> LF" by (cases l) auto
  with Cons show ?case by auto
qed simp

lemma drop_cr_crlf: "drop_cr (l @ [CR]) = l"
  by (simp add: drop_cr_def)

lemma getlineClean_line: "LF \<notin> set l \<Longrightarrow> getlineClean (Some (l @ LF # r)) = Some (drop_cr l, r)"
  by (simp add: getlineClean_def getline_delim_append)

lemma spool_content_boundary:
  assumes "LF \<notin> set e" "e = d \<or> e = d @ ''--''" "c + length x \<le> l"
  shows "spool_content d l (e @ crlf @ rest) (Some x) c dt =
           (if e = d @ ''--'' then FinalPart else NextPart rest, c + length x, dt @ x)"
proof -
  have "getlineClean (Some (e @ crlf @ rest)) = Some (e, rest)"
    using getlineClean_line [of "e @ [CR]" rest] assms(1) by (simp add: drop_cr_crlf crlf_def)
  with assms(2,3) show ?thesis by (subst spool_content.simps) (auto simp: Let_def)
qed

lemma spool_content_line:
  assumes "LF \<notin> set line" "drop_cr line \<noteq> d" "drop_cr line \<noteq> d @ ''--''"
    "c + length (case p of None \<Rightarrow> [] | Some x \<Rightarrow> x @ [LF]) \<le> l"
  shows "spool_content d l (line @ LF # r) p c dt =
           spool_content d l r (Some (drop_cr line)) (c + length (case p of None \<Rightarrow> [] | Some x \<Rightarrow> x @ [LF]))
             (dt @ (case p of None \<Rightarrow> [] | Some x \<Rightarrow> x @ [LF]))"
  using getlineClean_line [OF assms(1), of r] assms(2-4)
  by (subst spool_content.simps) (cases p; simp)

lemma spool_content_text:
  assumes d: "LF \<notin> set e" "e = d \<or> e = d @ ''--''"
  shows "no_boundary_line d content \<Longrightarrow>
    c + length (case p of None \<Rightarrow> [] | Some x \<Rightarrow> x @ [LF]) + length (crlf_to_lf content) \<le> l \<Longrightarrow>
    spool_content d l (content @ crlf @ e @ crlf @ rest) p c dt =
      (if e = d @ ''--'' then FinalPart else NextPart rest,
       c + length (case p of None \<Rightarrow> [] | Some x \<Rightarrow> x @ [LF]) + length (crlf_to_lf content),
       dt @ (case p of None \<Rightarrow> [] | Some x \<Rightarrow> x @ [LF]) @ crlf_to_lf content)"
proof (induction "length content" arbitrary: content p c dt rule: less_induct)
  case less
  let ?p = "case p of None \<Rightarrow> [] | Some x \<Rightarrow> x @ [LF]"
  show ?case
  proof (cases "LF \<in> set content")
    case False
    then have "all_lines_delim LF ((content @ [CR]) @ LF # []) = [content @ [CR]]"
      by (subst all_lines_append) auto
    with less.prems(1) have "content \<noteq> d" "content \<noteq> d @ ''--''"
      by (auto simp: no_boundary_line_def crlf_def drop_cr_crlf)
    then show ?thesis
      using spool_content_line [of "content @ [CR]" d c p l "e @ crlf @ rest" dt] False less.prems(2)
        spool_content_boundary [OF d, of "c + length ?p" content l rest "dt @ ?p"]
      by (simp add: drop_cr_crlf crlf_to_lf_last crlf_def)
  next
    case True
    then obtain line r where s: "content = line @ LF # r" "LF \<notin> set line" by (auto dest: split_list_first)
    have "all_lines_delim LF (content @ crlf) = line # all_lines_delim LF (r @ crlf)"
      using s by (simp add: all_lines_append)
    with less.prems(1) have b: "drop_cr line \<noteq> d" "drop_cr line \<noteq> d @ ''--''" "no_boundary_line d r"
      by (simp_all add: no_boundary_line_def)
    note lf = crlf_to_lf_line [OF s(2), of r]
    have "length r < length content" using s by simp
    note IH = less.hyps [OF this b(3), of "c + length ?p" "Some (drop_cr line)" "dt @ ?p"]
    show ?thesis
      using spool_content_line [OF s(2) b(1,2), of c p l "r @ crlf @ e @ crlf @ rest" dt] IH less.prems(2) lf s(1)
      by simp
  qed
qed

lemma crlf_to_lf_length: "length (crlf_to_lf s) \<le> length s"
  by (induction s) auto

lemma crlf_to_lf_id: "crlf_to_lf s = s \<longleftrightarrow> \<not> sublist crlf s"
proof (induction s)
  case Nil
  then show ?case by (simp add: crlf_def)
next
  case (Cons c s)
  have sub: "sublist crlf (c # s) \<longleftrightarrow> (c = CR \<and> s \<noteq> [] \<and> hd s = LF) \<or> sublist crlf s"
    by (cases s) (auto simp: sublist_Cons_right crlf_def)
  have "crlf_to_lf s \<noteq> c # s"
    using crlf_to_lf_length [of s] by (metis impossible_Cons)
  with Cons sub show ?case by auto
qed

text \<open>
  C26: a file of a streamed upload, up to the first line that is the boundary, is stored with every
  carriage return in front of a line feed removed: it is stored as sent if and only if it has no
  carriage return and line feed in sequence, so a binary file with such a pair is changed.
\<close>

theorem spool_file_content:
  assumes "LF \<notin> set delimiter" "no_boundary_line delimiter content" "length (crlf_to_lf content) \<le> limit"
  shows "spool_content delimiter limit (content @ crlf @ delimiter @ crlf @ rest) None 0 [] =
           (NextPart rest, length (crlf_to_lf content), crlf_to_lf content) \<and>
         spool_content delimiter limit (content @ crlf @ delimiter @ ''--'' @ crlf) None 0 [] =
           (FinalPart, length (crlf_to_lf content), crlf_to_lf content) \<and>
         (crlf_to_lf content = content \<longleftrightarrow> \<not> sublist crlf content)"
proof -
  have e: "LF \<notin> set (delimiter @ ''--'')" using assms(1) by (simp add: uc_def)
  show ?thesis
    using spool_content_text [OF assms(1) disjI1 [OF refl] assms(2), of 0 None limit rest "[]"]
      spool_content_text [OF e disjI2 [OF refl] assms(2), of 0 None limit "[]" "[]"] assms(3)
    by (simp add: crlf_to_lf_id)
qed

text \<open>The first bytes of a PNG file lose one byte.\<close>

definition png_signature :: string where
  "png_signature = [CHR 0x89, CHR ''P'', CHR ''N'', CHR ''G'', CR, LF, CHR 0x1A, LF]"

lemma spool_file_content_witness:
  "spool_content ''--b'' 100 (png_signature @ crlf @ ''--b--'' @ crlf) None 0 [] =
     (FinalPart, 7, [CHR 0x89, CHR ''P'', CHR ''N'', CHR ''G'', LF, CHR 0x1A, LF])"
proof -
  have c: "crlf_to_lf png_signature = [CHR 0x89, CHR ''P'', CHR ''N'', CHR ''G'', LF, CHR 0x1A, LF]" by code_simp
  have l: "LF \<notin> set ''--b''" and n: "no_boundary_line ''--b'' png_signature" by code_simp+
  show ?thesis using spool_file_content [OF l n, of 100 "[]"] by (simp add: c)
qed

section \<open>An upload\<close>

definition example_upload_env :: upload_env where
  "example_upload_env = \<lparr>ue_mkdir = (\<lambda>d. True), ue_creatable = (\<lambda>p. True), ue_clock = int\<rparr>"

definition example_upload :: string where
  "example_upload =
     ''--b'' @ crlf @ ''Content-Disposition: form-data; name='' @ [DQUOTE] @ ''f'' @ [DQUOTE] @ ''; filename='' @
     [DQUOTE] @ ''../a.txt'' @ [DQUOTE] @ crlf @ crlf @ ''hi'' @ crlf @ ''--b--'' @ crlf"

definition example_multipart_type :: string where
  "example_multipart_type = ''multipart/form-data; boundary=b''"

lemma example_upload_result:
  "(case saveUploads example_upload_env example_upload example_multipart_type ''/up'' default_multipart_limits
           \<lparr>us_store = Map.empty, us_ticks = 7\<rparr> of
      (Inr r, st') \<Rightarrow> mr_ok r \<and> map sf_storedPath (mr_files r) = [''/up/7_a.txt''] \<and> us_store st' ''/up/7_a.txt'' = Some ''hi''
    | _ \<Rightarrow> False)"
  by code_simp

lemma example_spool_result:
  "(case saveUploadsFromSpoolFile example_upload_env (Some example_upload) example_multipart_type ''/up''
           default_multipart_limits \<lparr>us_store = Map.empty, us_ticks = 7\<rparr> of
      (Inr r, st') \<Rightarrow> mr_ok r \<and> map sf_storedPath (mr_files r) = [''/up/7_a.txt''] \<and> us_store st' ''/up/7_a.txt'' = Some ''hi''
    | _ \<Rightarrow> False)"
  by code_simp

lemma uploads_safe_witness:
  "\<exists>r st'. saveUploads example_upload_env example_upload example_multipart_type ''/up'' default_multipart_limits
             \<lparr>us_store = Map.empty, us_ticks = 7\<rparr> = (Inr r, st') \<and> mr_ok r \<and>
     (\<forall>p. us_store st' p \<noteq> None \<longrightarrow> (\<exists>n. stored_ok n \<and> p = path_join ''/up'' n)) \<and> length (mr_files r) \<le> 16 \<and>
     (\<exists>c. us_store st' ''/up/7_a.txt'' = Some c \<and> c = ''hi'')"
proof -
  let ?st = "\<lparr>us_store = Map.empty, us_ticks = 7\<rparr>"
  obtain r st' where r: "saveUploads example_upload_env example_upload example_multipart_type ''/up''
      default_multipart_limits ?st = (Inr r, st')" "mr_ok r" "us_store st' ''/up/7_a.txt'' = Some ''hi''"
    using example_upload_result by (auto split: prod.splits sum.splits)
  note safe = uploads_safe [OF disjI1 [OF r(1)]]
  have "\<forall>p. us_store st' p \<noteq> None \<longrightarrow> (\<exists>n. stored_ok n \<and> p = path_join ''/up'' n)"
  proof (intro allI impI)
    fix p
    assume p: "us_store st' p \<noteq> None"
    have "us_store st' p = us_store ?st p \<or>
      (\<exists>n c. stored_ok n \<and> p = path_join ''/up'' n \<and> us_store st' p = Some c \<and>
        length c \<le> ml_maxFileBytes default_multipart_limits)" using safe by blast
    moreover have "us_store ?st p = None" by simp
    ultimately show "\<exists>n. stored_ok n \<and> p = path_join ''/up'' n" using p by metis
  qed
  moreover have "length (mr_files r) \<le> ml_maxParts default_multipart_limits" using safe by blast
  then have "length (mr_files r) \<le> 16" by (simp add: default_multipart_limits_def)
  ultimately show ?thesis using r by blast
qed

text \<open>
  The key is looked for anywhere in the header, so \<open>filename="..."\<close> in front of \<open>name="..."\<close> is
  taken for the name of the field.
\<close>

lemma field_name_from_filename:
  "dispositionValue (''form-data; filename='' @ [DQUOTE] @ ''a.txt'' @ [DQUOTE] @ ''; name='' @ [DQUOTE] @ ''f'' @ [DQUOTE]) ''name''
     = ''a.txt''"
  by code_simp

end
