(* ===== verification/RecordCodec.thy ===== *)
theory RecordCodec
  imports Main
begin

text \<open>
  The contract of a self-delimiting encoding, as the FastCGI protocol uses it twice (for
  name-value pairs and for records): a decoder takes one item from the front of a stream and
  hands back the rest. Streams of items are decoded until they end, or up to an item that
  closes them.
\<close>

section \<open>Reading a stream of items\<close>

text \<open>The number is a bound on the items; it is decreased for each of them.\<close>

fun get_all :: "(string \<Rightarrow> ('r \<times> string) option) \<Rightarrow> nat \<Rightarrow> string \<Rightarrow> 'r list option" where
  "get_all get 0 s = (if s = [] then Some [] else None)"
| "get_all get (Suc n) s =
     (if s = [] then Some []
      else case get s of None \<Rightarrow> None | Some (r, s') \<Rightarrow> map_option ((#) r) (get_all get n s'))"

fun get_until ::
  "(string \<Rightarrow> ('r \<times> string) option) \<Rightarrow> ('r \<Rightarrow> bool) \<Rightarrow> nat \<Rightarrow> string \<Rightarrow> ('r list \<times> string) option" where
  "get_until get stop 0 s = None"
| "get_until get stop (Suc n) s =
     (case get s of
        None \<Rightarrow> None
      | Some (r, s') \<Rightarrow>
          if stop r then Some ([], s') else map_option (\<lambda>(rs, t). (r # rs, t)) (get_until get stop n s'))"

section \<open>The contract\<close>

locale codec =
  fixes valid :: "'r \<Rightarrow> bool" and put :: "'r \<Rightarrow> string" and get :: "string \<Rightarrow> ('r \<times> string) option"
  assumes get_put: "valid r \<Longrightarrow> get (put r @ s) = Some (r, s)"
    and put_nonempty: "put r \<noteq> []"
begin

lemma get_all_put: "list_all valid rs \<Longrightarrow> length rs \<le> n \<Longrightarrow> get_all get n (concat (map put rs)) = Some rs"
proof (induction rs arbitrary: n)
  case Nil
  then show ?case by (cases n) auto
next
  case (Cons r rs)
  then obtain m where m: "n = Suc m" by (cases n) auto
  with Cons show ?case by (simp add: get_put put_nonempty)
qed

lemma get_until_put:
  "list_all valid rs \<Longrightarrow> list_all (\<lambda>r. \<not> stop r) rs \<Longrightarrow> valid e \<Longrightarrow> stop e \<Longrightarrow> length rs < n \<Longrightarrow>
   get_until get stop n (concat (map put rs) @ put e @ s) = Some (rs, s)"
proof (induction rs arbitrary: n)
  case Nil
  then show ?case by (cases n) (auto simp: get_put)
next
  case (Cons r rs)
  then obtain m where m: "n = Suc m" by (cases n) auto
  with Cons show ?case by (simp add: get_put)
qed

text \<open>The encoding of a list determines the list.\<close>

lemma put_all_inject:
  assumes "list_all valid rs" "list_all valid rs'" "concat (map put rs) = concat (map put rs')"
  shows "rs = rs'"
proof -
  let ?n = "max (length rs) (length rs')"
  have "get_all get ?n (concat (map put rs)) = Some rs" "get_all get ?n (concat (map put rs')) = Some rs'"
    using assms(1,2) by (auto intro: get_all_put)
  then show ?thesis unfolding assms(3) by simp
qed

lemma put_length: "length rs \<le> length (concat (map put rs))"
proof (induction rs)
  case Nil
  show ?case by (simp only: list.size le0)
next
  case (Cons r rs)
  have "0 < length (put r)" using put_nonempty [of r] by (rule contrapos_np) (cases "put r"; simp)
  with Cons.IH have "Suc (length rs) \<le> length (put r) + length (concat (map put rs))" by linarith
  then show ?case by (simp only: list.map concat.simps length_append list.size add_0_right add_Suc_right)
qed

end

end
