(* ===== verification/FastCgi.thy ===== *)
theory FastCgi
  imports RecordCodec Search Http
begin

text \<open>
  \<open>src/src/FastCgiClient.cpp\<close> and \<open>.hpp\<close>: the client that runs PHP scripts. A buffer of bytes
  is a string, and a cast to \<open>unsigned char\<close> is \<^const>\<open>char_of\<close>, which takes its argument
  modulo 256. The network is the environment of a call: whether the connection could be made and
  what the other side sends back, up to the end of the connection or the receive timeout.
\<close>

unbundle bit_operations_syntax

section \<open>Constants and structures\<close>

definition FCGI_VERSION_1 :: nat where "FCGI_VERSION_1 = 1"
definition FCGI_BEGIN_REQUEST :: nat where "FCGI_BEGIN_REQUEST = 1"
definition FCGI_END_REQUEST :: nat where "FCGI_END_REQUEST = 3"
definition FCGI_PARAMS :: nat where "FCGI_PARAMS = 4"
definition FCGI_STDIN :: nat where "FCGI_STDIN = 5"
definition FCGI_STDOUT :: nat where "FCGI_STDOUT = 6"
definition FCGI_STDERR :: nat where "FCGI_STDERR = 7"
definition FCGI_RESPONDER :: nat where "FCGI_RESPONDER = 1"
definition REQUEST_ID :: nat where "REQUEST_ID = 1"

lemmas fcgi_constants =
  FCGI_VERSION_1_def FCGI_BEGIN_REQUEST_def FCGI_END_REQUEST_def FCGI_PARAMS_def FCGI_STDIN_def
  FCGI_STDOUT_def FCGI_STDERR_def FCGI_RESPONDER_def REQUEST_ID_def

record fcgi_response =
  fr_status :: int
  fr_headers :: header_list
  fr_body :: string

record fcgi_request =
  fq_scriptFilename :: string
  fq_requestMethod :: string
  fq_requestUri :: string
  fq_queryString :: string
  fq_documentRoot :: string
  fq_serverName :: string
  fq_serverProtocol :: string
  fq_remoteAddr :: string
  fq_contentType :: string
  fq_body :: string

section \<open>Encoding\<close>

definition appendLength :: "string \<Rightarrow> nat \<Rightarrow> string" where
  "appendLength out len =
     (if len < 128 then out @ [char_of len]
      else out @ [char_of ((len div 2 ^ 24) OR 128), char_of (len div 2 ^ 16), char_of (len div 2 ^ 8), char_of len])"

definition append_pair :: "string \<Rightarrow> string \<times> string \<Rightarrow> string" where
  "append_pair out p =
     (case p of (name, val) \<Rightarrow> appendLength (appendLength out (length name)) (length val) @ name @ val)"

text \<open>The pairs in the order in which the map is iterated over.\<close>

definition encodeNameValuePairs :: "header_list \<Rightarrow> string" where
  "encodeNameValuePairs params = foldl append_pair [] params"

definition appendRecord :: "string \<Rightarrow> nat \<Rightarrow> nat \<Rightarrow> string \<Rightarrow> string" where
  "appendRecord out type requestId content =
     (let padding = (8 - length content mod 8) mod 8
      in out @
         [char_of FCGI_VERSION_1, char_of type, char_of (requestId div 2 ^ 8), char_of requestId,
          char_of (length content div 2 ^ 8), char_of (length content), char_of padding, char_of (0::nat)] @
         content @ replicate padding (char_of (0::nat)))"

definition buildBeginRequest :: string where
  "buildBeginRequest =
     appendRecord [] FCGI_BEGIN_REQUEST REQUEST_ID
       ([char_of (FCGI_RESPONDER div 2 ^ 8), char_of FCGI_RESPONDER, char_of (0::nat)] @ replicate 5 (char_of (0::nat)))"

text \<open>The loop over the pieces of at most 65535 bytes, from an offset on.\<close>

definition chunkSize :: nat where "chunkSize = 65535"

function append_chunks :: "nat \<Rightarrow> string \<Rightarrow> nat \<Rightarrow> string \<Rightarrow> string" where
  "append_chunks type data offset out =
     (if offset < length data
      then append_chunks type data (offset + chunkSize) (appendRecord out type REQUEST_ID (substr data offset chunkSize))
      else out)"
  by pat_completeness auto
termination
  by (relation "measure (\<lambda>(t, d, off, out). length d - off)") (auto simp: chunkSize_def)

declare append_chunks.simps [simp del]

definition buildParams :: "header_list \<Rightarrow> string" where
  "buildParams params =
     appendRecord (append_chunks FCGI_PARAMS (encodeNameValuePairs params) 0 []) FCGI_PARAMS REQUEST_ID []"

definition buildStdin :: "string \<Rightarrow> string" where
  "buildStdin body = appendRecord (append_chunks FCGI_STDIN body 0 []) FCGI_STDIN REQUEST_ID []"

section \<open>The reply\<close>

definition trimCrlf :: "string \<Rightarrow> string" where
  "trimCrlf s = strip_back (\<lambda>c. c = CR \<or> c = LF) s"

definition add_cgi_header :: "fcgi_response \<Rightarrow> string \<Rightarrow> fcgi_response" where
  "add_cgi_header response line0 =
     (let line = trimCrlf line0
      in case find_char line CHR '':'' of
           None \<Rightarrow> response
         | Some colon \<Rightarrow>
             let name = substr line 0 colon; val = strip_front (\<lambda>c. c = SP) (drop (colon + 1) line)
             in if name = ''Status''
                then response\<lparr>fr_status := (case stoi val of Inl e \<Rightarrow> 200 | Inr s \<Rightarrow> s)\<rparr>
                else response\<lparr>fr_headers := AList.update name val (fr_headers response)\<rparr>)"

definition parseCgiResponse :: "string \<Rightarrow> fcgi_response" where
  "parseCgiResponse raw =
     (let (split, sepLen) = (case find_str raw (crlf @ crlf) of
             Some i \<Rightarrow> (Some i, 4) | None \<Rightarrow> (find_str raw [LF, LF], 2))
      in case split of
           None \<Rightarrow> \<lparr>fr_status = 200, fr_headers = [], fr_body = raw\<rparr>
         | Some i \<Rightarrow>
             foldl add_cgi_header \<lparr>fr_status = 200, fr_headers = [], fr_body = drop (i + sepLen) raw\<rparr>
               (all_lines_delim LF (substr raw 0 i)))"

text \<open>
  The records of the reply. A header that cannot be read in full ends the loop; content or
  padding that cannot be read in full throws.
\<close>

definition read_u16 :: "char \<Rightarrow> char \<Rightarrow> nat" where
  "read_u16 hi lo = uc hi * 2 ^ 8 + uc lo"

function receive :: "string \<Rightarrow> string \<Rightarrow> string \<Rightarrow> string + string \<times> string" where
  "receive s stdoutData stderrData =
     (if length s < 8 then Inr (stdoutData, stderrData)
      else
        let type = uc (s ! 1); requestId = read_u16 (s ! 2) (s ! 3);
            contentLength = read_u16 (s ! 4) (s ! 5); paddingLength = uc (s ! 6);
            content = substr s 8 contentLength;
            rest = drop (8 + contentLength + paddingLength) s
        in if requestId \<noteq> REQUEST_ID \<and> type \<noteq> FCGI_END_REQUEST then Inl ''FastCGI request id mismatch''
           else if length s < 8 + contentLength + paddingLength then Inl ''End of file''
           else if type = FCGI_STDOUT then receive rest (stdoutData @ content) stderrData
           else if type = FCGI_STDERR then receive rest stdoutData (stderrData @ content)
           else if type = FCGI_END_REQUEST then Inr (stdoutData, stderrData)
           else receive rest stdoutData stderrData)"
  by pat_completeness auto
termination
  by (relation "measure (\<lambda>(s, a, b). length s)") auto

declare receive.simps [simp del]

section \<open>A request\<close>

definition script_path :: "string \<Rightarrow> string" where
  "script_path p = map (\<lambda>c. if c = BACKSLASH then CHR ''/'' else c) p"

definition fcgi_params :: "fcgi_request \<Rightarrow> header_list" where
  "fcgi_params request =
     [(''GATEWAY_INTERFACE'', ''CGI/1.1''),
      (''REQUEST_METHOD'', fq_requestMethod request),
      (''SCRIPT_FILENAME'', script_path (fq_scriptFilename request)),
      (''SCRIPT_NAME'', fq_requestUri request),
      (''REQUEST_URI'', fq_requestUri request),
      (''QUERY_STRING'', fq_queryString request),
      (''DOCUMENT_ROOT'', fq_documentRoot request),
      (''SERVER_SOFTWARE'', ''HydrogenHttpd''),
      (''SERVER_PROTOCOL'', fq_serverProtocol request),
      (''SERVER_NAME'', fq_serverName request),
      (''REMOTE_ADDR'', fq_remoteAddr request),
      (''REDIRECT_STATUS'', ''200''),
      (''CONTENT_LENGTH'', to_string (length (fq_body request)))] @
     (if fq_contentType request \<noteq> [] then [(''CONTENT_TYPE'', fq_contentType request)] else [])"

definition request_wire :: "(header_list \<Rightarrow> header_list) \<Rightarrow> fcgi_request \<Rightarrow> string" where
  "request_wire ord request =
     buildBeginRequest @ buildParams (ord (fcgi_params request)) @ buildStdin (fq_body request)"

text \<open>
  The other side: \<^const>\<open>None\<close> when no connection could be made, otherwise what it does with the
  bytes it is sent, \<^const>\<open>None\<close> when it does not take them.
\<close>

type_synonym fcgi_backend = "(string \<Rightarrow> string option) option"

definition fcgi_execute ::
  "(header_list \<Rightarrow> header_list) \<Rightarrow> fcgi_backend \<Rightarrow> fcgi_request \<Rightarrow> string + fcgi_response" where
  "fcgi_execute ord backend request =
     (case backend of
        None \<Rightarrow> Inl ''connect failed''
      | Some serve \<Rightarrow>
          (case serve (request_wire ord request) of
             None \<Rightarrow> Inl ''write failed''
           | Some reply \<Rightarrow>
               (case receive reply [] [] of
                  Inl e \<Rightarrow> Inl e
                | Inr (stdoutData, stderrData) \<Rightarrow>
                    if stderrData \<noteq> [] \<and> stdoutData = [] then Inl (''FastCGI stderr: '' @ stderrData)
                    else Inr (parseCgiResponse stdoutData))))"

section \<open>What the protocol makes of the bytes\<close>

text \<open>
  The FastCGI specification, for the side that reads: name-value pairs with lengths of one or four
  bytes, records with a header of eight bytes, and a responder request as a begin record, a
  stream of parameters and a stream of input, each closed by an empty record.
\<close>

fun decode_length :: "string \<Rightarrow> (nat \<times> string) option" where
  "decode_length [] = None"
| "decode_length (c # s) =
     (if uc c < 128 then Some (uc c, s)
      else case s of
             d # e # f # r \<Rightarrow> Some (((uc c - 128) * 256 + uc d) * 65536 + uc e * 256 + uc f, r)
           | _ \<Rightarrow> None)"

definition unpack_pair :: "string \<Rightarrow> ((string \<times> string) \<times> string) option" where
  "unpack_pair s =
     (case decode_length s of
        None \<Rightarrow> None
      | Some (n, s1) \<Rightarrow>
          (case decode_length s1 of
             None \<Rightarrow> None
           | Some (v, s2) \<Rightarrow>
               if length s2 < n + v then None else Some ((take n s2, take v (drop n s2)), drop (n + v) s2)))"

record fcgi_record =
  rec_type :: nat
  rec_id :: nat
  rec_content :: string

definition decode_record :: "string \<Rightarrow> (fcgi_record \<times> string) option" where
  "decode_record s =
     (if length s < 8 \<or> uc (s ! 0) \<noteq> 1 then None
      else let n = read_u16 (s ! 4) (s ! 5); p = uc (s ! 6)
           in if length s < 8 + n + p then None
              else Some (\<lparr>rec_type = uc (s ! 1), rec_id = read_u16 (s ! 2) (s ! 3), rec_content = take n (drop 8 s)\<rparr>,
                         drop (8 + n + p) s))"

definition stream_of :: "nat \<Rightarrow> fcgi_record list \<Rightarrow> string option" where
  "stream_of type rs =
     (if list_all (\<lambda>r. rec_type r = type \<and> rec_id r = 1) rs then Some (concat (map rec_content rs)) else None)"

definition get_stream :: "nat \<Rightarrow> string \<Rightarrow> (string \<times> string) option" where
  "get_stream type s =
     (case get_until decode_record (\<lambda>r. rec_content r = []) (length s) s of
        None \<Rightarrow> None
      | Some (rs, t) \<Rightarrow> map_option (\<lambda>d. (d, t)) (stream_of type rs))"

definition decode_request :: "string \<Rightarrow> (header_list \<times> string) option" where
  "decode_request s =
     (case decode_record s of
        None \<Rightarrow> None
      | Some (b, s1) \<Rightarrow>
          if rec_type b \<noteq> 1 \<or> rec_id b \<noteq> 1 \<or> length (rec_content b) \<noteq> 8 \<or>
             read_u16 (rec_content b ! 0) (rec_content b ! 1) \<noteq> 1 \<or> uc (rec_content b ! 2) \<noteq> 0 then None
          else (case get_stream 4 s1 of
                  None \<Rightarrow> None
                | Some (params, s2) \<Rightarrow>
                    (case get_stream 5 s2 of
                       Some (body, []) \<Rightarrow> map_option (\<lambda>ps. (ps, body)) (get_all unpack_pair (length params) params)
                     | _ \<Rightarrow> None)))"

section \<open>The two codecs\<close>

lemma uc_char_of_mod: "uc (char_of n) = n mod 256"
  by (simp add: uc_def)

lemma or_128: "n < 128 \<Longrightarrow> n OR 128 = n + (128::nat)"
proof -
  assume n: "n < 128"
  have e: "(128::nat) = 2 ^ 7" by simp
  have b: "bit (128::nat) m \<longleftrightarrow> m = 7" for m
    unfolding e bit_exp_iff by auto
  have "\<not> bit n 7" using n by (simp add: bit_iff_odd)
  then show ?thesis using disjunctive_add [of n 128] b by metis
qed

lemma base_256: "(n div 16777216 * 256 + n div 65536 mod 256) * 65536 + n div 256 mod 256 * 256 + n mod 256 = (n::nat)"
proof -
  have "n div 16777216 * 256 + n div 65536 mod 256 = n div 65536"
    using div_mult_mod_eq [of "n div 65536" 256] by (simp add: div_mult2_eq [symmetric])
  moreover have "n div 65536 * 65536 + n div 256 mod 256 * 256 = n div 256 * 256"
    using div_mult_mod_eq [of "n div 256" 256] by (simp add: div_mult2_eq [symmetric])
  ultimately show ?thesis using div_mult_mod_eq [of n 256] by simp
qed

lemma decode_appendLength: "n < 2 ^ 31 \<Longrightarrow> decode_length (appendLength [] n @ s) = Some (n, s)"
proof (cases "n < 128")
  case True
  then show ?thesis by (simp add: appendLength_def)
next
  case False
  assume "n < 2 ^ 31"
  then have q: "n div 16777216 < 128" by (simp add: div_less_iff_less_mult)
  then have "uc (char_of (n div 16777216 OR 128)) = n div 16777216 + 128"
    by (simp add: or_128 uc_char_of_mod)
  with False base_256 [of n] show ?thesis by (simp add: appendLength_def uc_char_of_mod)
qed

lemma appendLength_append: "appendLength out n = out @ appendLength [] n"
  by (simp add: appendLength_def)

lemma append_pair_append: "append_pair out p = out @ append_pair [] p"
  by (cases p) (simp add: append_pair_def appendLength_append [of out] appendLength_append [of "appendLength [] _"]
      appendLength_append [of "out @ _"])

lemma encode_pairs_concat: "encodeNameValuePairs ps = concat (map (append_pair []) ps)"
proof -
  have "foldl append_pair out ps = out @ concat (map (append_pair []) ps)" for out
  proof (induction ps arbitrary: out)
    case (Cons p ps)
    show ?case using Cons.IH [of "append_pair out p"] append_pair_append [of out p] by simp
  qed simp
  then show ?thesis by (simp add: encodeNameValuePairs_def)
qed

definition short_pair :: "string \<times> string \<Rightarrow> bool" where
  "short_pair p \<longleftrightarrow> length (fst p) < 2 ^ 31 \<and> length (snd p) < 2 ^ 31"

interpretation pairs: codec short_pair "append_pair []" unpack_pair
proof unfold_locales
  fix p :: "string \<times> string" and s
  assume "short_pair p"
  moreover obtain n v where p: "p = (n, v)" by (cases p)
  ultimately have n: "length n < 2 ^ 31" and v: "length v < 2 ^ 31" by (simp_all add: short_pair_def)
  have "append_pair [] p @ s = appendLength [] (length n) @ appendLength [] (length v) @ n @ v @ s"
    using appendLength_append [of "appendLength [] (length n)" "length v"] by (simp add: append_pair_def p)
  then show "unpack_pair (append_pair [] p @ s) = Some (p, s)"
    using decode_appendLength [OF n] decode_appendLength [OF v] by (simp add: unpack_pair_def p)
next
  fix p :: "string \<times> string"
  show "append_pair [] p \<noteq> []" by (cases p) (simp add: append_pair_def appendLength_def)
qed

definition valid_record :: "fcgi_record \<Rightarrow> bool" where
  "valid_record r \<longleftrightarrow> rec_type r < 256 \<and> rec_id r < 65536 \<and> length (rec_content r) < 65536"

definition put_record :: "fcgi_record \<Rightarrow> string" where
  "put_record r = appendRecord [] (rec_type r) (rec_id r) (rec_content r)"

lemma appendRecord_append: "appendRecord out type i c = out @ appendRecord [] type i c"
  by (simp add: appendRecord_def Let_def)

lemma read_u16_of: "n < 65536 \<Longrightarrow> read_u16 (char_of (n div 2 ^ 8)) (char_of n) = n"
  by (simp add: read_u16_def uc_char_of_mod)

lemma drop_8: "drop (8 + k) (a # b # c # d # e # f # g # h # xs) = drop k xs"
  by (simp add: numeral_eq_Suc)

lemma decode_record_header:
  "decode_record (a # b # c # d # e # f # g # h # xs) =
     (if uc a \<noteq> 1 \<or> length xs < read_u16 e f + uc g then None
      else Some (\<lparr>rec_type = uc b, rec_id = read_u16 c d, rec_content = take (read_u16 e f) xs\<rparr>,
                 drop (read_u16 e f + uc g) xs))"
  using drop_8 [of 0 a b c d e f g h xs] drop_8 [of "read_u16 e f + uc g" a b c d e f g h xs]
  by (simp add: decode_record_def Let_def add.assoc)

interpretation records: codec valid_record put_record decode_record
proof unfold_locales
  fix r :: fcgi_record and s
  assume "valid_record r"
  moreover obtain t i c where r: "r = \<lparr>rec_type = t, rec_id = i, rec_content = c\<rparr>" by (cases r)
  ultimately have v: "t < 256" "i < 65536" "length c < 65536" by (simp_all add: valid_record_def)
  define p where "p = (8 - length c mod 8) mod 8"
  have "p < 8" unfolding p_def by (rule mod_less_divisor) simp
  then have u: "uc (char_of p) = p" "uc (char_of t) = t" "uc (char_of FCGI_VERSION_1) = 1"
    using v(1) by (simp_all add: FCGI_VERSION_1_def)
  have "put_record r @ s =
      char_of FCGI_VERSION_1 # char_of t # char_of (i div 2 ^ 8) # char_of i # char_of (length c div 2 ^ 8) #
      char_of (length c) # char_of p # char_of (0::nat) # (c @ replicate p (char_of (0::nat)) @ s)"
    by (simp add: put_record_def appendRecord_def r Let_def p_def)
  then show "decode_record (put_record r @ s) = Some (r, s)"
    by (simp only: decode_record_header u read_u16_of [OF v(2)] read_u16_of [OF v(3)]) (simp add: r)
next
  fix r :: fcgi_record
  show "put_record r \<noteq> []" by (simp add: put_record_def appendRecord_def Let_def)
qed

section \<open>What is sent\<close>

function pieces :: "nat \<Rightarrow> string \<Rightarrow> fcgi_record list" where
  "pieces type data =
     (if data = [] then []
      else \<lparr>rec_type = type, rec_id = 1, rec_content = take chunkSize data\<rparr> # pieces type (drop chunkSize data))"
  by pat_completeness auto
termination
  by (relation "measure (\<lambda>(t, d). length d)") (auto simp: chunkSize_def)

declare pieces.simps [simp del]

lemma append_chunks_pieces:
  "append_chunks type data offset out = out @ concat (map put_record (pieces type (drop offset data)))"
proof (induction type data offset out rule: append_chunks.induct)
  case (1 type data offset out)
  show ?case
  proof (cases "offset < length data")
    case False
    then show ?thesis by (simp add: append_chunks.simps [of type data offset] pieces.simps [of type "[]"])
  next
    case True
    have "put_record \<lparr>rec_type = type, rec_id = 1, rec_content = take chunkSize (drop offset data)\<rparr> =
        appendRecord [] type REQUEST_ID (substr data offset chunkSize)"
      by (simp add: put_record_def substr_def REQUEST_ID_def)
    with True "1.IH" [OF True] show ?thesis
      using appendRecord_append [of out type REQUEST_ID "substr data offset chunkSize"]
      by (simp add: append_chunks.simps [of type data offset] pieces.simps [of type "drop offset data"] add.commute)
  qed
qed

lemma stream_of_simps:
  "stream_of type [] = Some []"
  "stream_of type (\<lparr>rec_type = type, rec_id = 1, rec_content = c\<rparr> # rs) = map_option ((@) c) (stream_of type rs)"
  by (simp_all add: stream_of_def)

lemma pieces_spec:
  "type < 256 \<Longrightarrow>
   list_all valid_record (pieces type data) \<and> list_all (\<lambda>r. rec_content r \<noteq> []) (pieces type data) \<and>
   stream_of type (pieces type data) = Some data"
proof (induction type data rule: pieces.induct)
  case (1 type data)
  show ?case
  proof (cases "data = []")
    case True
    then show ?thesis by (simp add: pieces.simps [of type "[]"] stream_of_simps)
  next
    case False
    let ?r = "\<lparr>rec_type = type, rec_id = 1, rec_content = take chunkSize data\<rparr>"
    have p: "pieces type data = ?r # pieces type (drop chunkSize data)"
      using False by (simp add: pieces.simps [of type data])
    have "valid_record ?r" using "1.prems" by (simp add: valid_record_def chunkSize_def)
    moreover have "take chunkSize data \<noteq> []" using False by (simp add: chunkSize_def)
    ultimately show ?thesis using "1.IH" [OF False "1.prems"] unfolding p stream_of_simps by simp
  qed
qed

lemma get_stream_chunks:
  assumes "type < 256"
  shows "get_stream type (appendRecord (append_chunks type data 0 []) type REQUEST_ID [] @ s) = Some (data, s)"
proof -
  let ?e = "\<lparr>rec_type = type, rec_id = 1, rec_content = []\<rparr>" and ?ps = "pieces type data"
  note p = pieces_spec [OF assms, of data]
  have w: "appendRecord (append_chunks type data 0 []) type REQUEST_ID [] @ s =
      concat (map put_record ?ps) @ put_record ?e @ s"
    using appendRecord_append [of "append_chunks type data 0 []" type REQUEST_ID "[]"]
    by (simp add: append_chunks_pieces put_record_def REQUEST_ID_def)
  have "length ?ps \<le> length (concat (map put_record ?ps))" by (rule records.put_length)
  moreover have "0 < length (put_record ?e)" using records.put_nonempty [of ?e] by blast
  ultimately have n: "length ?ps < length (concat (map put_record ?ps) @ put_record ?e @ s)"
    unfolding length_append by linarith
  have "get_until decode_record (\<lambda>r. rec_content r = []) (length (concat (map put_record ?ps) @ put_record ?e @ s))
      (concat (map put_record ?ps) @ put_record ?e @ s) = Some (?ps, s)"
    using p assms n by (intro records.get_until_put) (simp_all add: valid_record_def)
  then show ?thesis using p by (simp add: get_stream_def w)
qed

lemma request_decoded:
  assumes "list_all short_pair params"
  shows "decode_request (buildBeginRequest @ buildParams params @ buildStdin body) = Some (params, body)"
proof -
  let ?c = "[char_of (FCGI_RESPONDER div 2 ^ 8), char_of FCGI_RESPONDER, char_of (0::nat)] @ replicate 5 (char_of (0::nat))"
  let ?b = "\<lparr>rec_type = 1, rec_id = 1, rec_content = ?c\<rparr>"
  have bw: "buildBeginRequest = put_record ?b"
    unfolding buildBeginRequest_def put_record_def by (simp add: FCGI_BEGIN_REQUEST_def REQUEST_ID_def)
  have valid: "valid_record ?b" by (simp add: valid_record_def)
  have d: "decode_record (buildBeginRequest @ s) = Some (?b, s)" for s
    unfolding bw by (rule records.get_put [OF valid])
  have c: "read_u16 (?c ! 0) (?c ! 1) = 1" "uc (?c ! 2) = 0" "length ?c = 8"
    by (simp_all add: read_u16_def uc_char_of_mod FCGI_RESPONDER_def)
  have p: "get_stream 4 (buildParams params @ s) = Some (encodeNameValuePairs params, s)" for s
    using get_stream_chunks [of FCGI_PARAMS "encodeNameValuePairs params" s] by (simp add: buildParams_def FCGI_PARAMS_def)
  have i: "get_stream 5 (buildStdin body) = Some (body, [])"
    using get_stream_chunks [of FCGI_STDIN body "[]"] by (simp add: buildStdin_def FCGI_STDIN_def)
  have "get_all unpack_pair (length (encodeNameValuePairs params)) (encodeNameValuePairs params) = Some params"
    unfolding encode_pairs_concat using assms by (intro pairs.get_all_put pairs.put_length)
  then show ?thesis using d p i c by (simp add: decode_request_def)
qed

text \<open>
  C27: a FastCGI application that reads the bytes of a request by the protocol gets exactly the
  parameters of the request, in the order they were written, and exactly its body, of any length
  (it is cut into records of at most 65535 bytes).
\<close>

theorem fcgi_request_decoded:
  assumes "list_all short_pair (ord (fcgi_params request))"
  shows "decode_request (request_wire ord request) = Some (ord (fcgi_params request), fq_body request)"
  unfolding request_wire_def using assms by (rule request_decoded)

section \<open>What is received\<close>

definition output_of :: "nat \<Rightarrow> fcgi_record list \<Rightarrow> string" where
  "output_of type rs = concat (map rec_content (filter (\<lambda>r. rec_type r = type) rs))"

lemma receive_record:
  assumes v: "valid_record r" and id: "rec_id r = 1 \<or> rec_type r = 3"
  shows "receive (put_record r @ s) out err =
    (if rec_type r = 6 then receive s (out @ rec_content r) err
     else if rec_type r = 7 then receive s out (err @ rec_content r)
     else if rec_type r = 3 then Inr (out, err) else receive s out err)"
proof -
  let ?w = "put_record r @ s"
  have "decode_record ?w = Some (r, s)" using v by (rule records.get_put)
  then have d: "\<not> length ?w < 8" "\<not> length ?w < 8 + read_u16 (?w ! 4) (?w ! 5) + uc (?w ! 6)"
    "r = \<lparr>rec_type = uc (?w ! 1), rec_id = read_u16 (?w ! 2) (?w ! 3), rec_content = substr ?w 8 (read_u16 (?w ! 4) (?w ! 5))\<rparr>"
    "s = drop (8 + read_u16 (?w ! 4) (?w ! 5) + uc (?w ! 6)) ?w"
    by (simp_all only: decode_record_def Let_def substr_def split: if_splits) simp_all
  from d(3) have r: "rec_type r = uc (?w ! 1)" "rec_id r = read_u16 (?w ! 2) (?w ! 3)"
    "rec_content r = substr ?w 8 (read_u16 (?w ! 4) (?w ! 5))"
    by (metis fcgi_record.select_convs(1), metis fcgi_record.select_convs(2), metis fcgi_record.select_convs(3))
  have i: "\<not> (rec_id r \<noteq> REQUEST_ID \<and> rec_type r \<noteq> FCGI_END_REQUEST)"
    using id by (auto simp: REQUEST_ID_def FCGI_END_REQUEST_def)
  show ?thesis
    by (simp only: receive.simps [of ?w] Let_def r [symmetric] d(4) [symmetric] d(1,2) i if_False)
      (simp add: FCGI_STDOUT_def FCGI_STDERR_def FCGI_END_REQUEST_def)
qed

lemma receive_records:
  "list_all (\<lambda>r. valid_record r \<and> rec_id r = 1 \<and> rec_type r \<noteq> 3) rs \<Longrightarrow>
   receive (concat (map put_record rs) @ s) out err = receive s (out @ output_of 6 rs) (err @ output_of 7 rs)"
proof (induction rs arbitrary: out err)
  case (Cons r rs)
  then show ?case by (simp add: receive_record output_of_def)
qed (simp add: output_of_def)

lemma receive_end: "valid_record e \<Longrightarrow> rec_type e = 3 \<Longrightarrow> receive (put_record e @ s) out err = Inr (out, err)"
  by (simp add: receive_record)

lemma receive_cut: "length s < 8 \<Longrightarrow> receive s out err = Inr (out, err)"
  by (simp add: receive.simps)


section \<open>The response of a script\<close>

definition cgi_line :: "string \<times> string \<Rightarrow> string" where
  "cgi_line h = fst h @ '': '' @ snd h"

definition cgi_header :: "string \<times> string \<Rightarrow> bool" where
  "cgi_header h \<longleftrightarrow>
     fst h \<noteq> ''Status'' \<and> set (fst h) \<inter> {CR, LF, CHR '':''} = {} \<and> set (snd h) \<inter> {CR, LF} = {} \<and>
     (snd h = [] \<or> hd (snd h) \<noteq> SP)"

definition render_cgi :: "nat \<Rightarrow> header_list \<Rightarrow> string \<Rightarrow> string" where
  "render_cgi status hs body = join_lines ((''Status: '' @ to_string status) # map cgi_line hs) @ crlf @ body"

lemma trimCrlf_fixed: "CR \<notin> set l \<Longrightarrow> LF \<notin> set l \<Longrightarrow> trimCrlf l = l"
  unfolding trimCrlf_def by (intro strip_back_fixed) (metis last_in_set)

lemma trimCrlf_cr: "CR \<notin> set l \<Longrightarrow> LF \<notin> set l \<Longrightarrow> trimCrlf (l @ [CR]) = l"
  using trimCrlf_fixed [of l] by (simp add: trimCrlf_def strip_back_def)

text \<open>The lines of a header block, each without its line end.\<close>

lemma header_block_lines:
  "ls \<noteq> [] \<Longrightarrow> (\<And>l. l \<in> set ls \<Longrightarrow> l \<noteq> [] \<and> CR \<notin> set l \<and> LF \<notin> set l) \<Longrightarrow>
   map trimCrlf (all_lines_delim LF (take (length (join_lines ls) - 2) (join_lines ls @ s))) = ls"
proof (induction ls)
  case (Cons l ls)
  note l = Cons.prems(2) [of l, simplified]
  show ?case
  proof (cases ls)
    case Nil
    then show ?thesis using l by (simp add: crlf_def all_lines_last trimCrlf_fixed)
  next
    case (Cons l' ls')
    have len: "2 \<le> length (join_lines ls)" using Cons by (simp add: crlf_def)
    have "take (length (join_lines (l # ls)) - 2) (join_lines (l # ls) @ s) =
        (l @ [CR]) @ LF # take (length (join_lines ls) - 2) (join_lines ls @ s)"
    proof -
      obtain k where k: "length (join_lines ls) = 2 + k" using len by (auto simp: le_iff_add)
      then show ?thesis by (simp add: crlf_def)
    qed
    then have "all_lines_delim LF (take (length (join_lines (l # ls)) - 2) (join_lines (l # ls) @ s)) =
        (l @ [CR]) # all_lines_delim LF (take (length (join_lines ls) - 2) (join_lines ls @ s))"
      using l by (simp only:) (subst all_lines_append; simp)
    then show ?thesis using Cons Cons.IH Cons.prems(2) l by (simp add: trimCrlf_cr)
  qed
qed simp

lemma add_cgi_header_trim: "add_cgi_header r (trimCrlf l) = add_cgi_header r l"
proof -
  have "trimCrlf (trimCrlf l) = trimCrlf l"
    unfolding trimCrlf_def using strip_back_last [of "\<lambda>c. c = CR \<or> c = LF" l] by (intro strip_back_fixed) blast
  then show ?thesis by (simp only: add_cgi_header_def)
qed

lemma add_cgi_header_line:
  assumes "cgi_header h"
  shows "add_cgi_header r (cgi_line h) = r\<lparr>fr_headers := AList.update (fst h) (snd h) (fr_headers r)\<rparr>"
proof -
  have t: "trimCrlf (cgi_line h) = fst h @ CHR '':'' # SP # snd h"
    using assms by (subst trimCrlf_fixed) (auto simp: cgi_line_def cgi_header_def)
  have "find_char (fst h @ CHR '':'' # SP # snd h) CHR '':'' = Some (length (fst h))"
    using assms by (intro find_char_append) (auto simp: cgi_header_def)
  moreover have "strip_front (\<lambda>c. c = SP) (SP # snd h) = snd h"
    using assms strip_front_fixed [of "snd h" "\<lambda>c. c = SP"] by (auto simp: cgi_header_def strip_front_def)
  ultimately show ?thesis using assms unfolding add_cgi_header_def t Let_def
    by (simp add: substr_def cgi_header_def)
qed

lemma add_cgi_status: "status < 2 ^ 31 \<Longrightarrow> add_cgi_header r (''Status: '' @ to_string status) = r\<lparr>fr_status := int status\<rparr>"
proof -
  assume s: "status < 2 ^ 31"
  have clean: "c \<noteq> CR \<and> c \<noteq> LF \<and> c \<noteq> SP" if "c \<in> set (to_string status)" for c
    using to_string_digits [OF that] by (auto simp: isdigit_def uc_def)
  then have t: "trimCrlf (''Status: '' @ to_string status) = ''Status'' @ CHR '':'' # SP # to_string status"
    by (subst trimCrlf_fixed) auto
  have f: "find_char (''Status'' @ CHR '':'' # SP # to_string status) CHR '':'' = Some (length ''Status'')"
    by (intro find_char_append) simp
  have "hd (to_string status) \<noteq> SP" using clean [of "hd (to_string status)"] by simp
  then have v: "strip_front (\<lambda>c. c = SP) (SP # to_string status) = to_string status"
    using strip_front_fixed [of "to_string status" "\<lambda>c. c = SP"] by (simp add: strip_front_def)
  have "int status < 2 ^ 31" using s by simp
  then have "stoi (to_string status) = Inr (int status)" by (simp add: stoi_def scan_number_digits)
  then show ?thesis using f v unfolding add_cgi_header_def t Let_def by (simp add: substr_def)
qed

lemma fold_cgi_headers:
  "list_all cgi_header hs \<Longrightarrow> distinct (map fst hs) \<Longrightarrow> (\<And>h. h \<in> set hs \<Longrightarrow> fst h \<notin> fst ` set (fr_headers r)) \<Longrightarrow>
   foldl add_cgi_header r (map cgi_line hs) = r\<lparr>fr_headers := fr_headers r @ hs\<rparr>"
proof (induction hs arbitrary: r)
  case (Cons h hs)
  have new: "fst h \<notin> fst ` set (fr_headers r)" using Cons.prems(3) by simp
  have "AList.update (fst h) (snd h) al = al @ [h]" if "fst h \<notin> fst ` set al" for al :: header_list
    using that by (induction al) auto
  with new Cons.prems(1) have "add_cgi_header r (cgi_line h) = r\<lparr>fr_headers := fr_headers r @ [h]\<rparr>"
    by (simp add: add_cgi_header_line)
  moreover have "foldl add_cgi_header (r\<lparr>fr_headers := fr_headers r @ [h]\<rparr>) (map cgi_line hs) =
      r\<lparr>fr_headers := (fr_headers r @ [h]) @ hs\<rparr>"
  proof -
    have "fst x \<notin> fst ` set (fr_headers (r\<lparr>fr_headers := fr_headers r @ [h]\<rparr>))" if "x \<in> set hs" for x
      using that Cons.prems(2) Cons.prems(3) [of x] by (auto simp: image_iff)
    then have "foldl add_cgi_header (r\<lparr>fr_headers := fr_headers r @ [h]\<rparr>) (map cgi_line hs) =
        (r\<lparr>fr_headers := fr_headers r @ [h]\<rparr>)\<lparr>fr_headers := fr_headers (r\<lparr>fr_headers := fr_headers r @ [h]\<rparr>) @ hs\<rparr>"
      using Cons.prems(1,2) by (intro Cons.IH) auto
    then show ?thesis by simp
  qed
  ultimately show ?case by simp
qed simp

lemma parse_block:
  assumes "find_str (w @ crlf @ body) (crlf @ crlf) = Some (length w - 2)" "2 \<le> length w"
  shows "parseCgiResponse (w @ crlf @ body) =
    foldl add_cgi_header \<lparr>fr_status = 200, fr_headers = [], fr_body = body\<rparr>
      (all_lines_delim LF (take (length w - 2) (w @ crlf @ body)))"
proof -
  have "length w - 2 + 4 = length (w @ crlf)" using assms(2) by (simp add: crlf_def)
  then have "drop (length w - 2 + 4) (w @ crlf @ body) = body" by (metis append.assoc append_eq_conv_conj)
  then show ?thesis using assms(1) by (simp add: parseCgiResponse_def substr_def)
qed

text \<open>
  The response of a script, written as the CGI specification says, gives back its status, its
  headers and its body, byte for byte.
\<close>

theorem parseCgiResponse_render:
  assumes "status < 2 ^ 31" "list_all cgi_header hs" "distinct (map fst hs)"
  shows "parseCgiResponse (render_cgi status hs body) =
    \<lparr>fr_status = int status, fr_headers = hs, fr_body = body\<rparr>"
proof -
  let ?ls = "(''Status: '' @ to_string status) # map cgi_line hs"
  have status: "CR \<notin> set (to_string status)" "LF \<notin> set (to_string status)"
    using to_string_digits [of CR status] to_string_digits [of LF status] by (auto simp: isdigit_def uc_def)
  have ok: "l \<noteq> [] \<and> CR \<notin> set l \<and> LF \<notin> set l" if "l \<in> set ?ls" for l
    using that assms(2) status by (auto simp: cgi_line_def cgi_header_def list_all_iff)
  have f: "find_str (join_lines ?ls @ crlf @ body) (crlf @ crlf) = Some (length (join_lines ?ls) - 2)"
    using index_of_crlf2_lines [of ?ls body] ok
    by (simp only: find_str_def find_from_0) (simp add: unbroken_def crlf2_def crlf_def)
  have "foldl add_cgi_header r (map trimCrlf xs) = foldl add_cgi_header r xs" for r xs
    by (induction xs arbitrary: r) (simp_all add: add_cgi_header_trim)
  then have l: "foldl add_cgi_header r (all_lines_delim LF (take (length (join_lines ?ls) - 2) (join_lines ?ls @ s))) =
      foldl add_cgi_header r ?ls" for r s
    using header_block_lines [of ?ls s] ok by (metis list.discI)
  have "parseCgiResponse (join_lines ?ls @ crlf @ body) =
      foldl add_cgi_header \<lparr>fr_status = 200, fr_headers = [], fr_body = body\<rparr> ?ls"
    using parse_block [OF f] by (simp only: l) (simp add: crlf_def)
  also have "\<dots> = \<lparr>fr_status = int status, fr_headers = hs, fr_body = body\<rparr>"
    using assms by (simp only: foldl.simps add_cgi_status) (simp add: fold_cgi_headers)
  finally show ?thesis by (simp only: render_cgi_def)
qed

section \<open>The theorems at a concrete request\<close>

definition example_fcgi_request :: fcgi_request where
  "example_fcgi_request =
     \<lparr>fq_scriptFilename = ''/srv/a.php'', fq_requestMethod = ''GET'', fq_requestUri = ''/a.php'', fq_queryString = ''x=1'',
      fq_documentRoot = ''/srv'', fq_serverName = ''localhost'', fq_serverProtocol = ''HTTP/1.1'',
      fq_remoteAddr = ''127.0.0.1'', fq_contentType = [], fq_body = ''hi''\<rparr>"

theorem fcgi_request_decoded_witness:
  "decode_request (request_wire rev example_fcgi_request) = Some (rev (fcgi_params example_fcgi_request), ''hi'')"
proof -
  have "list_all short_pair (rev (fcgi_params example_fcgi_request))" by code_simp
  from fcgi_request_decoded [of rev example_fcgi_request, OF this] show ?thesis by (simp add: example_fcgi_request_def)
qed

definition example_reply :: "fcgi_record list" where
  "example_reply =
     [\<lparr>rec_type = 6, rec_id = 1, rec_content = ''Status: 404'' @ crlf\<rparr>, \<lparr>rec_type = 7, rec_id = 1, rec_content = ''warning''\<rparr>,
      \<lparr>rec_type = 6, rec_id = 1, rec_content = crlf @ ''no''\<rparr>]"


theorem parseCgiResponse_render_witness:
  "parseCgiResponse (render_cgi 404 [(''X-A'', ''b: c'')] (''no'' @ crlf @ crlf)) =
    \<lparr>fr_status = 404, fr_headers = [(''X-A'', ''b: c'')], fr_body = ''no'' @ crlf @ crlf\<rparr>"
proof -
  have "list_all cgi_header [(''X-A'', ''b: c'')]" by code_simp
  from parseCgiResponse_render [OF _ this, of 404] show ?thesis by simp
qed

end
