(* ===== verification/Htaccess.thy ===== *)
theory Htaccess
  imports Paths "HOL-Library.AList"
begin

text \<open>
  \<open>src/src/Htaccess.cpp\<close> and \<open>.hpp\<close>: the subset of \<open>.htaccess\<close> files that is understood, and how
  the files between the document root and the requested path are combined.
\<close>

section \<open>One file\<close>

record htaccess_rules =
  ht_denyAll :: bool
  ht_optionsIndexesDisabled :: bool
  ht_responseHeaders :: "(string \<times> string) list"

definition default_rules :: htaccess_rules where
  "default_rules = \<lparr>ht_denyAll = False, ht_optionsIndexesDisabled = True, ht_responseHeaders = []\<rparr>"

definition ht_trim :: "string \<Rightarrow> string" where
  "ht_trim v = strip isspace v"

text \<open>\<open>while (ss >> word)\<close>\<close>

function words_of :: "string \<Rightarrow> string list" where
  "words_of s = (if fst (next_word s) = [] then [] else fst (next_word s) # words_of (snd (next_word s)))"
  by pat_completeness auto
termination
proof (relation "measure length")
  fix s assume "fst (next_word s) \<noteq> []"
  let ?r = "dropWhile isspace s"
  have "length ?r \<le> length s" by (rule length_dropWhile_le)
  moreover have "length (dropWhile (\<lambda>c. \<not> isspace c) ?r) + length (takeWhile (\<lambda>c. \<not> isspace c) ?r) = length ?r"
    by (metis add.commute length_append takeWhile_dropWhile_id)
  moreover have "0 < length (takeWhile (\<lambda>c. \<not> isspace c) ?r)"
    using \<open>fst (next_word s) \<noteq> []\<close> by (simp add: next_word_def Let_def)
  ultimately have "length (dropWhile (\<lambda>c. \<not> isspace c) ?r) < length s" by linarith
  then show "(snd (next_word s), s) \<in> measure length" by (simp only: next_word_def Let_def snd_conv in_measure)
qed simp

declare words_of.simps [simp del]

definition unquote :: "string \<Rightarrow> string" where
  "unquote v = (if 2 \<le> length v \<and> hd v = DQUOTE \<and> last v = DQUOTE then substr v 1 (length v - 2) else v)"

definition safeName :: "string \<Rightarrow> bool" where
  "safeName name \<longleftrightarrow> name \<noteq> [] \<and> list_all (\<lambda>c. isalnum c \<or> c = CHR ''-'') name"

definition protected_headers :: "string list" where
  "protected_headers = [''Content-Length'', ''Connection'', ''Transfer-Encoding'', ''Server'']"

definition set_header :: "string \<Rightarrow> htaccess_rules \<Rightarrow> htaccess_rules" where
  "set_header rest rules =
     (let (action, s1) = next_word rest; (name, s2) = next_word s1
      in if action = ''set'' \<and> name \<noteq> [] then
           (let val = unquote (ht_trim (case getline s2 of None \<Rightarrow> [] | Some (v, _) \<Rightarrow> v))
            in if safeName name \<and> name \<notin> set protected_headers
               then rules\<lparr>ht_responseHeaders := AList.update name val (ht_responseHeaders rules)\<rparr> else rules)
         else rules)"

definition apply_line :: "htaccess_rules \<Rightarrow> string \<Rightarrow> htaccess_rules" where
  "apply_line rules line0 =
     (let line = ht_trim (case find_char line0 CHR ''#'' of None \<Rightarrow> line0 | Some comment \<Rightarrow> substr line0 0 comment)
      in if line = [] then rules
         else
           (let (first, s) = next_word line
            in if first = ''Require'' then
                 (let (second, s') = next_word s; (third, s'') = next_word s'
                  in if second = ''all'' \<and> third = ''denied'' then rules\<lparr>ht_denyAll := True\<rparr>
                     else if second = ''all'' \<and> third = ''granted'' then rules\<lparr>ht_denyAll := False\<rparr>
                     else rules)
               else if first = ''Options'' then
                 (if ''-Indexes'' \<in> set (words_of s) then rules\<lparr>ht_optionsIndexesDisabled := True\<rparr> else rules)
               else if first = ''Header'' then set_header s rules
               else rules))"

definition parseFile :: "file_system \<Rightarrow> string \<Rightarrow> htaccess_rules" where
  "parseFile fs path =
     (case fs_content fs path of
        None \<Rightarrow> default_rules
      | Some text \<Rightarrow> foldl apply_line default_rules (all_lines_delim LF text))"

section \<open>All files on the way\<close>

text \<open>The directories from the requested one up to the root, at most \<open>maxDepth\<close> of them.\<close>

fun climb :: "nat \<Rightarrow> string \<Rightarrow> string \<Rightarrow> string list" where
  "climb 0 root current = []"
| "climb (Suc n) root current =
     (let rel = relative_components current root
      in if rel = [] \<or> starts_with (hd rel) ''..'' then []
         else current # (if path_components current = path_components root then []
                         else climb n root (parent_path current)))"

definition merge_rules :: "htaccess_rules \<Rightarrow> htaccess_rules \<Rightarrow> htaccess_rules" where
  "merge_rules result loc =
     \<lparr>ht_denyAll = ht_denyAll loc,
      ht_optionsIndexesDisabled = (if ht_optionsIndexesDisabled loc then True else ht_optionsIndexesDisabled result),
      ht_responseHeaders =
        foldl (\<lambda>h kv. AList.update (fst kv) (snd kv) h) (ht_responseHeaders result) (ht_responseHeaders loc)\<rparr>"

fun apply_dirs :: "file_system \<Rightarrow> string \<Rightarrow> string list \<Rightarrow> htaccess_rules \<Rightarrow> string + htaccess_rules" where
  "apply_dirs fs filename [] result = Inr result"
| "apply_dirs fs filename (dir # dirs) result =
     (let f = path_join dir filename
      in and_then (path_exists fs f) (\<lambda>there.
           if \<not> there then apply_dirs fs filename dirs result
           else and_then (is_regular_file fs f) (\<lambda>regular.
             if \<not> regular then apply_dirs fs filename dirs result
             else apply_dirs fs filename dirs (merge_rules result (parseFile fs f)))))"

definition searched_dirs :: "file_system \<Rightarrow> string \<Rightarrow> string \<Rightarrow> nat \<Rightarrow> string + string list" where
  "searched_dirs fs documentRoot requestedPath maxDepth =
     and_then (weakly_canonical fs documentRoot) (\<lambda>root.
     and_then (is_directory fs requestedPath) (\<lambda>dir.
     and_then (weakly_canonical fs (if dir then requestedPath else parent_path requestedPath)) (\<lambda>current.
       Inr (rev (climb maxDepth root current)))))"

definition evaluate :: "file_system \<Rightarrow> string \<Rightarrow> string \<Rightarrow> string \<Rightarrow> nat \<Rightarrow> string + htaccess_rules" where
  "evaluate fs documentRoot requestedPath filename maxDepth =
     and_then (searched_dirs fs documentRoot requestedPath maxDepth) (\<lambda>dirs.
       apply_dirs fs filename dirs default_rules)"

section \<open>What a file may set\<close>

definition header_allowed :: "string \<times> string \<Rightarrow> bool" where
  "header_allowed h \<longleftrightarrow> safeName (fst h) \<and> fst h \<notin> set protected_headers \<and> LF \<notin> set (snd h)"

definition rules_ok :: "htaccess_rules \<Rightarrow> bool" where
  "rules_ok r \<longleftrightarrow> list_all header_allowed (ht_responseHeaders r) \<and> distinct (map fst (ht_responseHeaders r))"

lemma default_rules_ok: "rules_ok default_rules"
  by (simp add: rules_ok_def default_rules_def)

lemma update_allowed:
  "list_all header_allowed hs \<Longrightarrow> header_allowed (k, v) \<Longrightarrow> list_all header_allowed (AList.update k v hs)"
  by (induction hs) auto

lemma update_ok:
  assumes "rules_ok r" "header_allowed (k, v)"
  shows "rules_ok (r\<lparr>ht_responseHeaders := AList.update k v (ht_responseHeaders r)\<rparr>)"
  using assms by (simp add: rules_ok_def update_allowed distinct_update)

lemma set_unquote: "set (unquote v) \<subseteq> set v"
  by (auto simp: unquote_def substr_def dest: in_set_takeD in_set_dropD)

lemma set_header_ok:
  assumes "rules_ok r" shows "rules_ok (set_header s r)"
proof -
  obtain action s1 name s2 where w: "next_word s = (action, s1)" "next_word s1 = (name, s2)"
    by (metis prod.collapse)
  let ?g = "case getline s2 of None \<Rightarrow> [] | Some (v, _) \<Rightarrow> v"
  have "LF \<notin> set ?g" by (auto split: option.splits dest: getline_delim_no_delim getline_delim_no_delim [OF sym])
  then have v: "LF \<notin> set (unquote (ht_trim ?g))"
    using set_unquote set_strip unfolding ht_trim_def by blast
  show ?thesis
  proof (cases "action = ''set'' \<and> name \<noteq> [] \<and> safeName name \<and> name \<notin> set protected_headers")
    case True
    with v have "header_allowed (name, unquote (ht_trim ?g))" by (simp add: header_allowed_def)
    with update_ok [OF assms this] True w show ?thesis by (simp add: set_header_def Let_def)
  next
    case False
    then have "set_header s r = r" using w by (auto simp: set_header_def Let_def)
    with assms show ?thesis by simp
  qed
qed

lemma rules_ok_flags [simp]:
  "rules_ok (r\<lparr>ht_denyAll := b\<rparr>) = rules_ok r" "rules_ok (r\<lparr>ht_optionsIndexesDisabled := b\<rparr>) = rules_ok r"
  by (simp_all add: rules_ok_def)

lemma apply_line_ok: "rules_ok r \<Longrightarrow> rules_ok (apply_line r l)"
  by (simp add: apply_line_def Let_def split_beta set_header_ok)

lemma parseFile_ok: "rules_ok (parseFile fs p)"
proof -
  have "rules_ok r \<Longrightarrow> rules_ok (foldl apply_line r ls)" for r ls
    by (induction ls arbitrary: r) (simp_all add: apply_line_ok)
  then show ?thesis using default_rules_ok by (simp add: parseFile_def split: option.split)
qed

lemma merge_rules_ok: "rules_ok r \<Longrightarrow> rules_ok loc \<Longrightarrow> rules_ok (merge_rules r loc)"
proof -
  assume r: "rules_ok r" and l: "rules_ok loc"
  have "list_all header_allowed (foldl (\<lambda>h kv. AList.update (fst kv) (snd kv) h) hs ls) \<and>
      distinct (map fst (foldl (\<lambda>h kv. AList.update (fst kv) (snd kv) h) hs ls))"
    if "list_all header_allowed ls" "list_all header_allowed hs" "distinct (map fst hs)" for ls hs
    using that by (induction ls arbitrary: hs) (simp_all add: update_allowed distinct_update)
  then show ?thesis using r l by (simp add: rules_ok_def merge_rules_def)
qed

section \<open>The deepest file decides\<close>

text \<open>The files that exist in a list of directories.\<close>

fun collect_rules :: "file_system \<Rightarrow> string \<Rightarrow> string list \<Rightarrow> string + htaccess_rules list" where
  "collect_rules fs filename [] = Inr []"
| "collect_rules fs filename (dir # dirs) =
     (let f = path_join dir filename
      in and_then (path_exists fs f) (\<lambda>there.
         and_then (if there then is_regular_file fs f else Inr False) (\<lambda>regular.
         and_then (collect_rules fs filename dirs) (\<lambda>ls.
           Inr (if regular then parseFile fs f # ls else ls)))))"

lemma apply_dirs_collect:
  "apply_dirs fs filename dirs r = Inr r' \<Longrightarrow> \<exists>ls. collect_rules fs filename dirs = Inr ls \<and> r' = foldl merge_rules r ls"
proof (induction dirs arbitrary: r)
  case (Cons dir dirs)
  let ?f = "path_join dir filename"
  obtain there where there: "path_exists fs ?f = Inr there"
    using Cons.prems by (cases "path_exists fs ?f") auto
  show ?case
  proof (cases there)
    case False
    with Cons there show ?thesis by (fastforce simp: Let_def)
  next
    case True
    obtain regular where reg: "is_regular_file fs ?f = Inr regular"
      using Cons.prems there True by (cases "is_regular_file fs ?f") auto
    with Cons.prems there True
    have "apply_dirs fs filename dirs (if regular then merge_rules r (parseFile fs ?f) else r) = Inr r'" by (cases regular) simp_all
    from Cons.IH [OF this] there True reg show ?thesis by auto
  qed
qed simp

lemma collect_rules_ok: "collect_rules fs filename dirs = Inr ls \<Longrightarrow> list_all rules_ok ls"
proof (induction dirs arbitrary: ls)
  case (Cons dir dirs)
  then obtain ls' b where "collect_rules fs filename dirs = Inr ls'"
    "ls = (if b then parseFile fs (path_join dir filename) # ls' else ls')"
    by (auto simp: Let_def and_then_eq_Inr)
  with Cons.IH show ?case by (simp add: parseFile_ok)
qed simp

lemma foldl_merge_deny: "ht_denyAll (foldl merge_rules r ls) = (if ls = [] then ht_denyAll r else ht_denyAll (last ls))"
  by (induction ls rule: rev_induct) (simp_all add: merge_rules_def)

lemma foldl_merge_indexes: "ht_optionsIndexesDisabled r \<Longrightarrow> ht_optionsIndexesDisabled (foldl merge_rules r ls)"
  by (induction ls rule: rev_induct) (simp_all add: merge_rules_def)

lemma foldl_merge_ok: "rules_ok r \<Longrightarrow> list_all rules_ok ls \<Longrightarrow> rules_ok (foldl merge_rules r ls)"
  by (induction ls arbitrary: r) (simp_all add: merge_rules_ok)

lemma foldl_update_map:
  "distinct (map fst ls) \<Longrightarrow> map_of (foldl (\<lambda>h kv. AList.update (fst kv) (snd kv) h) hs ls) = map_of hs ++ map_of ls"
proof (induction ls arbitrary: hs)
  case (Cons kv ls)
  have none: "map_of ls (fst kv) = None" using Cons.prems by (simp add: map_of_eq_None_iff)
  have "(map_of (AList.update (fst kv) (snd kv) hs) ++ map_of ls) x = (map_of hs ++ map_of (kv # ls)) x" for x
    using none by (cases "x = fst kv"; cases "map_of ls x") (simp_all add: update_conv' map_add_def)
  then have "map_of (AList.update (fst kv) (snd kv) hs) ++ map_of ls = map_of hs ++ map_of (kv # ls)" by (rule ext)
  moreover have "distinct (map fst ls)" using Cons.prems by simp
  ultimately show ?case using Cons.IH by (simp only: foldl.simps)
qed simp

lemma foldl_merge_headers:
  "list_all rules_ok ls \<Longrightarrow>
   map_of (ht_responseHeaders (foldl merge_rules r ls)) =
     foldl (++) (map_of (ht_responseHeaders r)) (map (\<lambda>l. map_of (ht_responseHeaders l)) ls)"
  by (induction ls rule: rev_induct) (simp_all add: merge_rules_def rules_ok_def foldl_update_map)

lemma climb_length: "length (climb n root current) \<le> n"
  by (induction n root current rule: climb.induct) (simp_all add: Let_def)

lemma climb_below: "d \<in> set (climb n root current) \<Longrightarrow> relative_components d root \<noteq> [] \<and> \<not> starts_with (hd (relative_components d root)) ''..''"
  by (induction n root current rule: climb.induct) (auto simp: Let_def split: if_splits)

lemma evaluate_files:
  assumes "evaluate fs root requested filename maxDepth = Inr r"
  obtains dirs ls where "searched_dirs fs root requested maxDepth = Inr dirs" "length dirs \<le> maxDepth"
    "collect_rules fs filename dirs = Inr ls" "r = foldl merge_rules default_rules ls" "list_all rules_ok ls"
proof -
  obtain dirs where d: "searched_dirs fs root requested maxDepth = Inr dirs"
      "apply_dirs fs filename dirs default_rules = Inr r"
    using assms by (auto simp: evaluate_def and_then_eq_Inr)
  then have "length dirs \<le> maxDepth" by (auto simp: searched_dirs_def and_then_eq_Inr climb_length)
  with apply_dirs_collect [OF d(2)] d(1) show ?thesis by (auto intro: that collect_rules_ok)
qed


lemma evaluate_ok: "evaluate fs root requested filename maxDepth = Inr r \<Longrightarrow> rules_ok r"
  by (erule evaluate_files) (simp add: foldl_merge_ok default_rules_ok)

text \<open>
  Whatever the files contain, the headers they add have names of letters, digits and dashes,
  are none of the four protected ones (as they are usually written), are set once and have no line
  feed in their values.
\<close>

theorem evaluate_headers_safe:
  assumes "evaluate fs root requested filename maxDepth = Inr r"
  shows "list_all header_allowed (ht_responseHeaders r) \<and> distinct (map fst (ht_responseHeaders r))"
  using evaluate_ok [OF assms] by (simp add: rules_ok_def)

section \<open>What the rules let through\<close>

text \<open>A file system with a root directory and two levels below it.\<close>

definition htaccess_fs :: "(string \<Rightarrow> string option) \<Rightarrow> file_system" where
  "htaccess_fs files = example_fs_base
     \<lparr>fs_exists := (\<lambda>p. Some (files p \<noteq> None)), fs_is_regular := (\<lambda>p. Some (files p \<noteq> None)), fs_content := files\<rparr>"

definition root_denies :: "string \<Rightarrow> string option" where
  "root_denies p = (if p = ''/srv/.htaccess'' then Some ''Require all denied'' else None)"

text \<open>A request that is deeper than \<open>maxDepth\<close> escapes the rules of the root.\<close>

lemma depth_limit_skips_root:
  "map_option ht_denyAll (case evaluate (htaccess_fs root_denies) ''/srv'' ''/srv/a/x'' ''.htaccess'' 8 of Inr r \<Rightarrow> Some r | _ \<Rightarrow> None) = Some True"
  "map_option ht_denyAll (case evaluate (htaccess_fs root_denies) ''/srv'' ''/srv/a/x'' ''.htaccess'' 1 of Inr r \<Rightarrow> Some r | _ \<Rightarrow> None) = Some False"
  by code_simp+

text \<open>A deeper file without any \<open>Require\<close> line re-opens what a file above it denies.\<close>

definition header_only_below :: "string \<Rightarrow> string option" where
  "header_only_below p = (if p = ''/srv/a/.htaccess'' then Some ''Header set X-A b'' else root_denies p)"

lemma deeper_file_reopens:
  "map_option ht_denyAll (case evaluate (htaccess_fs header_only_below) ''/srv'' ''/srv/a/x'' ''.htaccess'' 8 of Inr r \<Rightarrow> Some r | _ \<Rightarrow> None) = Some False"
  by code_simp

text \<open>The names of the protected headers are compared with their usual capitals only.\<close>

lemma protected_header_case:
  "ht_responseHeaders (apply_line default_rules ''Header set content-length 5'') = [(''content-length'', ''5'')]"
  "ht_responseHeaders (apply_line default_rules ''Header set Content-Length 5'') = []"
  by code_simp+


theorem evaluate_headers_safe_witness:
  "\<exists>r. evaluate (htaccess_fs header_only_below) ''/srv'' ''/srv/a/x'' ''.htaccess'' 8 = Inr r \<and>
     distinct (map fst (ht_responseHeaders r))"
proof -
  let ?e = "evaluate (htaccess_fs header_only_below) ''/srv'' ''/srv/a/x'' ''.htaccess'' 8"
  obtain r where r: "?e = Inr r" using deeper_file_reopens by (cases ?e) auto
  with evaluate_headers_safe [OF r] show ?thesis by blast
qed

end
