(* ===== verification/Config.thy ===== *)
theory Config
  imports Auth
begin

text \<open>
  \<open>src/src/Config.cpp\<close> and \<open>.hpp\<close>: the configuration of the server, how its file is read, and the
  checks it has to pass. What the machine contributes, the current directory and the number of
  processors, is an argument. The types are those of 64-bit Linux: \<open>unsigned long\<close> has 64 bits.
\<close>

section \<open>The configuration\<close>

record server_config =
  cfg_port :: nat
  cfg_enableTls :: bool
  cfg_tlsPort :: nat
  cfg_publicHttpsPort :: nat
  cfg_tlsCertFile :: string
  cfg_tlsKeyFile :: string
  cfg_forceHttps :: bool
  cfg_httpsRedirectStatus :: int
  cfg_exposeServerHeader :: bool
  cfg_defaultRoot :: string
  cfg_accessLog :: string
  cfg_errorLog :: string
  cfg_auditLog :: string
  cfg_auditRotateBytes :: nat
  cfg_auditRotateKeep :: nat
  cfg_authSecretsFile :: string
  cfg_authHotReload :: bool
  cfg_authReloadIntervalSeconds :: nat
  cfg_maxRequestBytes :: nat
  cfg_maxBodyBytes :: nat
  cfg_maxHeaderLineBytes :: nat
  cfg_maxHeaders :: nat
  cfg_maxUriBytes :: nat
  cfg_maxMethodBytes :: nat
  cfg_enableRateLimiter :: bool
  cfg_rateLimitPerMinute :: nat
  cfg_rateLimiterShards :: nat
  cfg_readTimeoutSeconds :: nat
  cfg_ioThreads :: nat
  cfg_workerThreads :: nat
  cfg_workerThreadMultiplier :: nat
  cfg_maxPendingConnections :: nat
  cfg_listenBacklog :: int
  cfg_tcpNoDelay :: bool
  cfg_tcpKeepAlive :: bool
  cfg_socketReceiveBufferBytes :: int
  cfg_socketSendBufferBytes :: int
  cfg_asyncAccessLog :: bool
  cfg_enableAccessLog :: bool
  cfg_accessLogSampleRate :: nat
  cfg_accessLogQueueCapacity :: nat
  cfg_accessLogFlushIntervalMs :: nat
  cfg_enableStaticCache :: bool
  cfg_staticCacheShards :: nat
  cfg_staticCacheMaxEntries :: nat
  cfg_staticCacheMaxBytes :: nat
  cfg_staticCacheMaxFileBytes :: nat
  cfg_staticCacheRevalidateMs :: nat
  cfg_staticCacheControl :: string
  cfg_denyHiddenFiles :: bool
  cfg_allowDotWellKnown :: bool
  cfg_blockSensitiveFiles :: bool
  cfg_enableHtaccess :: bool
  cfg_htaccessFilename :: string
  cfg_maxHtaccessDepth :: nat
  cfg_enablePhp :: bool
  cfg_phpExtension :: string
  cfg_phpFastcgiHost :: string
  cfg_phpFastcgiPort :: nat
  cfg_phpFastcgiConnectTimeoutSeconds :: nat
  cfg_phpFastcgiReadTimeoutSeconds :: nat
  cfg_enableSql :: bool
  cfg_sqliteDatabase :: string
  cfg_enableUploads :: bool
  cfg_uploadEndpoint :: string
  cfg_uploadDirectory :: string
  cfg_uploadSpoolDirectory :: string
  cfg_maxMultipartParts :: nat
  cfg_maxUploadFileBytes :: nat
  cfg_maxUploadFieldBytes :: nat
  cfg_enableEndpointAuth :: bool
  cfg_authBearerToken :: string
  cfg_authTokens :: "auth_token_rule list"
  cfg_enableAdminStatus :: bool
  cfg_adminStatusEndpoint :: string
  cfg_virtualHosts :: "string \<rightharpoonup> string"

definition default_config :: server_config where
  "default_config =
     \<lparr>cfg_port = 8080,
      cfg_enableTls = False,
      cfg_tlsPort = 8443,
      cfg_publicHttpsPort = 443,
      cfg_tlsCertFile = ''certs/server.crt'',
      cfg_tlsKeyFile = ''certs/server.key'',
      cfg_forceHttps = False,
      cfg_httpsRedirectStatus = 308,
      cfg_exposeServerHeader = False,
      cfg_defaultRoot = ''www'',
      cfg_accessLog = ''logs/access.log'',
      cfg_errorLog = ''logs/error.log'',
      cfg_auditLog = ''logs/audit.log'',
      cfg_auditRotateBytes = 10 * 1024 * 1024,
      cfg_auditRotateKeep = 5,
      cfg_authSecretsFile = [],
      cfg_authHotReload = True,
      cfg_authReloadIntervalSeconds = 0,
      cfg_maxRequestBytes = 16 * 1024,
      cfg_maxBodyBytes = 1024 * 1024,
      cfg_maxHeaderLineBytes = 4096,
      cfg_maxHeaders = 100,
      cfg_maxUriBytes = 2048,
      cfg_maxMethodBytes = 16,
      cfg_enableRateLimiter = True,
      cfg_rateLimitPerMinute = 120,
      cfg_rateLimiterShards = 64,
      cfg_readTimeoutSeconds = 5,
      cfg_ioThreads = 2,
      cfg_workerThreads = 0,
      cfg_workerThreadMultiplier = 4,
      cfg_maxPendingConnections = 4096,
      cfg_listenBacklog = 4096,
      cfg_tcpNoDelay = True,
      cfg_tcpKeepAlive = True,
      cfg_socketReceiveBufferBytes = 0,
      cfg_socketSendBufferBytes = 0,
      cfg_asyncAccessLog = True,
      cfg_enableAccessLog = True,
      cfg_accessLogSampleRate = 1,
      cfg_accessLogQueueCapacity = 65536,
      cfg_accessLogFlushIntervalMs = 100,
      cfg_enableStaticCache = True,
      cfg_staticCacheShards = 32,
      cfg_staticCacheMaxEntries = 4096,
      cfg_staticCacheMaxBytes = 256 * 1024 * 1024,
      cfg_staticCacheMaxFileBytes = 4 * 1024 * 1024,
      cfg_staticCacheRevalidateMs = 1000,
      cfg_staticCacheControl = ''public, max-age=60'',
      cfg_denyHiddenFiles = True,
      cfg_allowDotWellKnown = True,
      cfg_blockSensitiveFiles = True,
      cfg_enableHtaccess = False,
      cfg_htaccessFilename = ''.htaccess'',
      cfg_maxHtaccessDepth = 8,
      cfg_enablePhp = False,
      cfg_phpExtension = ''.php'',
      cfg_phpFastcgiHost = ''127.0.0.1'',
      cfg_phpFastcgiPort = 9000,
      cfg_phpFastcgiConnectTimeoutSeconds = 3,
      cfg_phpFastcgiReadTimeoutSeconds = 10,
      cfg_enableSql = False,
      cfg_sqliteDatabase = ''sql/hydrogen.db'',
      cfg_enableUploads = False,
      cfg_uploadEndpoint = ''/__hydrogen/upload'',
      cfg_uploadDirectory = ''uploads'',
      cfg_uploadSpoolDirectory = ''tmp/uploads'',
      cfg_maxMultipartParts = 16,
      cfg_maxUploadFileBytes = 1024 * 1024,
      cfg_maxUploadFieldBytes = 16 * 1024,
      cfg_enableEndpointAuth = False,
      cfg_authBearerToken = [],
      cfg_authTokens = [],
      cfg_enableAdminStatus = False,
      cfg_adminStatusEndpoint = ''/__hydrogen/admin/status'',
      cfg_virtualHosts = Map.empty\<rparr>"

section \<open>One line\<close>

definition cfg_trim :: "string \<Rightarrow> string" where
  "cfg_trim v = strip isspace v"

definition parseBool :: "string \<Rightarrow> bool" where
  "parseBool val =
     (let normalized = lowercase (cfg_trim val)
      in normalized = ''1'' \<or> normalized = ''true'' \<or> normalized = ''yes'' \<or> normalized = ''on'')"

definition as_error :: "string \<Rightarrow> num_error + 'a \<Rightarrow> string + 'a" where
  "as_error what r = (case r of Inl e \<Rightarrow> Inl what | Inr x \<Rightarrow> Inr x)"

definition to_int :: "string \<Rightarrow> string + int" where
  "to_int val = as_error ''stoi'' (stoi val)"

definition to_ull :: "string \<Rightarrow> string + nat" where
  "to_ull val = as_error ''stoull'' (stoull val)"

definition to_ul :: "string \<Rightarrow> string + nat" where
  "to_ul val = as_error ''stoul'' (stoull val)"

definition to_u16 :: "int \<Rightarrow> nat" where
  "to_u16 i = nat (i mod 2 ^ 16)"

definition apply_setting :: "string \<Rightarrow> string \<Rightarrow> server_config \<Rightarrow> string + server_config" where
  "apply_setting key val c =
     (if key = ''port'' then and_then (to_int val) (\<lambda>i. Inr (c\<lparr>cfg_port := to_u16 i\<rparr>))
      else if key = ''enable_tls'' then Inr (c\<lparr>cfg_enableTls := parseBool val\<rparr>)
      else if key = ''tls_port'' then and_then (to_int val) (\<lambda>i. Inr (c\<lparr>cfg_tlsPort := to_u16 i\<rparr>))
      else if key = ''public_https_port'' then and_then (to_int val) (\<lambda>i. Inr (c\<lparr>cfg_publicHttpsPort := to_u16 i\<rparr>))
      else if key = ''tls_cert_file'' then Inr (c\<lparr>cfg_tlsCertFile := val\<rparr>)
      else if key = ''tls_key_file'' then Inr (c\<lparr>cfg_tlsKeyFile := val\<rparr>)
      else if key = ''force_https'' then Inr (c\<lparr>cfg_forceHttps := parseBool val\<rparr>)
      else if key = ''https_redirect_status'' then and_then (to_int val) (\<lambda>i. Inr (c\<lparr>cfg_httpsRedirectStatus := i\<rparr>))
      else if key = ''expose_server_header'' then Inr (c\<lparr>cfg_exposeServerHeader := parseBool val\<rparr>)
      else if key = ''default_root'' then Inr (c\<lparr>cfg_defaultRoot := val\<rparr>)
      else if key = ''access_log'' then Inr (c\<lparr>cfg_accessLog := val\<rparr>)
      else if key = ''error_log'' then Inr (c\<lparr>cfg_errorLog := val\<rparr>)
      else if key = ''audit_log'' then Inr (c\<lparr>cfg_auditLog := val\<rparr>)
      else if key = ''audit_rotate_bytes'' then and_then (to_ull val) (\<lambda>n. Inr (c\<lparr>cfg_auditRotateBytes := n\<rparr>))
      else if key = ''audit_rotate_keep'' then and_then (to_ull val) (\<lambda>n. Inr (c\<lparr>cfg_auditRotateKeep := n\<rparr>))
      else if key = ''auth_secrets_file'' then Inr (c\<lparr>cfg_authSecretsFile := val\<rparr>)
      else if key = ''auth_hot_reload'' then Inr (c\<lparr>cfg_authHotReload := parseBool val\<rparr>)
      else if key = ''auth_reload_interval_seconds'' then and_then (to_ul val) (\<lambda>n. Inr (c\<lparr>cfg_authReloadIntervalSeconds := n mod 2 ^ 32\<rparr>))
      else if key = ''max_request_bytes'' then and_then (to_ull val) (\<lambda>n. Inr (c\<lparr>cfg_maxRequestBytes := n\<rparr>))
      else if key = ''max_body_bytes'' then and_then (to_ull val) (\<lambda>n. Inr (c\<lparr>cfg_maxBodyBytes := n\<rparr>))
      else if key = ''max_header_line_bytes'' then and_then (to_ull val) (\<lambda>n. Inr (c\<lparr>cfg_maxHeaderLineBytes := n\<rparr>))
      else if key = ''max_headers'' then and_then (to_ull val) (\<lambda>n. Inr (c\<lparr>cfg_maxHeaders := n\<rparr>))
      else if key = ''max_uri_bytes'' then and_then (to_ull val) (\<lambda>n. Inr (c\<lparr>cfg_maxUriBytes := n\<rparr>))
      else if key = ''max_method_bytes'' then and_then (to_ull val) (\<lambda>n. Inr (c\<lparr>cfg_maxMethodBytes := n\<rparr>))
      else if key = ''enable_rate_limiter'' then Inr (c\<lparr>cfg_enableRateLimiter := parseBool val\<rparr>)
      else if key = ''rate_limit_per_minute'' then and_then (to_ull val) (\<lambda>n. Inr (c\<lparr>cfg_rateLimitPerMinute := n\<rparr>))
      else if key = ''rate_limiter_shards'' then and_then (to_ull val) (\<lambda>n. Inr (c\<lparr>cfg_rateLimiterShards := n\<rparr>))
      else if key = ''read_timeout_seconds'' then and_then (to_ul val) (\<lambda>n. Inr (c\<lparr>cfg_readTimeoutSeconds := n mod 2 ^ 32\<rparr>))
      else if key = ''io_threads'' then and_then (to_ull val) (\<lambda>n. Inr (c\<lparr>cfg_ioThreads := n\<rparr>))
      else if key = ''worker_threads'' then and_then (to_ull val) (\<lambda>n. Inr (c\<lparr>cfg_workerThreads := n\<rparr>))
      else if key = ''worker_thread_multiplier'' then and_then (to_ull val) (\<lambda>n. Inr (c\<lparr>cfg_workerThreadMultiplier := n\<rparr>))
      else if key = ''max_pending_connections'' then and_then (to_ull val) (\<lambda>n. Inr (c\<lparr>cfg_maxPendingConnections := n\<rparr>))
      else if key = ''listen_backlog'' then and_then (to_int val) (\<lambda>i. Inr (c\<lparr>cfg_listenBacklog := i\<rparr>))
      else if key = ''tcp_no_delay'' then Inr (c\<lparr>cfg_tcpNoDelay := parseBool val\<rparr>)
      else if key = ''tcp_keep_alive'' then Inr (c\<lparr>cfg_tcpKeepAlive := parseBool val\<rparr>)
      else if key = ''socket_receive_buffer_bytes'' then and_then (to_int val) (\<lambda>i. Inr (c\<lparr>cfg_socketReceiveBufferBytes := i\<rparr>))
      else if key = ''socket_send_buffer_bytes'' then and_then (to_int val) (\<lambda>i. Inr (c\<lparr>cfg_socketSendBufferBytes := i\<rparr>))
      else if key = ''async_access_log'' then Inr (c\<lparr>cfg_asyncAccessLog := parseBool val\<rparr>)
      else if key = ''enable_access_log'' then Inr (c\<lparr>cfg_enableAccessLog := parseBool val\<rparr>)
      else if key = ''access_log_sample_rate'' then and_then (to_ull val) (\<lambda>n. Inr (c\<lparr>cfg_accessLogSampleRate := n\<rparr>))
      else if key = ''access_log_queue_capacity'' then and_then (to_ull val) (\<lambda>n. Inr (c\<lparr>cfg_accessLogQueueCapacity := n\<rparr>))
      else if key = ''access_log_flush_interval_ms'' then and_then (to_ul val) (\<lambda>n. Inr (c\<lparr>cfg_accessLogFlushIntervalMs := n mod 2 ^ 32\<rparr>))
      else if key = ''enable_static_cache'' then Inr (c\<lparr>cfg_enableStaticCache := parseBool val\<rparr>)
      else if key = ''static_cache_shards'' then and_then (to_ull val) (\<lambda>n. Inr (c\<lparr>cfg_staticCacheShards := n\<rparr>))
      else if key = ''static_cache_max_entries'' then and_then (to_ull val) (\<lambda>n. Inr (c\<lparr>cfg_staticCacheMaxEntries := n\<rparr>))
      else if key = ''static_cache_max_bytes'' then and_then (to_ull val) (\<lambda>n. Inr (c\<lparr>cfg_staticCacheMaxBytes := n\<rparr>))
      else if key = ''static_cache_max_file_bytes'' then and_then (to_ull val) (\<lambda>n. Inr (c\<lparr>cfg_staticCacheMaxFileBytes := n\<rparr>))
      else if key = ''static_cache_revalidate_ms'' then and_then (to_ul val) (\<lambda>n. Inr (c\<lparr>cfg_staticCacheRevalidateMs := n mod 2 ^ 32\<rparr>))
      else if key = ''static_cache_control'' then Inr (c\<lparr>cfg_staticCacheControl := val\<rparr>)
      else if key = ''deny_hidden_files'' then Inr (c\<lparr>cfg_denyHiddenFiles := parseBool val\<rparr>)
      else if key = ''allow_dot_well_known'' then Inr (c\<lparr>cfg_allowDotWellKnown := parseBool val\<rparr>)
      else if key = ''block_sensitive_files'' then Inr (c\<lparr>cfg_blockSensitiveFiles := parseBool val\<rparr>)
      else if key = ''enable_htaccess'' then Inr (c\<lparr>cfg_enableHtaccess := parseBool val\<rparr>)
      else if key = ''htaccess_filename'' then Inr (c\<lparr>cfg_htaccessFilename := val\<rparr>)
      else if key = ''max_htaccess_depth'' then and_then (to_ull val) (\<lambda>n. Inr (c\<lparr>cfg_maxHtaccessDepth := n\<rparr>))
      else if key = ''enable_php'' then Inr (c\<lparr>cfg_enablePhp := parseBool val\<rparr>)
      else if key = ''php_extension'' then Inr (c\<lparr>cfg_phpExtension := val\<rparr>)
      else if key = ''php_fastcgi_host'' then Inr (c\<lparr>cfg_phpFastcgiHost := val\<rparr>)
      else if key = ''php_fastcgi_port'' then and_then (to_int val) (\<lambda>i. Inr (c\<lparr>cfg_phpFastcgiPort := to_u16 i\<rparr>))
      else if key = ''php_fastcgi_connect_timeout_seconds'' then and_then (to_ul val) (\<lambda>n. Inr (c\<lparr>cfg_phpFastcgiConnectTimeoutSeconds := n mod 2 ^ 32\<rparr>))
      else if key = ''php_fastcgi_read_timeout_seconds'' then and_then (to_ul val) (\<lambda>n. Inr (c\<lparr>cfg_phpFastcgiReadTimeoutSeconds := n mod 2 ^ 32\<rparr>))
      else if key = ''enable_sql'' then Inr (c\<lparr>cfg_enableSql := parseBool val\<rparr>)
      else if key = ''sqlite_database'' then Inr (c\<lparr>cfg_sqliteDatabase := val\<rparr>)
      else if key = ''enable_uploads'' then Inr (c\<lparr>cfg_enableUploads := parseBool val\<rparr>)
      else if key = ''upload_endpoint'' then Inr (c\<lparr>cfg_uploadEndpoint := val\<rparr>)
      else if key = ''upload_directory'' then Inr (c\<lparr>cfg_uploadDirectory := val\<rparr>)
      else if key = ''upload_spool_directory'' then Inr (c\<lparr>cfg_uploadSpoolDirectory := val\<rparr>)
      else if key = ''max_multipart_parts'' then and_then (to_ull val) (\<lambda>n. Inr (c\<lparr>cfg_maxMultipartParts := n\<rparr>))
      else if key = ''max_upload_file_bytes'' then and_then (to_ull val) (\<lambda>n. Inr (c\<lparr>cfg_maxUploadFileBytes := n\<rparr>))
      else if key = ''max_upload_field_bytes'' then and_then (to_ull val) (\<lambda>n. Inr (c\<lparr>cfg_maxUploadFieldBytes := n\<rparr>))
      else if key = ''enable_endpoint_auth'' then Inr (c\<lparr>cfg_enableEndpointAuth := parseBool val\<rparr>)
      else if key = ''auth_bearer_token'' then Inr (c\<lparr>cfg_authBearerToken := val\<rparr>)
      else if starts_with key ''auth_token.'' then
        and_then (parseTokenRule (drop 11 key) val False) (\<lambda>t. Inr (c\<lparr>cfg_authTokens := cfg_authTokens c @ [t]\<rparr>))
      else if key = ''enable_admin_status'' then Inr (c\<lparr>cfg_enableAdminStatus := parseBool val\<rparr>)
      else if key = ''admin_status_endpoint'' then Inr (c\<lparr>cfg_adminStatusEndpoint := val\<rparr>)
      else if starts_with key ''vhost.'' then
        Inr (c\<lparr>cfg_virtualHosts := (cfg_virtualHosts c)(drop 6 key \<mapsto> val)\<rparr>)
      else Inr c)"

definition apply_config_line :: "string \<Rightarrow> server_config \<Rightarrow> string + server_config" where
  "apply_config_line line0 c =
     (let line = cfg_trim (case find_char line0 CHR ''#'' of None \<Rightarrow> line0 | Some comment \<Rightarrow> substr line0 0 comment)
      in if line = [] then Inr c
         else (case find_char line CHR ''='' of
                 None \<Rightarrow> Inr c
               | Some eq \<Rightarrow> apply_setting (cfg_trim (substr line 0 eq)) (cfg_trim (drop (eq + 1) line)) c))"

fun apply_config_lines :: "string list \<Rightarrow> server_config \<Rightarrow> string + server_config" where
  "apply_config_lines [] c = Inr c"
| "apply_config_lines (l # ls) c = and_then (apply_config_line l c) (apply_config_lines ls)"

section \<open>Paths\<close>

text \<open>\<open>lexically_normal\<close>, on the names in reverse.\<close>

definition normal_step :: "bool \<Rightarrow> string list \<Rightarrow> string \<Rightarrow> string list" where
  "normal_step rooted acc n =
     (if n = ''.'' then acc
      else if n = ''..'' then
        (if acc = [] then (if rooted then [] else [n]) else if hd acc = ''..'' then n # acc else tl acc)
      else n # acc)"

definition lexically_normal :: "string \<Rightarrow> string" where
  "lexically_normal p =
     (let rooted = is_absolute p; names = path_names p;
          acc = foldl (normal_step rooted) [] names;
          slash = (names \<noteq> [] \<and> (last p = CHR ''/'' \<or> last names = ''.'' \<or> last names = ''..'')) \<and>
                  acc \<noteq> [] \<and> hd acc \<noteq> ''..'';
          text = (if rooted then ''/'' else []) @
            concat (map (\<lambda>i. (if i = 0 then [] else ''/'') @ rev acc ! i) [0..<length acc]) @ (if slash then ''/'' else [])
      in if p = [] then [] else if text = [] then ''.'' else text)"

definition absolute_path :: "string \<Rightarrow> string \<Rightarrow> string" where
  "absolute_path cwd p = path_join cwd p"

definition resolvePath :: "string \<Rightarrow> string \<Rightarrow> string" where
  "resolvePath configBase val =
     (if val \<noteq> [] \<and> \<not> is_absolute val then lexically_normal (path_join configBase val) else val)"

definition resolve_paths :: "string \<Rightarrow> server_config \<Rightarrow> server_config" where
  "resolve_paths base c =
     c\<lparr>cfg_tlsCertFile := resolvePath base (cfg_tlsCertFile c),
       cfg_tlsKeyFile := resolvePath base (cfg_tlsKeyFile c),
       cfg_defaultRoot := resolvePath base (cfg_defaultRoot c),
       cfg_accessLog := resolvePath base (cfg_accessLog c),
       cfg_errorLog := resolvePath base (cfg_errorLog c),
       cfg_auditLog := resolvePath base (cfg_auditLog c),
       cfg_authSecretsFile := resolvePath base (cfg_authSecretsFile c),
       cfg_sqliteDatabase := resolvePath base (cfg_sqliteDatabase c),
       cfg_uploadDirectory := resolvePath base (cfg_uploadDirectory c),
       cfg_uploadSpoolDirectory := resolvePath base (cfg_uploadSpoolDirectory c),
       cfg_virtualHosts := (\<lambda>host. map_option (resolvePath base) (cfg_virtualHosts c host))\<rparr>"

section \<open>The checks\<close>

text \<open>\<open>if (condition) throw std::runtime_error(message)\<close>, one after the other.\<close>

fun first_failure :: "(bool \<times> string) list \<Rightarrow> string + unit" where
  "first_failure [] = Inr ()"
| "first_failure (ck # cks) = (if fst ck then Inl (snd ck) else first_failure cks)"

definition default_workers :: "nat \<Rightarrow> server_config \<Rightarrow> server_config" where
  "default_workers hardware c =
     (if cfg_workerThreads c = 0
      then c\<lparr>cfg_workerThreads := max 4 ((max 1 hardware * cfg_workerThreadMultiplier c) mod 2 ^ 64)\<rparr> else c)"

definition thread_checks :: "server_config \<Rightarrow> (bool \<times> string) list" where
  "thread_checks c =
     [(cfg_ioThreads c = 0, ''io_threads must be greater than 0''),
      (cfg_workerThreadMultiplier c = 0, ''worker_thread_multiplier must be greater than 0'')]"

definition limit_checks :: "server_config \<Rightarrow> (bool \<times> string) list" where
  "limit_checks c =
     [(cfg_maxPendingConnections c = 0, ''max_pending_connections must be greater than 0''),
      (cfg_listenBacklog c \<le> 0, ''listen_backlog must be greater than 0''),
      (cfg_rateLimiterShards c = 0, ''rate_limiter_shards must be greater than 0''),
      (cfg_accessLogSampleRate c = 0, ''access_log_sample_rate must be greater than 0''),
      (cfg_accessLogQueueCapacity c = 0, ''access_log_queue_capacity must be greater than 0''),
      (cfg_staticCacheShards c = 0, ''static_cache_shards must be greater than 0''),
      (cfg_enableStaticCache c \<and> (cfg_staticCacheMaxEntries c = 0 \<or> cfg_staticCacheMaxBytes c = 0),
       ''static cache limits must be greater than 0 when enabled''),
      (cfg_staticCacheMaxBytes c < cfg_staticCacheMaxFileBytes c, ''static_cache_max_file_bytes must be <= static_cache_max_bytes''),
      (cfg_maxHtaccessDepth c = 0, ''max_htaccess_depth must be greater than 0''),
      (cfg_htaccessFilename c = [], ''htaccess_filename cannot be empty''),
      (cfg_phpExtension c = [] \<or> hd (cfg_phpExtension c) \<noteq> CHR ''.'', ''php_extension must start with dot''),
      (cfg_phpFastcgiPort c = 0, ''php_fastcgi_port must be greater than 0''),
      (cfg_maxRequestBytes c < 1024, ''max_request_bytes is too small''),
      (64 * 1024 * 1024 < cfg_maxBodyBytes c, ''max_body_bytes is too large for this baseline''),
      (cfg_maxHeaderLineBytes c < 256, ''max_header_line_bytes is too small''),
      (cfg_maxHeaders c = 0, ''max_headers must be greater than 0''),
      (cfg_maxUriBytes c = 0, ''max_uri_bytes must be greater than 0''),
      (cfg_httpsRedirectStatus c \<noteq> 301 \<and> cfg_httpsRedirectStatus c \<noteq> 308, ''https_redirect_status must be 301 or 308''),
      (cfg_uploadEndpoint c = [] \<or> hd (cfg_uploadEndpoint c) \<noteq> CHR ''/'', ''upload_endpoint must start with /''),
      (cfg_maxMultipartParts c = 0, ''max_multipart_parts must be greater than 0''),
      (cfg_enableUploads c \<and> (cfg_maxUploadFileBytes c = 0 \<or> cfg_maxBodyBytes c < cfg_maxUploadFileBytes c),
       ''max_upload_file_bytes must be greater than 0 and <= max_body_bytes''),
      (cfg_enableUploads c \<and> cfg_maxBodyBytes c < cfg_maxUploadFieldBytes c, ''max_upload_field_bytes must be <= max_body_bytes''),
      (cfg_enableEndpointAuth c \<and> cfg_authBearerToken c = [] \<and> cfg_authTokens c = [] \<and> cfg_authSecretsFile c = [],
       ''auth_bearer_token, auth_token.*, or auth_secrets_file is required when endpoint auth is enabled'')]"

fun token_checks :: "string list \<Rightarrow> auth_token_rule list \<Rightarrow> (bool \<times> string) list" where
  "token_checks names [] = []"
| "token_checks names (t # ts) =
     (tk_name t = [], ''auth_token name cannot be empty'') #
     (tk_plaintextToken t = [] \<and> tk_sha256Hex t = [], ''auth_token value cannot be empty'') #
     (tk_scopes t = [], ''auth_token scopes cannot be empty'') #
     (tk_name t \<in> set names, ''duplicate auth_token name: '' @ tk_name t) # token_checks (tk_name t # names) ts"

definition endpoint_checks :: "server_config \<Rightarrow> (bool \<times> string) list" where
  "endpoint_checks c =
     [(0 < cfg_auditRotateBytes c \<and> cfg_auditRotateKeep c = 0, ''audit_rotate_keep must be greater than 0 when rotation is enabled''),
      (86400 < cfg_authReloadIntervalSeconds c, ''auth_reload_interval_seconds is unreasonably large''),
      (cfg_adminStatusEndpoint c = [] \<or> hd (cfg_adminStatusEndpoint c) \<noteq> CHR ''/'', ''admin_status_endpoint must start with /''),
      (cfg_enableAdminStatus c \<and> \<not> cfg_enableEndpointAuth c, ''enable_admin_status requires enable_endpoint_auth'')]"

section \<open>Loading\<close>

record machine =
  mc_fs :: file_system
  mc_cwd :: string
  mc_hardware :: nat

definition config_load :: "machine \<Rightarrow> string \<Rightarrow> string + server_config" where
  "config_load m path =
     (case fs_content (mc_fs m) path of
        None \<Rightarrow> Inl (''Cannot open config file: '' @ path)
      | Some text \<Rightarrow>
          and_then (apply_config_lines (all_lines_delim LF text) default_config) (\<lambda>c0.
          let c = resolve_paths (parent_path (absolute_path (mc_cwd m) path)) c0 in
          and_then (if cfg_authSecretsFile c \<noteq> [] then loadSecretsFile (mc_fs m) (cfg_authSecretsFile c) else Inr []) (\<lambda>unused.
          and_then (first_failure (thread_checks c)) (\<lambda>u.
          let c' = default_workers (mc_hardware m) c in
          and_then (first_failure (limit_checks c' @ token_checks [] (cfg_authTokens c') @ endpoint_checks c')) (\<lambda>u.
            Inr c')))))"

section \<open>Every value has the width of its type\<close>

definition config_typed :: "server_config \<Rightarrow> bool" where
  "config_typed c \<longleftrightarrow>
     list_all (\<lambda>n. n < 2 ^ 16) [cfg_port c, cfg_tlsPort c, cfg_publicHttpsPort c, cfg_phpFastcgiPort c] \<and>
     list_all (\<lambda>n. n < 2 ^ 32)
       [cfg_authReloadIntervalSeconds c, cfg_readTimeoutSeconds c, cfg_accessLogFlushIntervalMs c,
        cfg_staticCacheRevalidateMs c, cfg_phpFastcgiConnectTimeoutSeconds c,
        cfg_phpFastcgiReadTimeoutSeconds c] \<and>
     list_all (\<lambda>n. n < 2 ^ 64)
       [cfg_auditRotateBytes c, cfg_auditRotateKeep c, cfg_maxRequestBytes c, cfg_maxBodyBytes c,
        cfg_maxHeaderLineBytes c, cfg_maxHeaders c, cfg_maxUriBytes c, cfg_maxMethodBytes c,
        cfg_rateLimitPerMinute c, cfg_rateLimiterShards c, cfg_ioThreads c, cfg_workerThreads c,
        cfg_workerThreadMultiplier c, cfg_maxPendingConnections c, cfg_accessLogSampleRate c,
        cfg_accessLogQueueCapacity c, cfg_staticCacheShards c, cfg_staticCacheMaxEntries c,
        cfg_staticCacheMaxBytes c, cfg_staticCacheMaxFileBytes c, cfg_maxHtaccessDepth c,
        cfg_maxMultipartParts c, cfg_maxUploadFileBytes c, cfg_maxUploadFieldBytes c] \<and>
     list_all (\<lambda>i. - (2 ^ 31) \<le> i \<and> i < 2 ^ 31)
       [cfg_httpsRedirectStatus c, cfg_listenBacklog c, cfg_socketReceiveBufferBytes c,
        cfg_socketSendBufferBytes c]"

lemma to_int_bound: "to_int v = Inr i \<Longrightarrow> - (2 ^ 31) \<le> i \<and> i < 2 ^ 31"
  by (auto simp: to_int_def as_error_def dest: stoi_bound split: sum.splits)

lemma to_ull_bound: "to_ull v = Inr n \<Longrightarrow> n < 2 ^ 64"
  by (auto simp: to_ull_def as_error_def dest: stoull_bound split: sum.splits)

lemma to_u16_bound: "to_u16 i < 2 ^ 16"
  by (simp add: to_u16_def nat_less_iff)

lemma default_typed: "config_typed default_config"
  by (simp add: config_typed_def default_config_def)

lemma if_result:
  assumes "(if b then x else y) = Inr c" "x = Inr c \<Longrightarrow> P" "y = Inr c \<Longrightarrow> P"
  shows P
  using assms by (simp split: if_splits)

lemma and_then_result:
  assumes "and_then r f = Inr c" "\<And>x. r = Inr x \<Longrightarrow> f x = Inr c \<Longrightarrow> P"
  shows P
  using assms by (auto simp: and_then_eq_Inr)

lemma typed_result: "Inr x = Inr c \<Longrightarrow> config_typed x \<Longrightarrow> config_typed c"
  by simp

lemma apply_setting_typed:
  assumes "config_typed c" "apply_setting key val c = Inr c'"
  shows "config_typed c'"
proof -
  note H = assms(1) [unfolded config_typed_def list.pred_inject, simplified]
  have u32: "n mod 2 ^ 32 < (2 ^ 32 :: nat)" for n by simp
  have "apply_setting key val c = Inr c' \<Longrightarrow> config_typed c'"
    unfolding apply_setting_def
    apply (elim if_result and_then_result)
    apply ((drule to_int_bound | drule to_ull_bound)?, erule typed_result, (simp add: config_typed_def H to_u16_bound [simplified]; fail))+
    done
  then show ?thesis using assms(2) .
qed

lemma apply_line_typed: "config_typed c \<Longrightarrow> apply_config_line l c = Inr c' \<Longrightarrow> config_typed c'"
  by (auto simp: apply_config_line_def Let_def intro: apply_setting_typed split: if_splits option.splits)

lemma apply_lines_typed: "config_typed c \<Longrightarrow> apply_config_lines ls c = Inr c' \<Longrightarrow> config_typed c'"
  by (induction ls arbitrary: c) (auto elim!: and_then_result intro: apply_line_typed)

lemma default_workers_typed: "config_typed c \<Longrightarrow> config_typed (default_workers hw c)"
proof -
  assume c: "config_typed c"
  note H = c [unfolded config_typed_def list.pred_inject, simplified]
  have "max 4 (x mod 2 ^ 64) < (2 ^ 64 :: nat)" for x by (simp add: max_def)
  from this [of "max 1 hw * cfg_workerThreadMultiplier c", simplified] show ?thesis
    by (cases "cfg_workerThreads c = 0") (simp_all add: default_workers_def config_typed_def H)
qed

lemma resolve_paths_typed: "config_typed (resolve_paths b c) = config_typed c"
  by (simp add: resolve_paths_def config_typed_def)

section \<open>What a loaded configuration guarantees\<close>

lemma config_load_result:
  assumes "config_load m path = Inr c"
  obtains content c0 c1 where
    "fs_content (mc_fs m) path = Some content" "apply_config_lines (all_lines_delim LF content) default_config = Inr c0"
    "c1 = resolve_paths (parent_path (absolute_path (mc_cwd m) path)) c0" "c = default_workers (mc_hardware m) c1"
    "cfg_authSecretsFile c1 \<noteq> [] \<Longrightarrow> \<exists>ts. loadSecretsFile (mc_fs m) (cfg_authSecretsFile c1) = Inr ts"
    "first_failure (thread_checks c1) = Inr ()"
    "first_failure (limit_checks c @ token_checks [] (cfg_authTokens c) @ endpoint_checks c) = Inr ()"
proof (cases "fs_content (mc_fs m) path")
  case None
  with assms show ?thesis by (simp add: config_load_def)
next
  case (Some content)
  from assms obtain c0 where c0: "apply_config_lines (all_lines_delim LF content) default_config = Inr c0"
    by (auto simp: config_load_def Some elim: and_then_result)
  let ?c1 = "resolve_paths (parent_path (absolute_path (mc_cwd m) path)) c0"
  from assms have rest: "and_then (if cfg_authSecretsFile ?c1 \<noteq> [] then loadSecretsFile (mc_fs m) (cfg_authSecretsFile ?c1) else Inr [])
      (\<lambda>unused. and_then (first_failure (thread_checks ?c1)) (\<lambda>u.
        and_then (first_failure (limit_checks (default_workers (mc_hardware m) ?c1) @
            token_checks [] (cfg_authTokens (default_workers (mc_hardware m) ?c1)) @ endpoint_checks (default_workers (mc_hardware m) ?c1)))
          (\<lambda>u. Inr (default_workers (mc_hardware m) ?c1)))) = Inr c"
    by (simp only: config_load_def Some option.simps c0 and_then_Inr Let_def)
  show ?thesis
    by (rule that [OF Some c0 refl]; use rest in \<open>auto elim!: and_then_result split: if_splits\<close>)
qed

lemma first_failure_append:
  "first_failure (a @ b) = Inr () \<longleftrightarrow> first_failure a = Inr () \<and> first_failure b = Inr ()"
  by (induction a) auto

lemma token_checks_distinct:
  "first_failure (token_checks names ts) = Inr () \<Longrightarrow> distinct names \<Longrightarrow>
   distinct (map tk_name ts) \<and> set (map tk_name ts) \<inter> set names = {} \<and>
   list_all (\<lambda>t. tk_name t \<noteq> [] \<and> (tk_plaintextToken t \<noteq> [] \<or> tk_sha256Hex t \<noteq> []) \<and> tk_scopes t \<noteq> []) ts"
proof (induction ts arbitrary: names)
  case (Cons t ts)
  then have "tk_name t \<notin> set names" "first_failure (token_checks (tk_name t # names) ts) = Inr ()"
    by (auto split: if_splits)
  with Cons.IH [of "tk_name t # names"] Cons.prems show ?case by (auto split: if_splits)
qed simp

lemma config_load_types:
  assumes "config_load m path = Inr c"
  shows "config_typed c"
  using assms
proof (rule config_load_result)
  fix content c0 c1
  assume "apply_config_lines (all_lines_delim LF content) default_config = Inr c0"
    and "c1 = resolve_paths (parent_path (absolute_path (mc_cwd m) path)) c0" "c = default_workers (mc_hardware m) c1"
  then show ?thesis
    using apply_lines_typed [OF default_typed] by (simp add: default_workers_typed resolve_paths_typed)
qed


definition config_ok :: "server_config \<Rightarrow> bool" where
  "config_ok c \<longleftrightarrow>
     0 < cfg_ioThreads c \<and> 0 < cfg_workerThreads c \<and> 0 < cfg_maxPendingConnections c \<and> 0 < cfg_listenBacklog c \<and>
     0 < cfg_rateLimiterShards c \<and> 0 < cfg_accessLogSampleRate c \<and> 0 < cfg_accessLogQueueCapacity c \<and>
     0 < cfg_staticCacheShards c \<and> cfg_staticCacheMaxFileBytes c \<le> cfg_staticCacheMaxBytes c \<and>
     0 < cfg_maxHtaccessDepth c \<and> cfg_htaccessFilename c \<noteq> [] \<and> cfg_phpExtension c \<noteq> [] \<and> hd (cfg_phpExtension c) = CHR ''.'' \<and>
     1024 \<le> cfg_maxRequestBytes c \<and> cfg_maxBodyBytes c \<le> 64 * 1024 * 1024 \<and> 256 \<le> cfg_maxHeaderLineBytes c \<and>
     cfg_httpsRedirectStatus c \<in> {301, 308} \<and> 0 < cfg_maxMultipartParts c \<and>
     (cfg_enableUploads c \<longrightarrow> 0 < cfg_maxUploadFileBytes c \<and> cfg_maxUploadFileBytes c \<le> cfg_maxBodyBytes c) \<and>
     (cfg_enableEndpointAuth c \<longrightarrow> cfg_authBearerToken c \<noteq> [] \<or> cfg_authTokens c \<noteq> [] \<or> cfg_authSecretsFile c \<noteq> []) \<and>
     (cfg_enableAdminStatus c \<longrightarrow> cfg_enableEndpointAuth c) \<and>
     cfg_uploadEndpoint c \<noteq> [] \<and> hd (cfg_uploadEndpoint c) = CHR ''/'' \<and>
     cfg_adminStatusEndpoint c \<noteq> [] \<and> hd (cfg_adminStatusEndpoint c) = CHR ''/'' \<and>
     distinct (map tk_name (cfg_authTokens c)) \<and>
     list_all (\<lambda>t. tk_name t \<noteq> [] \<and> (tk_plaintextToken t \<noteq> [] \<or> tk_sha256Hex t \<noteq> []) \<and> tk_scopes t \<noteq> []) (cfg_authTokens c)"

lemma config_load_ok:
  assumes "config_load m path = Inr c"
  shows "config_ok c"
  using assms
proof (rule config_load_result)
  fix c1
  assume c: "c = default_workers (mc_hardware m) c1" and t: "first_failure (thread_checks c1) = Inr ()"
    and f: "first_failure (limit_checks c @ token_checks [] (cfg_authTokens c) @ endpoint_checks c) = Inr ()"
  have io: "0 < cfg_ioThreads c" "0 < cfg_workerThreads c"
    using t by (auto simp: c default_workers_def thread_checks_def split: if_splits)
  have l: "first_failure (limit_checks c) = Inr ()" and tok: "first_failure (token_checks [] (cfg_authTokens c)) = Inr ()"
    and e: "first_failure (endpoint_checks c) = Inr ()"
    using f by (simp_all add: first_failure_append)
  show ?thesis
    using io l e token_checks_distinct [OF tok] unfolding config_ok_def limit_checks_def endpoint_checks_def
    by (simp add: not_less not_le split: if_splits)
qed


lemma is_absolute_Cons: "is_absolute p \<longleftrightarrow> p \<noteq> [] \<and> hd p = CHR ''/''"
  by (cases p) (auto simp: is_absolute_def starts_with_def)

lemma absolute_path_absolute: "is_absolute cwd \<Longrightarrow> is_absolute (absolute_path cwd p)"
  by (cases cwd) (auto simp: absolute_path_def path_join_def is_absolute_Cons)

lemma parent_path_absolute:
  assumes "is_absolute p" shows "is_absolute (parent_path p)"
proof -
  let ?d = "rev (dropWhile (\<lambda>c. c = CHR ''/'') (dropWhile (\<lambda>c. c \<noteq> CHR ''/'') (rev p)))"
  have "suffix (rev ?d) (rev p)"
    using suffix_dropWhile [of "\<lambda>c. c = CHR ''/''" "dropWhile (\<lambda>c. c \<noteq> CHR ''/'') (rev p)"]
      suffix_dropWhile [of "\<lambda>c. c \<noteq> CHR ''/''" "rev p"] by (simp add: suffix_order.trans)
  then obtain zs where p: "p = ?d @ zs" by (auto simp: suffix_to_prefix prefix_def)
  have "is_absolute d" if "d \<noteq> []" "p = d @ zs" for d
    using assms that by (cases d) (auto simp: is_absolute_Cons)
  then have "?d \<noteq> [] \<Longrightarrow> is_absolute ?d" using p by blast
  moreover have "is_absolute ''/''" by (simp add: is_absolute_Cons)
  ultimately show ?thesis using assms unfolding parent_path_def Let_def by presburger
qed

lemma path_join_absolute: "is_absolute a \<Longrightarrow> is_absolute (path_join a b)"
  by (cases a) (auto simp: path_join_def is_absolute_Cons)

lemma lexically_normal_absolute: "is_absolute p \<Longrightarrow> is_absolute (lexically_normal p)"
  by (auto simp: lexically_normal_def is_absolute_Cons Let_def)

lemma resolvePath_absolute_or_empty: "is_absolute base \<Longrightarrow> resolvePath base v = [] \<or> is_absolute (resolvePath base v)"
  by (auto simp: resolvePath_def intro: lexically_normal_absolute path_join_absolute)

text \<open>
  No path of a loaded configuration depends on the directory the server is started in later:
  each of them is empty or absolute, a relative one taken from the directory of the file.
\<close>

theorem config_paths_absolute:
  assumes "config_load m path = Inr c" "is_absolute (mc_cwd m)"
  shows "list_all (\<lambda>p. p = [] \<or> is_absolute p)
      [cfg_tlsCertFile c, cfg_tlsKeyFile c, cfg_defaultRoot c, cfg_accessLog c, cfg_errorLog c, cfg_auditLog c,
       cfg_authSecretsFile c, cfg_sqliteDatabase c, cfg_uploadDirectory c, cfg_uploadSpoolDirectory c] \<and>
    (\<forall>host root. cfg_virtualHosts c host = Some root \<longrightarrow> root = [] \<or> is_absolute root)"
  using assms(1)
proof (rule config_load_result)
  fix c0 c1
  assume c: "c1 = resolve_paths (parent_path (absolute_path (mc_cwd m) path)) c0" "c = default_workers (mc_hardware m) c1"
  have "is_absolute (parent_path (absolute_path (mc_cwd m) path))"
    using assms(2) by (intro parent_path_absolute absolute_path_absolute)
  note abs = resolvePath_absolute_or_empty [OF this]
  show ?thesis
    using abs unfolding c(2) default_workers_def c(1) resolve_paths_def by auto
qed

section \<open>A configuration file\<close>

lemma setting_port: "apply_setting ''port'' v c = and_then (to_int v) (\<lambda>i. Inr (c\<lparr>cfg_port := to_u16 i\<rparr>))"
  by (simp add: apply_setting_def)

lemma setting_root: "apply_setting ''default_root'' v c = Inr (c\<lparr>cfg_defaultRoot := v\<rparr>)"
  by (simp add: apply_setting_def)

lemma setting_request: "apply_setting ''max_request_bytes'' v c = and_then (to_ull v) (\<lambda>n. Inr (c\<lparr>cfg_maxRequestBytes := n\<rparr>))"
  by (simp add: apply_setting_def)

lemma config_line:
  assumes "cfg_trim (case find_char l CHR ''#'' of None \<Rightarrow> l | Some comment \<Rightarrow> substr l 0 comment) = line" "line \<noteq> []"
    "find_char line CHR ''='' = Some e" "cfg_trim (substr line 0 e) = key" "cfg_trim (drop (e + 1) line) = val"
  shows "apply_config_line l c = apply_setting key val c"
  using assms(2-5) unfolding apply_config_line_def Let_def assms(1) by simp

text \<open>A port number that does not fit its type is taken modulo 65536, and a negative size becomes a huge one.\<close>

lemma port_wraps: "apply_config_line ''port = 70000 # http'' c = Inr (c\<lparr>cfg_port := 4464\<rparr>)"
proof -
  have "apply_config_line ''port = 70000 # http'' c = apply_setting ''port'' ''70000'' c"
    by (rule config_line [where line = "''port = 70000''" and e = 5]) code_simp+
  moreover have "to_int ''70000'' = Inr 70000" "to_u16 70000 = 4464" by code_simp+
  ultimately show ?thesis by (simp add: setting_port)
qed

lemma negative_limit:
  "apply_config_line ''max_request_bytes=-1'' c = Inr (c\<lparr>cfg_maxRequestBytes := 18446744073709551615\<rparr>)"
proof -
  have "apply_config_line ''max_request_bytes=-1'' c = apply_setting ''max_request_bytes'' ''-1'' c"
    by (rule config_line [where line = "''max_request_bytes=-1''" and e = 17]) code_simp+
  moreover have "to_ull ''-1'' = Inr 18446744073709551615" by code_simp
  ultimately show ?thesis by (simp add: setting_request)
qed

lemma root_line: "apply_config_line ''default_root=site'' c = Inr (c\<lparr>cfg_defaultRoot := ''site''\<rparr>)"
proof -
  have "apply_config_line ''default_root=site'' c = apply_setting ''default_root'' ''site'' c"
    by (rule config_line [where line = "''default_root=site''" and e = 12]) code_simp+
  then show ?thesis by (simp add: setting_root)
qed

definition example_machine :: machine where
  "example_machine =
     \<lparr>mc_fs = example_fs_base\<lparr>fs_content := (\<lambda>p. if p = ''h.conf'' then Some (''port = 70000 # http'' @ [LF] @ ''default_root=site'') else None),
                fs_exists := (\<lambda>p. Some (p = ''/etc/site''))\<rparr>,
      mc_cwd = ''/etc'', mc_hardware = 2\<rparr>"

definition example_config :: server_config where
  "example_config =
     default_workers 2 (resolve_paths ''/etc'' (default_config\<lparr>cfg_port := 4464, cfg_defaultRoot := ''site''\<rparr>))"

lemma example_config_loaded: "config_load example_machine ''h.conf'' = Inr example_config"
proof -
  have f: "fs_content (mc_fs example_machine) ''h.conf'' = Some (''port = 70000 # http'' @ [LF] @ ''default_root=site'')"
    by (simp add: example_machine_def)
  have l: "all_lines_delim LF (''port = 70000 # http'' @ [LF] @ ''default_root=site'') = [''port = 70000 # http'', ''default_root=site'']"
    by code_simp
  have p: "parent_path (absolute_path (mc_cwd example_machine) ''h.conf'') = ''/etc''" by code_simp
  let ?c1 = "resolve_paths ''/etc'' (default_config\<lparr>cfg_port := 4464, cfg_defaultRoot := ''site''\<rparr>)"
  have "cfg_authSecretsFile ?c1 = []" by (simp add: resolve_paths_def resolvePath_def default_config_def)
  moreover have "first_failure (thread_checks ?c1) = Inr ()"
    by (simp add: thread_checks_def resolve_paths_def default_config_def)
  moreover have "first_failure (limit_checks example_config) = Inr ()" "cfg_authTokens example_config = []"
    "first_failure (endpoint_checks example_config) = Inr ()"
    by (simp_all add: limit_checks_def endpoint_checks_def example_config_def default_workers_def resolve_paths_def default_config_def)
  then have "first_failure (limit_checks example_config @ token_checks [] (cfg_authTokens example_config) @ endpoint_checks example_config) = Inr ()"
    by (simp add: first_failure_append)
  moreover have "example_config = default_workers (mc_hardware example_machine) ?c1"
    by (simp add: example_config_def example_machine_def)
  ultimately show ?thesis
    by (simp only: config_load_def f option.simps l apply_config_lines.simps port_wraps root_line and_then_Inr p Let_def
        simp_thms if_False)
qed



theorem config_paths_absolute_witness: "cfg_defaultRoot example_config = [] \<or> is_absolute (cfg_defaultRoot example_config)"
proof -
  have "is_absolute (mc_cwd example_machine)" by code_simp
  from config_paths_absolute [OF example_config_loaded this] show ?thesis by simp
qed

end
