(* ===== verification/Logger.thy ===== *)
theory Logger
  imports Numbers BoundedQueue
begin

text \<open>
  \<open>src/src/Logger.cpp\<close> and \<open>.hpp\<close>: the access log with its queue, its writer thread and its
  shutdown, and the audit log with its rotation. A log file is its content; the access log is
  \<^const>\<open>None\<close> when it could not be opened. The time of a line is an argument.
\<close>

section \<open>The access log\<close>

datatype log_writer = NoWriter | WriterWaiting | WriterHolds "string list" | WriterDone

record access_log =
  al_enabled :: bool
  al_async :: bool
  al_sampleRate :: nat
  al_capacity :: nat
  al_counter :: nat
  al_dropped :: nat
  al_queue :: "string list"
  al_stopping :: bool
  al_writer :: log_writer
  al_file :: "string option"

definition make_access_log :: "bool \<Rightarrow> bool \<Rightarrow> nat \<Rightarrow> nat \<Rightarrow> string option \<Rightarrow> access_log" where
  "make_access_log async enabled rate capacity content =
     \<lparr>al_enabled = enabled, al_async = async, al_sampleRate = (if rate = 0 then 1 else rate),
      al_capacity = (if capacity = 0 then 1 else capacity), al_counter = 0, al_dropped = 0, al_queue = [],
      al_stopping = False, al_writer = (if enabled \<and> async then WriterWaiting else NoWriter),
      al_file = (if enabled then content else None)\<rparr>"

definition access_line :: "string \<Rightarrow> string \<Rightarrow> string \<Rightarrow> string \<Rightarrow> string \<Rightarrow> int \<Rightarrow> nat \<Rightarrow> string" where
  "access_line now ip scheme method target status bytes =
     now @ '' ip='' @ ip @ '' scheme='' @ scheme @ '' method='' @ method @ '' target='' @ [DQUOTE] @ target @ [DQUOTE] @
     '' status='' @ to_string_int status @ '' bytes='' @ to_string bytes @ [LF]"

definition append_file :: "string \<Rightarrow> string option \<Rightarrow> string option" where
  "append_file data f = map_option (\<lambda>old. old @ data) f"

text \<open>The part of \<open>access\<close> under the queue mutex.\<close>

definition log_push :: "string \<Rightarrow> access_log \<Rightarrow> bool \<times> access_log" where
  "log_push line st =
     (if al_capacity st \<le> length (al_queue st) then (False, st\<lparr>al_dropped := (al_dropped st + 1) mod 2 ^ 64\<rparr>)
      else (True, st\<lparr>al_queue := al_queue st @ [line]\<rparr>))"

datatype access_result = Disabled | NotSampled | Written | Queued | Dropped

definition log_access :: "string \<Rightarrow> access_log \<Rightarrow> access_result \<times> access_log" where
  "log_access line st =
     (if \<not> al_enabled st then (Disabled, st)
      else
        let sequence = al_counter st; st1 = st\<lparr>al_counter := (al_counter st + 1) mod 2 ^ 64\<rparr>
        in if sequence mod al_sampleRate st \<noteq> 0 then (NotSampled, st1)
           else if \<not> al_async st then (Written, st1\<lparr>al_file := append_file line (al_file st1)\<rparr>)
           else (case log_push line st1 of (ok, st2) \<Rightarrow> (if ok then Queued else Dropped, st2)))"

definition writeAccessBatch :: "string list \<Rightarrow> access_log \<Rightarrow> access_log" where
  "writeAccessBatch batch st = st\<lparr>al_file := append_file (concat batch) (al_file st)\<rparr>"

text \<open>
  The writer thread: it wakes up for a line, for the end, or after the flush interval, takes the
  whole queue, and writes it without holding the queue's mutex.
\<close>

definition accessWriterLoop :: "access_log \<Rightarrow> access_log" where
  "accessWriterLoop st =
     (case al_writer st of
        WriterWaiting \<Rightarrow>
          if al_stopping st \<and> al_queue st = [] then st\<lparr>al_writer := WriterDone\<rparr>
          else st\<lparr>al_writer := WriterHolds (al_queue st), al_queue := []\<rparr>
      | WriterHolds batch \<Rightarrow> (writeAccessBatch batch st)\<lparr>al_writer := WriterWaiting\<rparr>
      | _ \<Rightarrow> st)"

definition flushAccess :: "access_log \<Rightarrow> access_log" where
  "flushAccess st =
     (if al_enabled st \<and> al_async st then writeAccessBatch (al_queue st) (st\<lparr>al_queue := []\<rparr>) else st)"

text \<open>The destructor: it stops the writer, waits for it, and writes what is left.\<close>

definition stop_writer :: "access_log \<Rightarrow> access_log" where
  "stop_writer st = (if al_enabled st \<and> al_async st then st\<lparr>al_stopping := True\<rparr> else st)"

definition writer_joined :: "access_log \<Rightarrow> bool" where
  "writer_joined st \<longleftrightarrow> al_writer st = WriterDone \<or> al_writer st = NoWriter"

section \<open>All interleavings\<close>

datatype log_event = Access string access_result | Writer | StopWriter

inductive log_step :: "access_log \<Rightarrow> log_event \<Rightarrow> access_log \<Rightarrow> bool" where
  access: "log_access line st = (r, st') \<Longrightarrow> log_step st (Access line r) st'"
| writer: "log_step st Writer (accessWriterLoop st)"
| stop: "log_step st StopWriter (stop_writer st)"

inductive_cases log_stepE: "log_step st e st'"

inductive log_run :: "access_log \<Rightarrow> log_event list \<Rightarrow> access_log \<Rightarrow> bool" where
  new: "log_run (make_access_log async enabled rate capacity content) []
          (make_access_log async enabled rate capacity content)"
| more: "log_run st es st' \<Longrightarrow> log_step st' e st'' \<Longrightarrow> log_run st (es @ [e]) st''"

fun logged :: "log_event \<Rightarrow> string list" where
  "logged (Access line Written) = [line]"
| "logged (Access line Queued) = [line]"
| "logged e = []"

fun is_dropped :: "log_event \<Rightarrow> bool" where
  "is_dropped (Access line Dropped) = True"
| "is_dropped e = False"

definition held :: "access_log \<Rightarrow> string list" where
  "held st = (case al_writer st of WriterHolds batch \<Rightarrow> batch | _ \<Rightarrow> [])"

interpretation log_queue: bounded_queue log_push al_queue al_capacity
  by unfold_locales (auto simp: log_push_def split: if_splits)

definition log_inv :: "access_log \<Rightarrow> log_event list \<Rightarrow> access_log \<Rightarrow> bool" where
  "log_inv st0 es st \<longleftrightarrow>
     (\<forall>old. al_file st0 = Some old \<longrightarrow>
        al_file st \<noteq> None \<and> the (al_file st) @ concat (held st) @ concat (al_queue st) = old @ concat (concat (map logged es))) \<and>
     (al_file st0 = None \<longrightarrow> al_file st = None) \<and>
     length (al_queue st) \<le> al_capacity st \<and> al_dropped st = length (filter is_dropped es) mod 2 ^ 64 \<and>
     al_capacity st = al_capacity st0 \<and> al_async st = al_async st0 \<and> al_enabled st = al_enabled st0 \<and>
     (al_async st \<and> al_enabled st \<or> (al_queue st = [] \<and> al_writer st = NoWriter)) \<and>
     (al_writer st = WriterDone \<longrightarrow> al_stopping st)"

lemmas log_defs = log_access_def log_push_def accessWriterLoop_def writeAccessBatch_def stop_writer_def append_file_def

lemma log_inv_new: "log_inv (make_access_log a e r c f) [] (make_access_log a e r c f)"
  by (simp add: log_inv_def make_access_log_def held_def)

lemma log_access_cases:
  assumes "log_access line st = (r, st')"
  obtains (off) "r = Disabled" "st' = st"
  | (skipped) "r = NotSampled" "st' = st\<lparr>al_counter := (al_counter st + 1) mod 2 ^ 64\<rparr>"
  | (direct) "r = Written" "al_enabled st" "\<not> al_async st"
      "st' = st\<lparr>al_counter := (al_counter st + 1) mod 2 ^ 64, al_file := append_file line (al_file st)\<rparr>"
  | (full) "r = Dropped" "st' = st\<lparr>al_counter := (al_counter st + 1) mod 2 ^ 64, al_dropped := (al_dropped st + 1) mod 2 ^ 64\<rparr>"
  | (queued) "r = Queued" "al_enabled st" "al_async st" "length (al_queue st) < al_capacity st"
      "st' = st\<lparr>al_counter := (al_counter st + 1) mod 2 ^ 64, al_queue := al_queue st @ [line]\<rparr>"
  using assms by (auto simp: log_access_def log_push_def Let_def split: if_splits)

lemma log_inv_access:
  assumes "log_inv st0 es st" "log_access line st = (r, st')"
  shows "log_inv st0 (es @ [Access line r]) st'"
  using assms(2)
proof (cases rule: log_access_cases)
  case off
  with assms(1) show ?thesis by (auto simp: log_inv_def)
next
  case skipped
  with assms(1) show ?thesis by (auto simp: log_inv_def held_def)
next
  case direct
  with assms(1) show ?thesis by (auto simp: log_inv_def held_def append_file_def)
next
  case full
  with assms(1) show ?thesis by (auto simp: log_inv_def held_def mod_Suc_eq)
next
  case queued
  with assms(1) show ?thesis by (auto simp: log_inv_def held_def simp flip: append_assoc)
qed

lemma log_inv_writer: "log_inv st0 es st \<Longrightarrow> log_inv st0 (es @ [Writer]) (accessWriterLoop st)"
proof (cases "al_writer st")
  case (WriterHolds batch)
  assume "log_inv st0 es st"
  then show ?thesis using WriterHolds
    by (auto simp: log_inv_def held_def accessWriterLoop_def writeAccessBatch_def append_file_def)
next
  case WriterWaiting
  assume "log_inv st0 es st"
  then show ?thesis using WriterWaiting by (auto simp: log_inv_def held_def accessWriterLoop_def)
qed (auto simp: log_inv_def held_def accessWriterLoop_def)

lemma log_inv_stop: "log_inv st0 es st \<Longrightarrow> log_inv st0 (es @ [StopWriter]) (stop_writer st)"
  by (auto simp: log_inv_def held_def stop_writer_def)

lemma log_run_inv: "log_run st0 es st \<Longrightarrow> log_inv st0 es st"
proof (induction rule: log_run.induct)
  case new
  show ?case by (rule log_inv_new)
next
  case (more st es st' e st'')
  from more.hyps(2) more.IH show ?case
    by (cases rule: log_stepE) (auto intro: log_inv_access log_inv_writer log_inv_stop)
qed

text \<open>
  C35: in every interleaving of request threads and the writer thread the file, the batch in the
  writer's hands and the queue hold, in this order, exactly the lines that were accepted, in the
  order they were accepted; the queue keeps its bound and the counter counts the lines that were
  dropped because it was full.
\<close>

theorem access_log_invariant:
  assumes "log_run st0 es st" "al_file st0 = Some old"
  shows "al_file st \<noteq> None \<and>
    the (al_file st) @ concat (held st) @ concat (al_queue st) = old @ concat (concat (map logged es)) \<and>
    length (al_queue st) \<le> al_capacity st \<and> al_dropped st = length (filter is_dropped es) mod 2 ^ 64"
  using log_run_inv [OF assms(1)] assms(2) by (simp add: log_inv_def)

text \<open>
  C36: after the shutdown of the logger every accepted line is in the file, once and in order, also
  the lines that were accepted while the writer was already stopping.
\<close>

theorem access_log_drained:
  assumes "log_run st0 es st" "al_file st0 = Some old" "writer_joined st"
  shows "al_file (flushAccess st) = Some (old @ concat (concat (map logged es)))"
proof -
  note inv = log_run_inv [OF assms(1), unfolded log_inv_def]
  have "held st = []" using assms(3) by (auto simp: writer_joined_def held_def)
  then have "the (al_file st) @ concat (al_queue st) = old @ concat (concat (map logged es))" "al_file st \<noteq> None"
    using inv assms(2) by simp_all
  moreover have "al_queue st = []" if "\<not> (al_enabled st \<and> al_async st)" using inv that by blast
  ultimately show ?thesis by (auto simp: flushAccess_def writeAccessBatch_def append_file_def)
qed

text \<open>
  The shutdown does not wait for ever: once it is asked to stop, and no further line comes in,
  the writer is done after at most four of its steps, whatever it was doing.
\<close>

theorem log_writer_stops:
  assumes "al_stopping st" "al_writer st \<noteq> NoWriter"
  shows "\<exists>k \<le> 4. al_writer ((accessWriterLoop ^^ k) st) = WriterDone"
proof -
  have wait_empty: "al_writer (accessWriterLoop s) = WriterDone"
    if "al_stopping s" "al_writer s = WriterWaiting" "al_queue s = []" for s
    using that by (simp add: accessWriterLoop_def)
  have wait: "\<exists>k \<le> 3. al_writer ((accessWriterLoop ^^ k) s) = WriterDone"
    if "al_stopping s" "al_writer s = WriterWaiting" for s
  proof (cases "al_queue s = []")
    case True
    with wait_empty [of s] that show ?thesis by (intro exI [of _ 1]) simp
  next
    case False
    let ?s = "accessWriterLoop (accessWriterLoop s)"
    have "al_stopping ?s" "al_writer ?s = WriterWaiting" "al_queue ?s = []"
      using that False by (simp_all add: accessWriterLoop_def writeAccessBatch_def)
    from wait_empty [OF this] show ?thesis by (intro exI [of _ 3]) (simp add: numeral_eq_Suc)
  qed
  show ?thesis
  proof (cases "al_writer st")
    case (WriterHolds batch)
    then have "al_stopping (accessWriterLoop st)" "al_writer (accessWriterLoop st) = WriterWaiting"
      using assms by (simp_all add: accessWriterLoop_def writeAccessBatch_def)
    from wait [OF this] obtain k where "k \<le> 3" "al_writer ((accessWriterLoop ^^ k) (accessWriterLoop st)) = WriterDone"
      by blast
    then show ?thesis by (intro exI [of _ "Suc k"]) (simp add: funpow_swap1)
  next
    case WriterWaiting
    with wait [OF assms(1)] obtain k where k: "k \<le> 3" "al_writer ((accessWriterLoop ^^ k) st) = WriterDone" by blast
    then show ?thesis by (intro exI [of _ k]) simp
  next
    case WriterDone
    then show ?thesis by (intro exI [of _ 0]) simp
  qed (use assms in simp)
qed

section \<open>The audit log\<close>

text \<open>Files by name. Which removals and renamings the system refuses is the environment; the code ignores it.\<close>

record audit_log =
  au_path :: string
  au_rotateBytes :: nat
  au_rotateKeep :: nat
  au_files :: "string \<rightharpoonup> string"

record audit_env =
  ae_remove_ok :: "string \<Rightarrow> bool"
  ae_rename_ok :: "string \<Rightarrow> string \<Rightarrow> bool"

definition numbered :: "string \<Rightarrow> nat \<Rightarrow> string" where
  "numbered path i = path @ ''.'' @ to_string i"

definition remove_file :: "audit_env \<Rightarrow> string \<Rightarrow> (string \<rightharpoonup> string) \<Rightarrow> (string \<rightharpoonup> string)" where
  "remove_file env p files = (if ae_remove_ok env p then files(p := None) else files)"

definition rename_file :: "audit_env \<Rightarrow> string \<Rightarrow> string \<Rightarrow> (string \<rightharpoonup> string) \<Rightarrow> (string \<rightharpoonup> string)" where
  "rename_file env from to files = (if ae_rename_ok env from to then (files(from := None))(to := files from) else files)"

definition shift_one :: "audit_env \<Rightarrow> string \<Rightarrow> nat \<Rightarrow> (string \<rightharpoonup> string) \<Rightarrow> (string \<rightharpoonup> string)" where
  "shift_one env path index files =
     (if files (numbered path (index - 1)) \<noteq> None
      then rename_file env (numbered path (index - 1)) (numbered path index) (remove_file env (numbered path index) files)
      else files)"

text \<open>\<open>for (index = auditRotateKeep_; index > 1; --index)\<close>\<close>

fun shift_logs :: "audit_env \<Rightarrow> string \<Rightarrow> nat \<Rightarrow> (string \<rightharpoonup> string) \<Rightarrow> (string \<rightharpoonup> string)" where
  "shift_logs env path index files =
     (if index > 1 then shift_logs env path (index - 1) (shift_one env path index files) else files)"

declare shift_logs.simps [simp del]

definition openAudit :: "string \<Rightarrow> (string \<rightharpoonup> string) \<Rightarrow> (string \<rightharpoonup> string)" where
  "openAudit path files = (case files path of None \<Rightarrow> files(path \<mapsto> []) | Some _ \<Rightarrow> files)"

definition current_size :: "audit_log \<Rightarrow> nat" where
  "current_size au = (case au_files au (au_path au) of None \<Rightarrow> 0 | Some s \<Rightarrow> length s)"

definition rotateAuditIfNeeded :: "audit_env \<Rightarrow> nat \<Rightarrow> audit_log \<Rightarrow> audit_log" where
  "rotateAuditIfNeeded env incomingBytes au =
     (if au_rotateBytes au = 0 \<or> au_rotateKeep au = 0 then au
      else if current_size au + incomingBytes \<le> au_rotateBytes au then au
      else
        let path = au_path au;
            files1 = remove_file env (numbered path (au_rotateKeep au)) (au_files au);
            files2 = shift_logs env path (au_rotateKeep au) files1;
            files3 = (if files2 path \<noteq> None
                      then rename_file env path (path @ ''.1'') (remove_file env (path @ ''.1'') files2) else files2)
        in au\<lparr>au_files := openAudit path files3\<rparr>)"

definition audit_line :: "string \<Rightarrow> string \<Rightarrow> string" where
  "audit_line now message = now @ '' '' @ message @ [LF]"

definition audit :: "audit_env \<Rightarrow> string \<Rightarrow> string \<Rightarrow> audit_log \<Rightarrow> audit_log" where
  "audit env now message au =
     (let line = audit_line now message; au1 = rotateAuditIfNeeded env (length line) au
      in au1\<lparr>au_files := (au_files au1)(au_path au1 := append_file line (au_files au1 (au_path au1)))\<rparr>)"

text \<open>The error log is one file that only grows, if it could be opened.\<close>

definition log_error :: "string \<Rightarrow> string \<Rightarrow> string option \<Rightarrow> string option" where
  "log_error now message errors = append_file (now @ '' '' @ message @ [LF]) errors"

section \<open>What rotation does\<close>

lemma numbered_inject [simp]: "numbered p i = numbered p j \<longleftrightarrow> i = j"
  by (simp add: numbered_def)

lemma numbered_neq [simp]: "numbered p i \<noteq> p" "p \<noteq> numbered p i"
  by (simp_all add: numbered_def)

lemma numbered_1: "p @ ''.1'' = numbered p 1"
proof -
  have "to_string 1 = ''1''" by code_simp
  then show ?thesis by (simp add: numbered_def)
qed

definition all_ok :: "audit_env \<Rightarrow> bool" where
  "all_ok env \<longleftrightarrow> (\<forall>p q. ae_remove_ok env p \<and> ae_rename_ok env p q)"

lemma shift_one_ok:
  assumes "all_ok env" "1 < i"
  shows "shift_one env path i files = (if files (numbered path (i - 1)) = None then files
    else files(numbered path i := files (numbered path (i - 1)), numbered path (i - 1) := None))"
  using assms by (auto simp: shift_one_def rename_file_def remove_file_def all_ok_def fun_eq_iff)

lemma shift_logs_ok:
  "all_ok env \<Longrightarrow> files (numbered path k) = None \<Longrightarrow>
   (\<forall>i. 1 < i \<and> i \<le> k \<longrightarrow> shift_logs env path k files (numbered path i) = files (numbered path (i - 1))) \<and>
   (1 \<le> k \<longrightarrow> shift_logs env path k files (numbered path 1) = None) \<and>
   (\<forall>p. (\<forall>i. 1 \<le> i \<and> i \<le> k \<longrightarrow> p \<noteq> numbered path i) \<longrightarrow> shift_logs env path k files p = files p)"
proof (induction env path k files rule: shift_logs.induct)
  case (1 env path k files)
  show ?case
  proof (cases "1 < k")
    case False
    then have s: "shift_logs env path k files = files" by (simp add: shift_logs.simps [of env path k])
    have "\<not> (1 < i \<and> i \<le> k)" for i using False by auto
    moreover have "1 \<le> k \<Longrightarrow> k = 1" using False by simp
    ultimately show ?thesis using "1.prems" s by auto
  next
    case True
    let ?f = "shift_one env path k files"
    have s: "shift_logs env path k files = shift_logs env path (k - 1) ?f"
      using True by (simp add: shift_logs.simps [of env path k])
    have f: "?f (numbered path (k - 1)) = None" "?f (numbered path k) = files (numbered path (k - 1))"
      "\<And>p. p \<noteq> numbered path k \<Longrightarrow> p \<noteq> numbered path (k - 1) \<Longrightarrow> ?f p = files p"
      using "1.prems" True by (auto simp: shift_one_ok)
    note IH = "1.IH" [OF True "1.prems"(1) f(1)]
    show ?thesis
    proof (intro conjI allI impI)
      fix i assume i: "1 < i \<and> i \<le> k"
      show "shift_logs env path k files (numbered path i) = files (numbered path (i - 1))"
      proof (cases "i = k")
        case True
        have "shift_logs env path (k - 1) ?f (numbered path k) = ?f (numbered path k)"
          using IH i by (intro conjunct2 [OF conjunct2 [OF IH], rule_format]) auto
        then show ?thesis using s f(2) True by simp
      next
        case False
        with i have "1 < i \<and> i \<le> k - 1" by auto
        with IH have "shift_logs env path (k - 1) ?f (numbered path i) = ?f (numbered path (i - 1))" by blast
        moreover have "i - 1 \<noteq> k" "i - 1 \<noteq> k - 1" using i False by auto
        ultimately show ?thesis using s f(3) by simp
      qed
    next
      show "shift_logs env path k files (numbered path 1) = None" using IH s True by simp
    next
      fix p assume p: "\<forall>i. 1 \<le> i \<and> i \<le> k \<longrightarrow> p \<noteq> numbered path i"
      then have "shift_logs env path (k - 1) ?f p = ?f p"
        using IH by (intro conjunct2 [OF conjunct2 [OF IH], rule_format]) auto
      then show "shift_logs env path k files p = files p" using s f(3) p True by simp
    qed
  qed
qed

lemma rotated_files:
  assumes "all_ok env" "0 < au_rotateBytes au" "0 < au_rotateKeep au" "au_rotateBytes au < current_size au + n"
  shows "au_files (rotateAuditIfNeeded env n au) (au_path au) = Some [] \<and>
    au_files (rotateAuditIfNeeded env n au) (numbered (au_path au) 1) = au_files au (au_path au) \<and>
    (\<forall>i. 1 < i \<and> i \<le> au_rotateKeep au \<longrightarrow>
       au_files (rotateAuditIfNeeded env n au) (numbered (au_path au) i) = au_files au (numbered (au_path au) (i - 1))) \<and>
    (\<forall>p. p \<noteq> au_path au \<and> (\<forall>i. 1 \<le> i \<and> i \<le> au_rotateKeep au \<longrightarrow> p \<noteq> numbered (au_path au) i) \<longrightarrow>
       au_files (rotateAuditIfNeeded env n au) p = au_files au p)"
proof -
  let ?p = "au_path au" and ?k = "au_rotateKeep au"
  define f1 where "f1 = remove_file env (numbered ?p ?k) (au_files au)"
  define f2 where "f2 = shift_logs env ?p ?k f1"
  define f3 where "f3 = (if f2 ?p \<noteq> None then rename_file env ?p (numbered ?p 1) (remove_file env (numbered ?p 1) f2) else f2)"
  have f1: "f1 = (au_files au)(numbered ?p ?k := None)" using assms(1) by (simp add: f1_def remove_file_def all_ok_def)
  note s = shift_logs_ok [OF assms(1), of f1 ?p ?k, folded f2_def]
  have none: "f1 (numbered ?p ?k) = None" by (simp add: f1)
  have f2: "f2 (numbered ?p i) = au_files au (numbered ?p (i - 1))" if "1 < i" "i \<le> ?k" for i
  proof -
    have "f2 (numbered ?p i) = f1 (numbered ?p (i - 1))" using s [OF none] that by blast
    moreover have "i - 1 \<noteq> ?k" using that by simp
    ultimately show ?thesis by (simp add: f1)
  qed
  have f2': "f2 p = au_files au p" if "\<forall>i. 1 \<le> i \<and> i \<le> ?k \<longrightarrow> p \<noteq> numbered ?p i" for p
  proof -
    have "f2 p = f1 p" using s [OF none] that by blast
    moreover have "p \<noteq> numbered ?p ?k" using that assms(3) by (metis Suc_leI One_nat_def order_refl)
    ultimately show ?thesis by (simp add: f1)
  qed
  have f21: "f2 (numbered ?p 1) = None" using s [OF none] assms(3) by (simp add: Suc_le_eq)
  have f2p: "f2 ?p = au_files au ?p" by (rule f2') simp
  have f3: "f3 = (if au_files au ?p \<noteq> None then (f2(?p := None))(numbered ?p 1 := au_files au ?p) else f2)"
    using assms(1) by (simp add: f3_def f2p rename_file_def remove_file_def all_ok_def fun_upd_twist)
  have r: "au_files (rotateAuditIfNeeded env n au) = openAudit ?p f3"
    using assms(2-4) by (simp add: rotateAuditIfNeeded_def Let_def f3_def f2_def f1_def numbered_1)
  have "f3 ?p = None" using f2p by (simp add: f3)
  then have opened: "openAudit ?p f3 = f3(?p \<mapsto> [])" by (simp add: openAudit_def)
  have "f3 (numbered ?p 1) = au_files au ?p" using f21 by (auto simp: f3)
  moreover have "f3 (numbered ?p i) = au_files au (numbered ?p (i - 1))" if "1 < i" "i \<le> ?k" for i
    using f2 [OF that] that by (auto simp: f3)
  moreover have "f3 p = au_files au p" if "p \<noteq> ?p" "\<forall>i. 1 \<le> i \<and> i \<le> ?k \<longrightarrow> p \<noteq> numbered ?p i" for p
    using f2' [OF that(2)] that assms(3) by (auto simp: f3 Suc_le_eq)
  ultimately show ?thesis unfolding r opened by simp
qed

lemma rotate_unneeded:
  "au_rotateBytes au = 0 \<or> au_rotateKeep au = 0 \<or> current_size au + n \<le> au_rotateBytes au \<Longrightarrow>
   rotateAuditIfNeeded env n au = au"
  by (auto simp: rotateAuditIfNeeded_def)

lemma rotate_path [simp]: "au_path (rotateAuditIfNeeded env n au) = au_path au"
  by (simp add: rotateAuditIfNeeded_def Let_def)

lemma rotate_exists:
  assumes "au_files au (au_path au) \<noteq> None"
  shows "\<exists>old. au_files (rotateAuditIfNeeded env n au) (au_path au) = Some old"
  using assms by (auto simp: rotateAuditIfNeeded_def openAudit_def Let_def split: option.splits)


section \<open>The theorems at concrete logs\<close>

definition example_log :: access_log where
  "example_log = make_access_log True True 1 1 (Some ''old'')"

fun log_apply :: "string option list \<Rightarrow> access_log \<Rightarrow> log_event list \<Rightarrow> log_event list \<times> access_log" where
  "log_apply [] st es = (es, st)"
| "log_apply (None # cs) st es = log_apply cs (accessWriterLoop st) (es @ [Writer])"
| "log_apply (Some line # cs) st es =
     (case log_access line st of (r, st') \<Rightarrow> log_apply cs st' (es @ [Access line r]))"

lemma log_apply_run: "log_run st0 es st \<Longrightarrow> log_apply cs st es = (es', st') \<Longrightarrow> log_run st0 es' st'"
proof (induction cs st es rule: log_apply.induct)
  case (2 cs st es)
  then show ?case by (auto intro: log_run.more log_step.writer)
next
  case (3 line cs st es)
  then show ?case by (auto split: prod.splits intro: log_run.more log_step.access)
qed simp

definition example_log_run :: "log_event list \<times> access_log" where
  "example_log_run = log_apply [Some ''a'', Some ''b'', None, Some ''c''] example_log []"

lemma example_log_runs: "log_run example_log (fst example_log_run) (snd example_log_run)"
  by (rule log_apply_run [of _ "[]" example_log "[Some ''a'', Some ''b'', None, Some ''c'']"])
    (simp_all add: example_log_def log_run.new example_log_run_def)

lemma example_log_values:
  "concat (map logged (fst example_log_run)) = [''a'', ''c'']" "held (snd example_log_run) = [''a'']"
  "al_queue (snd example_log_run) = [''c'']" "al_dropped (snd example_log_run) = 1"
  by code_simp+

theorem access_log_invariant_witness:
  "the (al_file (snd example_log_run)) @ ''a'' @ ''c'' = ''old'' @ ''ac''"
proof -
  have "al_file example_log = Some ''old''" by code_simp
  from access_log_invariant [OF example_log_runs this] show ?thesis by (simp add: example_log_values)
qed

theorem access_log_drained_witness:
  "\<exists>es st. log_run (make_access_log True False 1 1 None) es st \<and> writer_joined st \<and>
     (\<exists>es st. log_run (make_access_log False True 1 1 (Some ''old'')) es st \<and>
        al_file (flushAccess st) = Some (''old'' @ ''a''))"
proof -
  let ?s0 = "make_access_log False True 1 1 (Some ''old'')"
  let ?r = "log_apply [Some ''a''] ?s0 []"
  have run: "log_run ?s0 (fst ?r) (snd ?r)" by (rule log_apply_run [where cs = "[Some ''a'']", OF log_run.new]) simp
  have f: "al_file ?s0 = Some ''old''" and j: "writer_joined (snd ?r)" and l: "concat (concat (map logged (fst ?r))) = ''a''"
    by code_simp+
  from access_log_drained [OF run f j] have "al_file (flushAccess (snd ?r)) = Some (''old'' @ ''a'')" by (simp only: l)
  moreover have "writer_joined (make_access_log True False 1 1 None)" by code_simp
  ultimately show ?thesis using run log_run.new by blast
qed

theorem log_writer_stops_witness:
  "\<exists>k \<le> 4. al_writer ((accessWriterLoop ^^ k) (stop_writer (snd example_log_run))) = WriterDone"
proof -
  have "al_stopping (stop_writer (snd example_log_run))" "al_writer (stop_writer (snd example_log_run)) \<noteq> NoWriter"
    by code_simp+
  then show ?thesis by (rule log_writer_stops)
qed

definition example_audit :: audit_log where
  "example_audit = \<lparr>au_path = ''a.log'', au_rotateBytes = 8, au_rotateKeep = 2, au_files = [''a.log'' \<mapsto> ''12345'', ''a.log.1'' \<mapsto> ''0'']\<rparr>"

definition all_ok_env :: audit_env where
  "all_ok_env = \<lparr>ae_remove_ok = (\<lambda>p. True), ae_rename_ok = (\<lambda>p q. True)\<rparr>"


end
