(* ===== verification/ServerState.thy ===== *)
theory ServerState
  imports Config FastCgi Htaccess Logger Multipart RequestReader Security AuthStore RateLimiter ThreadPool StaticCache
begin

text \<open>
  What the handlers of \<open>src/src/Server.cpp\<close> share: the state of a server, what a handler sees of
  the system (\<open>server_env\<close>), the responses that are built at several places, the decision on
  the bearer token of a protected endpoint and the admin status page. A handler is a function from
  the server to a result and the server after it; an exception is the left part of the result, and
  what was changed before it was thrown stays changed.
\<close>

section \<open>State\<close>

text \<open>A client that was accepted: its address, if the system knows it, and what can be read from it.\<close>

record connection =
  cn_tls :: bool
  cn_ip :: "string option"
  cn_stream :: stream

text \<open>The calls of the logger, in their order, those of the error and the audit log, which share a lock,
  and those of the access log (address, scheme, method, target, status, bytes); theory Logger has what
  the logger makes of them.\<close>

datatype log_call = LogError string | LogAudit string

datatype access_call = LogAccess string string string string int nat

record server =
  sv_config :: server_config
  sv_auth :: auth_store
  sv_limiter :: rate_limiter
  sv_pool :: "connection pool"
  sv_cache :: static_cache
  sv_uploads :: upload_state
  sv_log :: "log_call list"
  sv_accesses :: "access_call list"
  sv_startedAt :: int

text \<open>
  What the system answers during one call: the file system, the steady clock (nanoseconds), the
  system clock (in seconds and in microseconds), \<open>std::hash\<close>, the iteration order of a map, the
  FastCGI application, what the upload code asks, which directories, files and removals of the spool
  work, the version string of the build, the dropped lines of the access log, and whether the TLS
  handshake with the client and the write to it work.
\<close>

record server_env =
  en_fs :: file_system
  en_steady :: int
  en_epoch :: int
  en_micros :: int
  en_hash :: "string \<Rightarrow> nat"
  en_order :: "header_list \<Rightarrow> header_list"
  en_php :: fcgi_backend
  en_upload :: upload_env
  en_spool_mkdir :: "string \<Rightarrow> bool"
  en_spool_creatable :: "string \<Rightarrow> bool"
  en_removable :: "string \<Rightarrow> bool"
  en_version :: string
  en_dropped :: nat
  en_handshake_ok :: bool
  en_write_ok :: bool

type_synonym 'a outcome = "(string + 'a) \<times> server"

text \<open>A statement after another one that may throw.\<close>

definition go_on :: "'a outcome \<Rightarrow> ('a \<Rightarrow> server \<Rightarrow> 'b outcome) \<Rightarrow> 'b outcome" where
  "go_on r k = (case r of (Inl e, sv) \<Rightarrow> (Inl e, sv) | (Inr x, sv) \<Rightarrow> k x sv)"

lemma go_on_simps [simp]:
  "go_on (Inl e, sv) k = (Inl e, sv)"
  "go_on (Inr x, sv) k = k x sv"
  by (simp_all add: go_on_def)

lemma go_on_result:
  assumes "go_on r k = (Inr y, sv')"
  obtains x sv where "r = (Inr x, sv)" "k x sv = (Inr y, sv')"
  using assms by (cases r; cases "fst r") (auto simp: go_on_def)

lemma go_on_state: "(\<And>x sv. r = (Inr x, sv) \<Longrightarrow> P (snd (k x sv))) \<Longrightarrow> (\<And>e sv. r = (Inl e, sv) \<Longrightarrow> P sv) \<Longrightarrow> P (snd (go_on r k))"
  by (cases r; cases "fst r") (auto simp: go_on_def)

definition add_log :: "log_call \<Rightarrow> server \<Rightarrow> server" where
  "add_log m sv = sv\<lparr>sv_log := sv_log sv @ [m]\<rparr>"

lemma add_log_simps [simp]:
  "sv_config (add_log m sv) = sv_config sv"
  "sv_auth (add_log m sv) = sv_auth sv"
  "sv_limiter (add_log m sv) = sv_limiter sv"
  "sv_pool (add_log m sv) = sv_pool sv"
  "sv_cache (add_log m sv) = sv_cache sv"
  "sv_uploads (add_log m sv) = sv_uploads sv"
  "sv_startedAt (add_log m sv) = sv_startedAt sv"
  "sv_log (add_log m sv) = sv_log sv @ [m]"
  "sv_accesses (add_log m sv) = sv_accesses sv"
  by (simp_all add: add_log_def)

definition add_access :: "access_call \<Rightarrow> server \<Rightarrow> server" where
  "add_access m sv = sv\<lparr>sv_accesses := sv_accesses sv @ [m]\<rparr>"

section \<open>Starting\<close>

text \<open>
  The constructor: the parts that can throw, in the order of the members, and the document roots.
  Opening the port and the TLS files are calls of the system.
\<close>

definition hosts_resolve :: "server_env \<Rightarrow> server_config \<Rightarrow> bool" where
  "hosts_resolve env config \<longleftrightarrow>
     (\<forall>host \<in> dom (cfg_virtualHosts config). fs_weakly_canonical (en_fs env) (the (cfg_virtualHosts config host)) \<noteq> None)"

definition make_server :: "server_env \<Rightarrow> server_config \<Rightarrow> string + server" where
  "make_server env config =
     and_then (make_store (cfg_authTokens config) (cfg_authSecretsFile config) (cfg_authHotReload config)
                 (cfg_authReloadIntervalSeconds config) (en_fs env) (en_steady env) (en_epoch env)) (\<lambda>auth.
     and_then (make_pool (cfg_workerThreads config) (cfg_maxPendingConnections config)) (\<lambda>workers.
     and_then (weakly_canonical (en_fs env) (cfg_defaultRoot config)) (\<lambda>root.
       if \<not> hosts_resolve env config
       then Inl ''filesystem error: cannot make canonical path''
       else Inr \<lparr>sv_config = config\<lparr>cfg_defaultRoot := root,
                   cfg_virtualHosts := (\<lambda>host. Option.bind (cfg_virtualHosts config host) (fs_weakly_canonical (en_fs env)))\<rparr>,
                 sv_auth = auth,
                 sv_limiter = make_limiter (cfg_rateLimitPerMinute config) (cfg_rateLimiterShards config),
                 sv_pool = workers,
                 sv_cache = make_cache (cfg_enableStaticCache config) (cfg_staticCacheShards config)
                   (cfg_staticCacheMaxEntries config) (cfg_staticCacheMaxBytes config)
                   (cfg_staticCacheMaxFileBytes config) (cfg_staticCacheRevalidateMs config),
                 sv_uploads = \<lparr>us_store = Map.empty, us_ticks = 0\<rparr>, sv_log = [], sv_accesses = [],
                 sv_startedAt = en_steady env\<rparr>)))"

section \<open>Responses\<close>

text \<open>\<open>HttpResponse res; res.tls = tls; res.exposeServerHeader = config_.exposeServerHeader;\<close>\<close>

definition new_response :: "bool \<Rightarrow> server \<Rightarrow> http_response" where
  "new_response tls sv =
     default_response\<lparr>rs_tls := tls, rs_exposeServerHeader := cfg_exposeServerHeader (sv_config sv)\<rparr>"

text \<open>A status with its reason, and the body that is made of both (404: "404 Not Found").\<close>

definition with_status :: "int \<Rightarrow> string \<Rightarrow> http_response \<Rightarrow> http_response" where
  "with_status status reason res =
     res\<lparr>rs_status := status, rs_reason := reason, rs_body := to_string_int status @ '' '' @ reason @ [LF]\<rparr>"

definition unauthorizedResponse :: "bool \<Rightarrow> bool \<Rightarrow> server \<Rightarrow> http_response" where
  "unauthorizedResponse tls invalidToken sv =
     (let res = with_status 401 ''Unauthorized'' (new_response tls sv)
      in res\<lparr>rs_extraHeaders := AList.update ''WWW-Authenticate''
           (if invalidToken then ''Bearer error='' @ [DQUOTE] @ ''invalid_token'' @ [DQUOTE] else ''Bearer'')
           (rs_extraHeaders res)\<rparr>)"

definition forbiddenResponse :: "bool \<Rightarrow> server \<Rightarrow> http_response" where
  "forbiddenResponse tls sv = with_status 403 ''Forbidden'' (new_response tls sv)"

text \<open>
  What a handler returns: the response and its reference parameters \<open>statusOut\<close>,
  \<open>methodOut\<close> and \<open>targetOut\<close>, which the access log gets.
\<close>

record reply =
  rp_response :: http_response
  rp_status :: int
  rp_method :: string
  rp_target :: string

definition finish :: "string \<Rightarrow> string \<Rightarrow> http_response \<Rightarrow> reply" where
  "finish m t res = \<lparr>rp_response = res, rp_status = rs_status res, rp_method = m, rp_target = t\<rparr>"

lemma finish_simps [simp]:
  "rp_response (finish m t res) = res" "rp_status (finish m t res) = rs_status res"
  "rp_method (finish m t res) = m" "rp_target (finish m t res) = t"
  by (simp_all add: finish_def)

section \<open>The decision for a protected endpoint\<close>

definition parse_limits :: "server_config \<Rightarrow> http_parse_limits" where
  "parse_limits c =
     \<lparr>maxHeaderLineBytes = cfg_maxHeaderLineBytes c, maxHeaders = cfg_maxHeaders c, maxUriBytes = cfg_maxUriBytes c,
      maxMethodBytes = cfg_maxMethodBytes c, maxBodyBytes = cfg_maxBodyBytes c\<rparr>"

definition log_reload :: "auth_reload_result \<Rightarrow> server \<Rightarrow> server" where
  "log_reload reload sv =
     (let numbers = '' generation='' @ to_string (unat (rr_generation reload)) @
                    '' token_count='' @ to_string (rr_tokenCount reload)
      in (case rr_code reload of
            Reloaded \<Rightarrow> add_log (LogAudit (''event=auth_store_reloaded'' @ numbers)) sv
          | Failed \<Rightarrow>
              add_log (LogAudit (''event=auth_store_reload_failed'' @ numbers))
                (add_log (LogError (''auth_store_reload_failed error='' @ [DQUOTE] @ rr_message reload @ [DQUOTE])) sv)
          | NoChange \<Rightarrow> sv))"

definition header_or_empty :: "http_request \<Rightarrow> string \<Rightarrow> string" where
  "header_or_empty req name = (case rq_headers req name of None \<Rightarrow> [] | Some v \<Rightarrow> v)"

definition authorizeEndpoint :: "server_env \<Rightarrow> http_request \<Rightarrow> string \<Rightarrow> server \<Rightarrow> auth_decision outcome" where
  "authorizeEndpoint env req requiredScope sv =
     (if \<not> cfg_enableEndpointAuth (sv_config sv)
      then (Inr \<lparr>ad_code = Allowed, ad_tokenName = ''auth-disabled''\<rparr>, sv)
      else (case store_authorize (header_or_empty req ''authorization'') (cfg_authBearerToken (sv_config sv))
                   requiredScope (en_epoch env) (en_fs env) (en_steady env) (en_epoch env) (sv_auth sv) of
              (Inl m, st') \<Rightarrow> (Inl m, sv\<lparr>sv_auth := st'\<rparr>)
            | (Inr (decision, reload), st') \<Rightarrow> (Inr decision, log_reload reload (sv\<lparr>sv_auth := st'\<rparr>))))"

definition auditEndpointEvent ::
  "string \<Rightarrow> string \<Rightarrow> string \<Rightarrow> string \<Rightarrow> string \<Rightarrow> int \<Rightarrow> server \<Rightarrow> server" where
  "auditEndpointEvent event clientIp target requiredScope tokenName status sv =
     add_log (LogAudit (''event='' @ event @ '' ip='' @ clientIp @ '' target='' @ [DQUOTE] @ target @ [DQUOTE] @
       '' required_scope='' @ requiredScope @ '' token='' @ [DQUOTE] @ tokenName @ [DQUOTE] @
       '' status='' @ to_string_int status)) sv"

text \<open>The answer to a request that is not let in, written into the audit log; the same at both endpoints.\<close>

definition refuse_endpoint ::
  "bool \<Rightarrow> string \<Rightarrow> string \<Rightarrow> string \<Rightarrow> auth_decision \<Rightarrow> server \<Rightarrow> http_response \<times> server" where
  "refuse_endpoint tls clientIp target scope decision sv =
     (case ad_code decision of
        Missing \<Rightarrow>
          (unauthorizedResponse tls False sv, auditEndpointEvent ''auth_missing'' clientIp target scope ''-'' 401 sv)
      | InsufficientScope \<Rightarrow>
          (forbiddenResponse tls sv,
           auditEndpointEvent ''auth_scope_denied'' clientIp target scope (ad_tokenName decision) 403 sv)
      | Expired \<Rightarrow>
          (unauthorizedResponse tls True sv,
           auditEndpointEvent ''auth_expired'' clientIp target scope (ad_tokenName decision) 401 sv)
      | _ \<Rightarrow>
          (unauthorizedResponse tls True sv,
           auditEndpointEvent ''auth_invalid'' clientIp target scope ''unknown'' 401 sv))"

section \<open>The admin status page\<close>

definition json_bool :: "bool \<Rightarrow> string" where
  "json_bool b = (if b then ''true'' else ''false'')"

definition quoted :: "string \<Rightarrow> string" where
  "quoted s = [DQUOTE] @ s @ [DQUOTE]"

text \<open>The members of an object, separated by commas.\<close>

fun json_members :: "(string \<times> string) list \<Rightarrow> string" where
  "json_members [] = []"
| "json_members [(n, v)] = quoted n @ '':'' @ v"
| "json_members ((n, v) # m # ms) = quoted n @ '':'' @ v @ '','' @ json_members (m # ms)"

definition status_members :: "server_env \<Rightarrow> server \<Rightarrow> (string \<times> string) list" where
  "status_members env sv =
     (let c = sv_config sv
      in [(''service'', quoted ''HydrogenHttpd''),
          (''version'', quoted (en_version env)),
          (''uptime_seconds'', to_string_int (duration_cast seconds (en_steady env - sv_startedAt sv))),
          (''worker_threads'', to_string (cfg_workerThreads c)),
          (''queued_tasks'', to_string (queued (sv_pool sv))),
          (''active_workers'', to_string (unat (tp_active (sv_pool sv)))),
          (''completed_tasks'', to_string (unat (tp_completed (sv_pool sv)))),
          (''rejected_tasks'', to_string (unat (tp_rejected (sv_pool sv)))),
          (''max_pending_connections'', to_string (cfg_maxPendingConnections c)),
          (''rate_limiter_enabled'', json_bool (cfg_enableRateLimiter c)),
          (''rate_limiter_buckets'', to_string (bucketCount (sv_limiter sv))),
          (''dropped_access_logs'', to_string (en_dropped env)),
          (''static_cache_entries'', to_string_int (sc_entryCount (sv_cache sv))),
          (''static_cache_bytes'', to_string_int (sc_bytes (sv_cache sv))),
          (''static_cache_hits'', to_string (unat (sc_hits (sv_cache sv)))),
          (''static_cache_misses'', to_string (unat (sc_misses (sv_cache sv)))),
          (''static_cache_evictions'', to_string (unat (sc_evictions (sv_cache sv)))),
          (''tls_enabled'', json_bool (cfg_enableTls c)),
          (''uploads_enabled'', json_bool (cfg_enableUploads c)),
          (''php_enabled'', json_bool (cfg_enablePhp c)),
          (''endpoint_auth_enabled'', json_bool (cfg_enableEndpointAuth c)),
          (''configured_token_rules'', to_string (tokenCount (sv_auth sv))),
          (''auth_store_generation'', to_string (unat (as_generation (sv_auth sv)))),
          (''auth_last_reload_epoch'', to_string_int (as_lastSuccessfulReloadEpoch (sv_auth sv))),
          (''auth_hot_reload_enabled'', json_bool (as_hotReload (sv_auth sv)))])"

definition adminStatusResponse :: "server_env \<Rightarrow> bool \<Rightarrow> server \<Rightarrow> http_response" where
  "adminStatusResponse env tls sv =
     (new_response tls sv)\<lparr>rs_status := 200, rs_reason := ''OK'',
        rs_contentType := ''application/json; charset=utf-8'',
        rs_body := ''{'' @ json_members (status_members env sv) @ ''}''\<rparr>"

text \<open>The branch of \<open>handleClientStream\<close> for the admin endpoint.\<close>

definition handle_admin :: "server_env \<Rightarrow> bool \<Rightarrow> string \<Rightarrow> http_request \<Rightarrow> server \<Rightarrow> http_response outcome" where
  "handle_admin env tls clientIp req sv =
     (if \<not> cfg_enableAdminStatus (sv_config sv) then (Inr (with_status 404 ''Not Found'' (new_response tls sv)), sv)
      else if rq_method req \<noteq> ''GET'' then (Inr (with_status 405 ''Method Not Allowed'' (new_response tls sv)), sv)
      else go_on (authorizeEndpoint env req ''admin'' sv) (\<lambda>decision sv1.
        if ad_code decision \<noteq> Allowed
        then (case refuse_endpoint tls clientIp (rq_target req) ''admin'' decision sv1 of (res, sv2) \<Rightarrow> (Inr res, sv2))
        else let sv2 = auditEndpointEvent ''auth_allowed'' clientIp (rq_target req) ''admin'' (ad_tokenName decision) 200 sv1
             in (Inr (adminStatusResponse env tls sv2), sv2)))"

section \<open>Who is let in\<close>

lemma log_reload_simps [simp]:
  "sv_config (log_reload r sv) = sv_config sv"
  "sv_auth (log_reload r sv) = sv_auth sv"
  "sv_limiter (log_reload r sv) = sv_limiter sv"
  "sv_pool (log_reload r sv) = sv_pool sv"
  "sv_cache (log_reload r sv) = sv_cache sv"
  "sv_uploads (log_reload r sv) = sv_uploads sv"
  by (simp_all add: log_reload_def Let_def split: auth_reload_code.split)

lemma audit_event_simps [simp]:
  "sv_config (auditEndpointEvent e ip t s n st sv) = sv_config sv"
  "sv_auth (auditEndpointEvent e ip t s n st sv) = sv_auth sv"
  "sv_limiter (auditEndpointEvent e ip t s n st sv) = sv_limiter sv"
  "sv_pool (auditEndpointEvent e ip t s n st sv) = sv_pool sv"
  "sv_cache (auditEndpointEvent e ip t s n st sv) = sv_cache sv"
  "sv_uploads (auditEndpointEvent e ip t s n st sv) = sv_uploads sv"
  by (simp_all add: auditEndpointEvent_def)

end
