(* ===== verification/UploadHandler.thy ===== *)
theory UploadHandler
  imports ServerState
begin

text \<open>
  The two handlers of \<open>src/src/Server.cpp\<close> for the upload endpoint: the branch of
  \<open>handleClientStream\<close> that writes the body into a spool file while it arrives and parses it from
  there, and \<open>handleUploadRequest\<close>, which parses a body in memory. Writing to an open spool file
  always works in the model; whether it can be created, removed and read is up to the environment.
\<close>

section \<open>The answer\<close>

fun json_list :: "string list \<Rightarrow> string" where
  "json_list [] = []"
| "json_list [x] = x"
| "json_list (x # y # xs) = x @ '','' @ json_list (y # xs)"

text \<open>The names are written as they are, without escaping quotes or backslashes.\<close>

definition json_file :: "saved_file \<Rightarrow> string" where
  "json_file f =
     ''{'' @ json_members [(''field'', quoted (sf_fieldName f)), (''original'', quoted (sf_originalFilename f)),
       (''stored'', quoted (sf_storedFilename f)), (''size'', to_string (sf_size f))] @ ''}''"

definition upload_json :: "bool \<Rightarrow> saved_file list \<Rightarrow> string" where
  "upload_json streamed files =
     ''{'' @ json_members ([(''ok'', ''true'')] @ (if streamed then [(''streamed'', ''true'')] else []) @
       [(''files'', ''['' @ json_list (map json_file files) @ '']'')]) @ ''}''"

definition upload_reason :: "int \<Rightarrow> string" where
  "upload_reason status =
     (if status = 413 then ''Payload Too Large''
      else if status = 415 then ''Unsupported Media Type''
      else if status = 500 then ''Internal Server Error''
      else ''Bad Request'')"

definition upload_response :: "bool \<Rightarrow> multipart_result \<Rightarrow> http_response \<Rightarrow> http_response" where
  "upload_response streamed result res =
     (if \<not> mr_ok result then with_status (mr_status result) (upload_reason (mr_status result)) res
      else res\<lparr>rs_status := 200, rs_reason := ''OK'', rs_contentType := ''application/json; charset=utf-8'',
               rs_body := upload_json streamed (mr_files result)\<rparr>)"

definition upload_limits :: "server_config \<Rightarrow> multipart_limits" where
  "upload_limits c =
     \<lparr>ml_maxParts = cfg_maxMultipartParts c, ml_maxFileBytes = cfg_maxUploadFileBytes c,
      ml_maxFieldBytes = cfg_maxUploadFieldBytes c\<rparr>"

section \<open>A body in memory\<close>

definition handleUploadRequest :: "server_env \<Rightarrow> http_request \<Rightarrow> http_response \<Rightarrow> server \<Rightarrow> http_response outcome" where
  "handleUploadRequest env req res sv =
     (if \<not> cfg_enableUploads (sv_config sv) then (Inr (with_status 404 ''Not Found'' res), sv)
      else if rq_method req \<noteq> ''POST'' then (Inr (with_status 405 ''Method Not Allowed'' res), sv)
      else go_on (authorizeEndpoint env req ''upload'' sv) (\<lambda>decision sv1.
        if ad_code decision = InsufficientScope then (Inr (forbiddenResponse (rs_tls res) sv1), sv1)
        else if ad_code decision \<noteq> Allowed
        then (Inr (unauthorizedResponse (rs_tls res) (ad_code decision \<noteq> Missing) sv1), sv1)
        else (case rq_headers req ''content-type'' of
                None \<Rightarrow> (Inr (with_status 415 ''Unsupported Media Type'' res), sv1)
              | Some ct \<Rightarrow>
                  (case saveUploads (en_upload env) (rq_body req) ct (cfg_uploadDirectory (sv_config sv1))
                          (upload_limits (sv_config sv1)) (sv_uploads sv1) of
                     (Inl m, st) \<Rightarrow> (Inl m, sv1\<lparr>sv_uploads := st\<rparr>)
                   | (Inr result, st) \<Rightarrow> (Inr (upload_response False result res), sv1\<lparr>sv_uploads := st\<rparr>)))))"

section \<open>The spool file\<close>

definition uniqueSpoolPath :: "server_env \<Rightarrow> string \<Rightarrow> string" where
  "uniqueSpoolPath env directory =
     path_join directory (''upload_spool_'' @ to_string_int (en_micros env) @ ''.tmp'')"

definition write_spool :: "string \<Rightarrow> string \<Rightarrow> server \<Rightarrow> server" where
  "write_spool p content sv =
     sv\<lparr>sv_uploads := (sv_uploads sv)\<lparr>us_store := (us_store (sv_uploads sv))(p \<mapsto> content)\<rparr>\<rparr>"

definition remove_spool :: "server_env \<Rightarrow> string \<Rightarrow> server \<Rightarrow> unit outcome" where
  "remove_spool env p sv =
     (if en_removable env p
      then (Inr (), sv\<lparr>sv_uploads := (sv_uploads sv)\<lparr>us_store := (us_store (sv_uploads sv))(p := None)\<rparr>\<rparr>)
      else (Inl ''filesystem error: cannot remove'', sv))"

text \<open>
  The loop that reads what is missing of the body: how it ended (an error, or not), the number of
  bytes written and the content of the file.
\<close>

function fill_spool :: "nat \<Rightarrow> nat \<Rightarrow> string \<Rightarrow> stream \<Rightarrow> string option \<times> nat \<times> string" where
  "fill_spool contentLength written data s =
     (if written < contentLength then
        (case read_some (min 8192 (contentLength - written)) s of
           GotEof \<Rightarrow> (None, written, data)
         | GotError m \<Rightarrow> (Some (''failed to stream upload body: '' @ m), written, data)
         | Got b s' \<Rightarrow> fill_spool contentLength (written + length b) (data @ b) s')
      else (None, written, data))"
  by pat_completeness auto
termination
  by (relation "measure (\<lambda>(n, w, d, s). stream_size s)") (auto intro: read_some_decreases)

declare fill_spool.simps [simp del]

text \<open>The body of the \<open>try\<close> block, and the block with its handler, which removes the file and throws again.\<close>

definition spool_upload ::
  "server_env \<Rightarrow> header_read \<Rightarrow> stream \<Rightarrow> nat \<Rightarrow> string \<Rightarrow> string \<Rightarrow> http_response \<Rightarrow> server \<Rightarrow> http_response outcome" where
  "spool_upload env headers s contentLength ct p res sv =
     (if \<not> en_spool_creatable env p then (Inl ''failed to create upload spool'', sv)
      else
        let begun = take (min (length (hr_leftover headers)) contentLength) (hr_leftover headers)
        in (case fill_spool contentLength (length begun) begun s of
              (Some m, written, data) \<Rightarrow> (Inl m, write_spool p data sv)
            | (None, written, data) \<Rightarrow>
                let sv1 = write_spool p data sv
                in if written \<noteq> contentLength
                   then go_on (remove_spool env p sv1) (\<lambda>_ sv2. (Inr (with_status 400 ''Bad Request'' res), sv2))
                   else (case saveUploadsFromSpoolFile (en_upload env) (us_store (sv_uploads sv1) p) ct
                                (cfg_uploadDirectory (sv_config sv1)) (upload_limits (sv_config sv1)) (sv_uploads sv1) of
                           (Inl m, st) \<Rightarrow> (Inl m, sv1\<lparr>sv_uploads := st\<rparr>)
                         | (Inr result, st) \<Rightarrow>
                             go_on (remove_spool env p (sv1\<lparr>sv_uploads := st\<rparr>)) (\<lambda>_ sv2.
                               (Inr (upload_response True result res), sv2)))))"

definition receive_upload ::
  "server_env \<Rightarrow> header_read \<Rightarrow> stream \<Rightarrow> nat \<Rightarrow> string \<Rightarrow> string \<Rightarrow> http_response \<Rightarrow> server \<Rightarrow> http_response outcome" where
  "receive_upload env headers s contentLength ct p res sv =
     (case spool_upload env headers s contentLength ct p res sv of
        (Inl e, sv1) \<Rightarrow> go_on (remove_spool env p sv1) (\<lambda>_ sv2. (Inl e, sv2))
      | (Inr r, sv1) \<Rightarrow> (Inr r, sv1))"

text \<open>The branch of \<open>handleClientStream\<close> for the upload endpoint.\<close>

definition handle_upload ::
  "server_env \<Rightarrow> bool \<Rightarrow> string \<Rightarrow> header_read \<Rightarrow> stream \<Rightarrow> http_request \<Rightarrow> server \<Rightarrow> http_response outcome" where
  "handle_upload env tls clientIp headers s req sv =
     (let res = new_response tls sv
      in if \<not> cfg_enableUploads (sv_config sv) then (Inr (with_status 404 ''Not Found'' res), sv)
      else if rq_method req \<noteq> ''POST'' then (Inr (with_status 405 ''Method Not Allowed'' res), sv)
      else go_on (authorizeEndpoint env req ''upload'' sv) (\<lambda>decision sv1.
        if ad_code decision \<noteq> Allowed
        then (case refuse_endpoint tls clientIp (rq_target req) ''upload'' decision sv1 of (r, sv2) \<Rightarrow> (Inr r, sv2))
        else
          let sv2 = auditEndpointEvent ''auth_allowed'' clientIp (rq_target req) ''upload'' (ad_tokenName decision) 200 sv1;
              spoolDirectory = cfg_uploadSpoolDirectory (sv_config sv2)
          in (case rq_headers req ''content-type'' of
                None \<Rightarrow> (Inr (with_status 415 ''Unsupported Media Type'' res), sv2)
              | Some ct \<Rightarrow>
                  if \<not> rq_hasContentLength req \<or> rq_contentLength req = 0
                  then (Inr (with_status 400 ''Bad Request'' res), sv2)
                  else if cfg_maxBodyBytes (sv_config sv2) < rq_contentLength req
                  then (Inr (with_status 413 ''Payload Too Large'' res), sv2)
                  else if \<not> en_spool_mkdir env spoolDirectory
                  then (Inl ''filesystem error: cannot create directories'', sv2)
                  else receive_upload env headers s (rq_contentLength req) ct (uniqueSpoolPath env spoolDirectory) res sv2)))"

end
