(* ===== verification/ContentHandler.thy ===== *)
theory ContentHandler
  imports UploadHandler
begin

text \<open>
  \<open>makeResponse\<close> of \<open>src/src/Server.cpp\<close>: what is answered to a complete request that is not for
  the admin endpoint. It selects the document root, resolves the target to a file, applies the
  checks on forbidden files and the rules of \<open>.htaccess\<close>, and serves the file from the cache or
  runs it as a PHP script. Each \<open>return finish()\<close> is a branch.
\<close>

section \<open>Document root, forbidden files, types\<close>

definition selectDocumentRoot :: "server_config \<Rightarrow> string \<Rightarrow> string" where
  "selectDocumentRoot c host =
     (case cfg_virtualHosts c (normalizeHost host) of Some root \<Rightarrow> root | None \<Rightarrow> cfg_defaultRoot c)"

definition hidden_part :: "server_config \<Rightarrow> string \<Rightarrow> bool" where
  "hidden_part c name \<longleftrightarrow>
     name \<noteq> [] \<and> name ! 0 = CHR ''.'' \<and> \<not> (cfg_allowDotWellKnown c \<and> name = ''.well-known'')"

definition blocked_names :: "string list" where
  "blocked_names = [''server.conf'', ''server.production.conf'', ''cmakelists.txt'', ''license'']"

definition blocked_extensions :: "string list" where
  "blocked_extensions =
     [''.conf'', ''.ini'', ''.db'', ''.db-wal'', ''.db-shm'', ''.key'', ''.pem'', ''.crt'', ''.csr'', ''.log'', ''.pid'',
      ''.sqlite'', ''.sqlite3'', ''.bak'', ''.old'', ''.tmp'']"

definition isForbiddenFile :: "file_system \<Rightarrow> server_config \<Rightarrow> string \<Rightarrow> string \<Rightarrow> string + bool" where
  "isForbiddenFile fs c documentRoot path =
     and_then (weakly_canonical fs path) (\<lambda>p. and_then (weakly_canonical fs documentRoot) (\<lambda>root.
       Inr (if cfg_denyHiddenFiles c \<and> list_ex (hidden_part c) (relative_components p root) then True
            else let filename = lowercase (path_filename path); ext = lowercase (path_extension path)
                 in if filename = cfg_htaccessFilename c then True
                    else if \<not> cfg_blockSensitiveFiles c then False
                    else filename \<in> set blocked_names \<or> ext \<in> set blocked_extensions)))"

definition mimeType :: "string \<Rightarrow> string" where
  "mimeType path =
     (let ext = lowercase (path_extension path)
      in if ext = ''.html'' \<or> ext = ''.htm'' then ''text/html; charset=utf-8''
         else if ext = ''.css'' then ''text/css; charset=utf-8''
         else if ext = ''.js'' then ''application/javascript; charset=utf-8''
         else if ext = ''.json'' then ''application/json; charset=utf-8''
         else if ext = ''.png'' then ''image/png''
         else if ext = ''.jpg'' \<or> ext = ''.jpeg'' then ''image/jpeg''
         else if ext = ''.gif'' then ''image/gif''
         else if ext = ''.svg'' then ''image/svg+xml''
         else if ext = ''.txt'' then ''text/plain; charset=utf-8''
         else if ext = ''.wasm'' then ''application/wasm''
         else ''application/octet-stream'')"

definition httpsRedirectLocation :: "server_config \<Rightarrow> string \<Rightarrow> string \<Rightarrow> string" where
  "httpsRedirectLocation c host target =
     (let normalized = (if normalizeHost host = [] then ''localhost'' else normalizeHost host);
          port = (if cfg_publicHttpsPort c \<noteq> 0 then cfg_publicHttpsPort c else cfg_tlsPort c)
      in ''https://'' @ normalized @ (if port \<noteq> 443 then '':'' @ to_string port else []) @
         (if target = [] then ''/'' else target))"

section \<open>PHP\<close>

text \<open>The body and the status; an exception of the client is logged and answered with 502.\<close>

definition handlePhpScript ::
  "server_env \<Rightarrow> string \<Rightarrow> string \<Rightarrow> string \<Rightarrow> string \<Rightarrow> string \<Rightarrow> server \<Rightarrow> (string \<times> int) \<times> server" where
  "handlePhpScript env scriptPath requestUri method body contentType sv =
     (let (uri, query) = (case find_char requestUri CHR ''?'' of
                            None \<Rightarrow> (requestUri, [])
                          | Some q \<Rightarrow> (substr requestUri 0 q, drop (q + 1) requestUri));
          fcgi = \<lparr>fq_scriptFilename = scriptPath, fq_requestMethod = method, fq_requestUri = uri,
                  fq_queryString = query, fq_documentRoot = cfg_defaultRoot (sv_config sv),
                  fq_serverName = ''localhost'', fq_serverProtocol = ''HTTP/1.1'', fq_remoteAddr = ''127.0.0.1'',
                  fq_contentType = contentType, fq_body = body\<rparr>
      in (case fcgi_execute (en_order env) (en_php env) fcgi of
            Inl e \<Rightarrow>
              ((''502 Bad Gateway: PHP FastCGI unavailable'' @ [LF], 502),
               add_log (LogError (''php_fastcgi error='' @ [DQUOTE] @ e @ [DQUOTE])) sv)
          | Inr response \<Rightarrow> ((fr_body response, fr_status response), sv)))"

definition answer_php :: "server_env \<Rightarrow> http_request \<Rightarrow> http_response \<Rightarrow> string \<Rightarrow> server \<Rightarrow> http_response \<times> server" where
  "answer_php env req res path sv =
     (if \<not> cfg_enablePhp (sv_config sv) then (with_status 403 ''Forbidden'' res, sv)
      else (case handlePhpScript env path (rq_target req) (rq_method req) (rq_body req)
                   (header_or_empty req ''content-type'') sv of
              ((body, phpStatus), sv') \<Rightarrow>
                (res\<lparr>rs_body := body, rs_status := phpStatus,
                     rs_reason := (if phpStatus = 200 then ''OK'' else ''PHP FastCGI Error''),
                     rs_contentType := ''text/html; charset=utf-8''\<rparr>, sv')))"

section \<open>Static files\<close>

definition answer_static :: "server_env \<Rightarrow> http_request \<Rightarrow> http_response \<Rightarrow> string \<Rightarrow> server \<Rightarrow> http_response \<times> server" where
  "answer_static env req res path sv =
     (let res1 = res\<lparr>rs_contentType := mimeType path, rs_cacheControl := cfg_staticCacheControl (sv_config sv)\<rparr>
      in (case cache_get (en_hash env) (en_fs env) path (en_steady env) (sv_cache sv) of
            (None, c') \<Rightarrow>
              (with_status 500 ''Internal Server Error'' (res1\<lparr>rs_cacheControl := ''no-store''\<rparr>), sv\<lparr>sv_cache := c'\<rparr>)
          | (Some cached, c') \<Rightarrow>
              let res2 = res1\<lparr>rs_extraHeaders := AList.update ''ETag'' (cf_etag cached) (rs_extraHeaders res1)\<rparr>
              in (if rq_headers req ''if-none-match'' = Some (cf_etag cached)
                  then res2\<lparr>rs_status := 304, rs_reason := ''Not Modified'', rs_body := [], rs_sharedBody := None\<rparr>
                  else res2\<lparr>rs_sharedBody := Some (cf_body cached)\<rparr>,
                  sv\<lparr>sv_cache := c'\<rparr>)))"

section \<open>The answer to a request\<close>

text \<open>A file below the document root that may be served and exists.\<close>

definition answer_existing :: "server_env \<Rightarrow> http_request \<Rightarrow> http_response \<Rightarrow> string \<Rightarrow> server \<Rightarrow> http_response \<times> server" where
  "answer_existing env req res path sv =
     (if path_extension path = cfg_phpExtension (sv_config sv) then answer_php env req res path sv
      else if rq_method req = ''POST'' then (with_status 405 ''Method Not Allowed'' res, sv)
      else answer_static env req res path sv)"

text \<open>The rules of \<open>.htaccess\<close>, when they are enabled; the headers are set whether or not they deny.\<close>

definition htaccess_rules_for :: "server_env \<Rightarrow> server_config \<Rightarrow> string \<Rightarrow> string \<Rightarrow> string + htaccess_rules" where
  "htaccess_rules_for env c documentRoot path =
     (if cfg_enableHtaccess c
      then evaluate (en_fs env) documentRoot path (cfg_htaccessFilename c) (cfg_maxHtaccessDepth c)
      else Inr default_rules)"

definition add_headers :: "header_list \<Rightarrow> http_response \<Rightarrow> http_response" where
  "add_headers hs res = res\<lparr>rs_extraHeaders := foldl (\<lambda>m h. AList.update (fst h) (snd h) m) (rs_extraHeaders res) hs\<rparr>"

definition answer_path ::
  "server_env \<Rightarrow> http_request \<Rightarrow> http_response \<Rightarrow> string \<Rightarrow> string \<Rightarrow> server \<Rightarrow> http_response outcome" where
  "answer_path env req res documentRoot path sv =
     (let fs = en_fs env; c = sv_config sv
      in go_on (isForbiddenFile fs c documentRoot path, sv) (\<lambda>forbidden sv.
           if forbidden then (Inr (with_status 403 ''Forbidden'' res), sv)
           else go_on (htaccess_rules_for env c documentRoot path, sv) (\<lambda>rules sv.
             let res = add_headers (ht_responseHeaders rules) res
             in if ht_denyAll rules then (Inr (with_status 403 ''Forbidden'' res), sv)
                else go_on (path_exists fs path, sv) (\<lambda>there sv.
                  if \<not> there then (Inr (with_status 404 ''Not Found'' res), sv)
                  else go_on (is_regular_file fs path, sv) (\<lambda>regular sv.
                    if \<not> regular then (Inr (with_status 404 ''Not Found'' res), sv)
                    else (case answer_existing env req res path sv of (r, sv') \<Rightarrow> (Inr r, sv')))))))"

definition answer_file :: "server_env \<Rightarrow> http_request \<Rightarrow> http_response \<Rightarrow> server \<Rightarrow> http_response outcome" where
  "answer_file env req res0 sv =
     (let res = res0\<lparr>rs_headOnly := (rq_method req = ''HEAD'')\<rparr>;
          documentRoot = selectDocumentRoot (sv_config sv) (header_or_empty req ''host'')
      in go_on (resolveSafePath (en_fs env) documentRoot (rq_target req), sv) (\<lambda>safePath sv.
           (case safePath of
              None \<Rightarrow> (Inr (with_status 403 ''Forbidden'' res), sv)
            | Some path \<Rightarrow> answer_path env req res documentRoot path sv)))"

definition redirect_response :: "server_config \<Rightarrow> http_request \<Rightarrow> http_response \<Rightarrow> http_response" where
  "redirect_response c req res =
     (let reason = (if cfg_httpsRedirectStatus c = 301 then ''Moved Permanently'' else ''Permanent Redirect'')
      in res\<lparr>rs_status := cfg_httpsRedirectStatus c, rs_reason := reason, rs_body := reason @ [LF],
             rs_extraHeaders := AList.update ''Location''
               (httpsRedirectLocation c (header_or_empty req ''host'') (rq_target req)) (rs_extraHeaders res)\<rparr>)"

definition answer_request :: "server_env \<Rightarrow> http_request \<Rightarrow> bool \<Rightarrow> http_response \<Rightarrow> server \<Rightarrow> http_response outcome" where
  "answer_request env req tls res sv =
     (if \<not> isMethodAllowed (rq_method req) then (Inr (with_status 405 ''Method Not Allowed'' res), sv)
      else if 0 < rq_contentLength req \<and> rq_method req \<noteq> ''POST''
      then (Inr (with_status 413 ''Payload Too Large'' res), sv)
      else if \<not> tls \<and> cfg_forceHttps (sv_config sv) then (Inr (redirect_response (sv_config sv) req res), sv)
      else if rq_target req = cfg_uploadEndpoint (sv_config sv) then handleUploadRequest env req res sv
      else answer_file env req res sv)"

definition parse_failed :: "parse_failure \<Rightarrow> http_response \<Rightarrow> http_response" where
  "parse_failed x res = res\<lparr>rs_status := pf_status x, rs_reason := pf_reason x, rs_body := pf_message x\<rparr>"

definition or_dash :: "string \<Rightarrow> string" where
  "or_dash s = (if s = [] then ''-'' else s)"

definition makeResponse :: "server_env \<Rightarrow> string \<Rightarrow> bool \<Rightarrow> string \<Rightarrow> string \<Rightarrow> server \<Rightarrow> reply outcome" where
  "makeResponse env rawRequest tls methodOut targetOut sv =
     (let res = new_response tls sv
      in if rawRequest = [] \<or> cfg_maxRequestBytes (sv_config sv) < length rawRequest
         then (Inr (finish methodOut targetOut (with_status 400 ''Bad Request'' res)), sv)
         else (case strict_parse rawRequest (parse_limits (sv_config sv)) of
                 Inl x \<Rightarrow> (Inr (finish methodOut targetOut (parse_failed x res)), sv)
               | Inr req \<Rightarrow>
                   go_on (answer_request env req tls res sv) (\<lambda>r sv.
                     (Inr (finish (or_dash (rq_method req)) (or_dash (rq_target req)) r), sv))))"

end
