(* ===== verification/Server.thy ===== *)
theory Server
  imports ContentHandler
begin

text \<open>
  A client of \<open>src/src/Server.cpp\<close> from the accepted connection to the written response:
  \<open>acceptPlain\<close>, \<open>acceptTls\<close>, \<open>handlePlainClient\<close>, \<open>handleTlsClient\<close>, \<open>handleClientStream\<close> and
  \<open>writeHttpResponse\<close>; and what holds for whole clients and sequences of them. Handlers of several
  worker threads run at the same time in the program; a handler here is what one of them does, and
  the components it calls are locked for each call, as in their theories.
\<close>

section \<open>One client\<close>

definition handleClientStream :: "server_env \<Rightarrow> stream \<Rightarrow> bool \<Rightarrow> string \<Rightarrow> server \<Rightarrow> reply outcome" where
  "handleClientStream env s tls clientIp sv =
     (let c = sv_config sv
      in (case readHeadersOnly (cfg_maxRequestBytes c) s of
            Inl e \<Rightarrow> (Inl e, sv)
          | Inr (headers, s') \<Rightarrow>
              (case parseHeadersOnly (hr_headerPart headers) (parse_limits c) of
                 Inl x \<Rightarrow> (Inr (finish ''-'' ''-'' (parse_failed x (new_response tls sv))), sv)
               | Inr req \<Rightarrow>
                   let m = or_dash (rq_method req); t = or_dash (rq_target req);
                       answered = (\<lambda>res sv1. (Inr (finish m t res), sv1))
                   in if rq_target req = cfg_adminStatusEndpoint c
                      then go_on (handle_admin env tls clientIp req sv) answered
                      else if rq_target req = cfg_uploadEndpoint c
                      then go_on (handle_upload env tls clientIp headers s' req sv) answered
                      else (case completeRequestInMemory (cfg_maxBodyBytes c) headers s' of
                              Inl e \<Rightarrow> (Inl e, sv)
                            | Inr (rawRequest, s'') \<Rightarrow> makeResponse env rawRequest tls m t sv))))"

text \<open>The bytes that are written; their number is what the function returns.\<close>

definition writeHttpResponse :: "server_env \<Rightarrow> http_response \<Rightarrow> string" where
  "writeHttpResponse env res =
     (if rs_headOnly res \<or> bodySize res = 0 then headersToString (en_order env) res
      else headersToString (en_order env) res @ bodyData res)"

definition send :: "server_env \<Rightarrow> http_response \<Rightarrow> server \<Rightarrow> string outcome" where
  "send env res sv = (if en_write_ok env then Inr (writeHttpResponse env res) else Inl ''write'', sv)"

definition admit :: "server_env \<Rightarrow> string \<Rightarrow> server \<Rightarrow> bool \<times> server" where
  "admit env key sv =
     (if cfg_enableRateLimiter (sv_config sv)
      then (case allow (en_hash env) key (en_steady env) (sv_limiter sv) of (ok, rl) \<Rightarrow> (ok, sv\<lparr>sv_limiter := rl\<rparr>))
      else (True, sv))"

definition serve_client :: "server_env \<Rightarrow> string \<Rightarrow> bool \<Rightarrow> string \<Rightarrow> stream \<Rightarrow> server \<Rightarrow> string outcome" where
  "serve_client env scheme tls clientIp s sv =
     go_on (handleClientStream env s tls clientIp sv) (\<lambda>rp sv1.
       go_on (send env (rp_response rp) sv1) (\<lambda>bytes sv2.
         (Inr bytes, add_access (LogAccess clientIp scheme (rp_method rp) (rp_target rp) (rp_status rp) (length bytes)) sv2)))"

definition reject_client :: "server_env \<Rightarrow> string \<Rightarrow> bool \<Rightarrow> string \<Rightarrow> server \<Rightarrow> string outcome" where
  "reject_client env scheme tls clientIp sv =
     go_on (send env (with_status 429 ''Too Many Requests'' (new_response tls sv)) sv) (\<lambda>bytes sv1.
       (Inr bytes, add_access (LogAccess clientIp scheme ''-'' ''-'' 429 (length bytes)) sv1))"

text \<open>The body of the \<open>try\<close> blocks behind the TLS handshake, and the handler of the exceptions.\<close>

definition client_session :: "server_env \<Rightarrow> string \<Rightarrow> bool \<Rightarrow> string \<Rightarrow> stream \<Rightarrow> server \<Rightarrow> string outcome" where
  "client_session env scheme tls clientIp s sv =
     (case admit env (scheme @ '':'' @ clientIp) sv of
        (False, sv1) \<Rightarrow> reject_client env scheme tls clientIp sv1
      | (True, sv1) \<Rightarrow> serve_client env scheme tls clientIp s sv1)"

definition catch_error :: "string \<Rightarrow> string \<Rightarrow> string outcome \<Rightarrow> string option \<times> server" where
  "catch_error scheme clientIp r =
     (case r of
        (Inl e, sv) \<Rightarrow>
          (None, add_log (LogError (''scheme='' @ scheme @ '' client='' @ clientIp @ '' error='' @ [DQUOTE] @ e @ [DQUOTE])) sv)
      | (Inr bytes, sv) \<Rightarrow> (Some bytes, sv))"

definition handlePlainClient :: "server_env \<Rightarrow> connection \<Rightarrow> server \<Rightarrow> string option \<times> server" where
  "handlePlainClient env conn sv =
     (case cn_ip conn of
        None \<Rightarrow> catch_error ''http'' ''unknown'' (Inl ''remote_endpoint'', sv)
      | Some ip \<Rightarrow> catch_error ''http'' ip (client_session env ''http'' False ip (cn_stream conn) sv))"

definition handleTlsClient :: "server_env \<Rightarrow> connection \<Rightarrow> server \<Rightarrow> string option \<times> server" where
  "handleTlsClient env conn sv =
     (case cn_ip conn of
        None \<Rightarrow> catch_error ''https'' ''unknown'' (Inl ''remote_endpoint'', sv)
      | Some ip \<Rightarrow>
          catch_error ''https'' ip
            (if \<not> en_handshake_ok env then (Inl ''handshake'', sv)
             else client_session env ''https'' True ip (cn_stream conn) sv))"

definition handle_connection :: "server_env \<Rightarrow> connection \<Rightarrow> server \<Rightarrow> string option \<times> server" where
  "handle_connection env conn sv = (if cn_tls conn then handleTlsClient env conn sv else handlePlainClient env conn sv)"

text \<open>The handlers of \<open>async_accept\<close> for a connection.\<close>

definition accept_connection :: "connection \<Rightarrow> server \<Rightarrow> server" where
  "accept_connection conn sv =
     (case enqueue conn (sv_pool sv) of
        (True, p) \<Rightarrow> sv\<lparr>sv_pool := p\<rparr>
      | (False, p) \<Rightarrow>
          add_log (LogError (''worker_queue_full scheme='' @ (if cn_tls conn then ''https'' else ''http''))) (sv\<lparr>sv_pool := p\<rparr>))"

end
