(* ===== verification/HandlerFrame.thy ===== *)
theory HandlerFrame
  imports Server
begin

text \<open>
  Which parts of the server the handlers of \<open>src/src/Server.cpp\<close> change: each of them leaves the
  configuration, the rate limiter and the connection queue alone and only appends to the log, asks
  the token store at most once, reads at most one file through the cache, and only the upload
  handlers write files.
\<close>

section \<open>What a handler leaves alone\<close>

text \<open>
  No handler changes the configuration, the rate limiter, the queue of connections, the access log or
  a line of the other logs that is already there.
\<close>

definition same_parts :: "server \<Rightarrow> server \<Rightarrow> bool" where
  "same_parts sv sv' \<longleftrightarrow>
     sv_config sv' = sv_config sv \<and> sv_limiter sv' = sv_limiter sv \<and> sv_pool sv' = sv_pool sv \<and>
     sv_startedAt sv' = sv_startedAt sv \<and> sv_accesses sv' = sv_accesses sv \<and> prefix (sv_log sv) (sv_log sv')"

lemma same_parts_refl [simp]: "same_parts sv sv"
  by (simp add: same_parts_def)

lemma same_parts_trans: "same_parts a b \<Longrightarrow> same_parts b c \<Longrightarrow> same_parts a c"
  by (auto simp: same_parts_def)

lemma same_parts_log [simp]: "same_parts sv (add_log m sv)"
  by (simp add: same_parts_def)

lemma same_parts_updates [simp]:
  "same_parts sv (sv\<lparr>sv_auth := a\<rparr>)" "same_parts sv (sv\<lparr>sv_cache := c\<rparr>)" "same_parts sv (sv\<lparr>sv_uploads := u\<rparr>)"
  by (simp_all add: same_parts_def)

lemma same_parts_reload [simp]: "same_parts sv (log_reload r sv)"
  unfolding log_reload_def Let_def
  by (cases "rr_code r") (simp_all add: same_parts_trans [OF same_parts_log same_parts_log])

lemma same_parts_audit [simp]: "same_parts sv (auditEndpointEvent e ip t s n st sv)"
  by (simp add: auditEndpointEvent_def)

text \<open>
  The three parts a handler may change, with what it does to them: it may look after the token store
  once, read one file through the cache, and change files of uploads. \<open>a\<close>, \<open>c\<close> and \<open>u\<close> say which.
\<close>

definition touches :: "server_env \<Rightarrow> bool \<Rightarrow> bool \<Rightarrow> bool \<Rightarrow> server \<Rightarrow> server \<Rightarrow> bool" where
  "touches env a c u sv sv' \<longleftrightarrow>
     same_parts sv sv' \<and>
     (sv_auth sv' = sv_auth sv \<or>
        a \<and> (\<exists>r. refresh False (en_fs env) (en_steady env) (en_epoch env) (sv_auth sv) = (r, sv_auth sv'))) \<and>
     (sv_cache sv' = sv_cache sv \<or>
        c \<and> (\<exists>path r. cache_get (en_hash env) (en_fs env) path (en_steady env) (sv_cache sv) = (r, sv_cache sv'))) \<and>
     (sv_uploads sv' = sv_uploads sv \<or> u)"

lemma touches_refl [simp]: "touches env a c u sv sv"
  by (simp add: touches_def)

lemma touches_mono: "touches env a c u sv sv' \<Longrightarrow> (a \<Longrightarrow> a') \<Longrightarrow> (c \<Longrightarrow> c') \<Longrightarrow> (u \<Longrightarrow> u') \<Longrightarrow> touches env a' c' u' sv sv'"
  by (auto simp: touches_def)

text \<open>One after the other, when they do not look after the store, or read, both.\<close>

lemma touches_trans:
  assumes "touches env a c u sv sv1" "touches env a' c' u' sv1 sv2" "\<not> (a \<and> a')" "\<not> (c \<and> c')"
  shows "touches env (a \<or> a') (c \<or> c') (u \<or> u') sv sv2"
proof -
  have "same_parts sv sv2" using assms(1,2) same_parts_trans unfolding touches_def by blast
  with assms show ?thesis unfolding touches_def by (elim conjE disjE) simp_all
qed

lemma touches_then_log: "touches env a c u sv sv' \<Longrightarrow> touches env a c u sv (add_log m sv')"
  by (auto simp: touches_def intro: same_parts_trans)

lemma touches_then_audit: "touches env a c u sv sv' \<Longrightarrow> touches env a c u sv (auditEndpointEvent e ip t s n st sv')"
  by (auto simp: touches_def intro: same_parts_trans)

lemma touches_if:
  "(P \<Longrightarrow> touches env a c u sv (snd x)) \<Longrightarrow> (\<not> P \<Longrightarrow> touches env a c u sv (snd y)) \<Longrightarrow>
     touches env a c u sv (snd (if P then x else y))"
  by simp

lemma touches_option:
  "(z = None \<Longrightarrow> touches env a c u sv (snd x)) \<Longrightarrow> (\<And>v. z = Some v \<Longrightarrow> touches env a c u sv (snd (f v))) \<Longrightarrow>
     touches env a c u sv (snd (case z of None \<Rightarrow> x | Some v \<Rightarrow> f v))"
  by (cases z) simp_all

lemma touches_return: "touches env a c u sv sv' \<Longrightarrow> touches env a c u sv (snd (x, sv'))"
  by simp

lemma touches_start: "touches env a c u sv (snd (x, sv))"
  by simp

lemma go_on_touches:
  assumes "touches env a c u sv (snd r)" "\<And>x sv1. r = (Inr x, sv1) \<Longrightarrow> touches env (a1 \<and> \<not> a) (c1 \<and> \<not> c) u1 sv1 (snd (k x sv1))"
  shows "touches env (a \<or> a1) (c \<or> c1) (u \<or> u1) sv (snd (go_on r k))"
proof (rule go_on_state)
  fix x sv1 assume r: "r = (Inr x, sv1)"
  with assms(1) have "touches env a c u sv sv1" by simp
  from touches_trans [OF this assms(2) [OF r]] show "touches env (a \<or> a1) (c \<or> c1) (u \<or> u1) sv (snd (k x sv1))" 
    by (rule touches_mono) auto
next
  fix e sv1 assume "r = (Inl e, sv1)"
  with assms(1) have "touches env a c u sv sv1" by simp
  then show "touches env (a \<or> a1) (c \<or> c1) (u \<or> u1) sv sv1" by (rule touches_mono) auto
qed

text \<open>The three forms in which it is used: after the token store, after a query, before a removal.\<close>

lemma go_on_query: "(\<And>x. q = Inr x \<Longrightarrow> touches env a c u sv (snd (k x sv))) \<Longrightarrow> touches env a c u sv (snd (go_on (q, sv) k))"
  by (cases q) simp_all

lemmas touch_intros = touches_if touches_option touches_start touches_then_log touches_then_audit go_on_query

lemma authorize_touches: "touches env True False False sv (snd (authorizeEndpoint env req scope sv))"
proof (cases "cfg_enableEndpointAuth (sv_config sv)")
  case True
  obtain r st' where r: "refresh False (en_fs env) (en_steady env) (en_epoch env) (sv_auth sv) = (r, st')" by fastforce
  have "same_parts sv (sv\<lparr>sv_auth := st'\<rparr>)" "same_parts sv (log_reload x (sv\<lparr>sv_auth := st'\<rparr>))" for x
    by (simp_all add: same_parts_trans [OF _ same_parts_reload])
  with True r show ?thesis
    by (cases r) (simp_all add: authorizeEndpoint_def store_authorize_def touches_def)
qed (simp add: authorizeEndpoint_def)

lemma go_on_authorize:
  assumes "\<And>d sv1. touches env False c u sv1 (snd (k d sv1))"
  shows "touches env True c u sv (snd (go_on (authorizeEndpoint env req scope sv) k))"
  using go_on_touches [OF authorize_touches, where ?a1.0 = False and ?c1.0 = c and ?u1.0 = u and k = k] assms by simp

lemma refuse_touches: "touches env False c u sv (snd (refuse_endpoint tls ip t s d sv))"
  unfolding refuse_endpoint_def by (cases "ad_code d") (simp_all add: touches_then_audit)

lemma refused_touches:
  "touches env False c u sv (snd (case refuse_endpoint tls ip t s d sv of (res, sv2) \<Rightarrow> (Inr res, sv2)))"
  using refuse_touches by (simp split: prod.split) (metis snd_conv)

lemma admin_touches: "touches env True False False sv (snd (handle_admin env tls ip req sv))"
  unfolding handle_admin_def Let_def
  by (intro touches_if touches_start go_on_authorize refused_touches touches_return touches_then_audit touches_refl)

lemma uploads_touch: "same_parts sv sv' \<Longrightarrow> sv_auth sv' = sv_auth sv \<Longrightarrow> sv_cache sv' = sv_cache sv \<Longrightarrow> touches env a c True sv sv'"
  by (simp add: touches_def)

lemma remove_touches: "touches env False False True sv (snd (remove_spool env p sv))"
  by (simp add: remove_spool_def uploads_touch)

lemma write_touches: "touches env False False True sv (write_spool p data sv)"
  by (simp add: write_spool_def uploads_touch)

lemma save_touches: "touches env False False True sv (sv\<lparr>sv_uploads := st\<rparr>)"
  by (simp add: uploads_touch)

lemmas uploads_trans = touches_trans [where a = False and a' = False and c = False and c' = False and u = True and u' = True, simplified]

lemma go_on_remove:
  assumes "touches env False False True sv sv1" "\<And>x sv2. touches env False False True sv2 (snd (k x sv2))"
  shows "touches env False False True sv (snd (go_on (remove_spool env p sv1) k))"
  using uploads_trans [OF assms(1) go_on_touches [OF remove_touches, where ?a1.0 = False and ?c1.0 = False and ?u1.0 = True and k = k, simplified]] assms(2) by simp

lemma spool_touches: "touches env False False True sv (snd (spool_upload env headers s n ct p res sv))"
proof -
  define begun where "begun = take (min (length (hr_leftover headers)) n) (hr_leftover headers)"
  obtain err written data where f: "fill_spool n (length begun) begun s = (err, written, data)" by (cases "fill_spool n (length begun) begun s")
  define sv1 where "sv1 = write_spool p data sv"
  obtain r st where save: "saveUploadsFromSpoolFile (en_upload env) (us_store (sv_uploads sv1) p) ct
      (cfg_uploadDirectory (sv_config sv1)) (upload_limits (sv_config sv1)) (sv_uploads sv1) = (r, st)" by fastforce
  have w: "touches env False False True sv sv1" by (simp add: sv1_def write_touches)
  have w2: "touches env False False True sv (sv1\<lparr>sv_uploads := st\<rparr>)" by (rule uploads_trans [OF w save_touches])
  show ?thesis
    unfolding spool_upload_def Let_def begun_def [symmetric] f prod.case sv1_def [symmetric] save
    using w w2 by (cases err; cases r) (auto intro!: go_on_remove)
qed

lemma receive_touches: "touches env False False True sv (snd (receive_upload env headers s n ct p res sv))"
proof -
  obtain r sv1 where r: "spool_upload env headers s n ct p res sv = (r, sv1)" by fastforce
  with spool_touches [of env sv headers s n ct p res] have "touches env False False True sv sv1" by simp
  with r show ?thesis by (cases r) (auto simp: receive_upload_def intro: go_on_remove)
qed

lemma handle_upload_touches: "touches env True False True sv (snd (handle_upload env tls ip headers s req sv))"
proof -
  have *: "touches env False False True sv1 (snd (receive_upload env headers s n ct p res sv2))"
    if "touches env False False True sv1 sv2" for sv1 sv2 n ct p res
    using uploads_trans [OF that receive_touches] .
  show ?thesis
    unfolding handle_upload_def Let_def
    by (intro touches_if touches_option touches_start go_on_authorize refused_touches touches_return
        touches_then_audit touches_refl *)
qed

lemma memory_upload_touches: "touches env True False True sv (snd (handleUploadRequest env req res sv))"
proof -
  have *: "touches env False False True sv1 (snd (case saveUploads e b ct d l st of
      (Inl m, st) \<Rightarrow> (Inl m, sv1\<lparr>sv_uploads := st\<rparr>)
    | (Inr result, st) \<Rightarrow> (Inr (g result), sv1\<lparr>sv_uploads := st\<rparr>)))" for e b ct d l st sv1 g
    by (simp add: save_touches split: prod.split sum.split)
  show ?thesis
    unfolding handleUploadRequest_def
    by (intro touches_if touches_option touches_start go_on_authorize *)
qed

lemma php_touches: "touches env False False False sv (snd (answer_php env req res path sv))"
proof -
  have "touches env False False False sv (snd (handlePhpScript env path t m b ct sv))" for t m b ct
    unfolding handlePhpScript_def Let_def by (auto simp: touches_then_log split: prod.split sum.split)
  then show ?thesis by (auto simp: answer_php_def split: prod.split) (metis snd_conv)
qed

lemma static_touches: "touches env False True False sv (snd (answer_static env req res path sv))"
proof -
  obtain r c' where c: "cache_get (en_hash env) (en_fs env) path (en_steady env) (sv_cache sv) = (r, c')" by fastforce
  then have "touches env False True False sv (sv\<lparr>sv_cache := c'\<rparr>)" by (auto simp: touches_def)
  then show ?thesis by (cases r) (simp_all add: answer_static_def c Let_def)
qed

lemma existing_touches: "touches env False True False sv (snd (answer_existing env req res path sv))"
  unfolding answer_existing_def
  by (intro touches_if touches_start static_touches touches_mono [OF php_touches]) simp_all

lemma path_touches: "touches env False True False sv (snd (answer_path env req res root path sv))"
proof -
  have *: "touches env False True False sv (snd (case answer_existing env req res path sv of (r, sv') \<Rightarrow> (Inr r, sv')))"
    for res sv using existing_touches [of env sv req res path] by (auto split: prod.split)
  show ?thesis unfolding answer_path_def Let_def by (intro touch_intros *)
qed

lemma file_touches: "touches env False True False sv (snd (answer_file env req res sv))"
  unfolding answer_file_def Let_def by (intro touch_intros path_touches)

lemma request_touches: "touches env True True True sv (snd (answer_request env req tls res sv))"
  unfolding answer_request_def
  by (intro touches_if touches_start touches_mono [OF file_touches] touches_mono [OF memory_upload_touches]) simp_all

lemma go_on_finish: "touches env a c u sv (snd r) \<Longrightarrow> touches env a c u sv (snd (go_on r (\<lambda>x sv1. (Inr (f x), sv1))))"
  by (cases r; cases "fst r") (simp_all add: go_on_def)

lemma makeResponse_touches: "touches env True True True sv (snd (makeResponse env raw tls m t sv))"
  unfolding makeResponse_def Let_def
  by (intro touches_if touches_start) (auto intro: go_on_finish request_touches split: sum.split)

lemma client_touches: "touches env True True True sv (snd (handleClientStream env s tls ip sv))"
proof -
  have admin: "touches env True True True sv (snd (go_on (handle_admin env tls ip req sv) (\<lambda>x sv1. (Inr (f x), sv1))))" for req f
    by (rule go_on_finish, rule touches_mono [OF admin_touches]) simp_all
  have upload: "touches env True True True sv (snd (go_on (handle_upload env tls ip h s' req sv) (\<lambda>x sv1. (Inr (f x), sv1))))" for h s' req f
    by (rule go_on_finish, rule touches_mono [OF handle_upload_touches]) simp_all
  show ?thesis
    unfolding handleClientStream_def Let_def
    by (auto intro: admin upload makeResponse_touches split: sum.split)
qed

section \<open>Sequences of clients\<close>

text \<open>What happens around the handler: the limiter and the access log.\<close>

lemma touches_around:
  "touches env a c u sv sv' \<Longrightarrow>
     touches env a c u (sv\<lparr>sv_limiter := l, sv_accesses := x\<rparr>) (sv'\<lparr>sv_limiter := l, sv_accesses := x\<rparr>)"
  by (simp add: touches_def same_parts_def)

text \<open>The key under which the rate limiter counts a connection, when it is asked about it.\<close>

definition limiter_key :: "server_env \<Rightarrow> connection \<Rightarrow> string option" where
  "limiter_key env conn =
     (case cn_ip conn of
        None \<Rightarrow> None
      | Some ip \<Rightarrow>
          if cn_tls conn then (if en_handshake_ok env then Some (''https'' @ '':'' @ ip) else None)
          else Some (''http'' @ '':'' @ ip))"

lemma serve_cases:
  obtains rp sv1 where "handleClientStream env s tls ip sv = (Inr rp, sv1)" "en_write_ok env"
      "serve_client env scheme tls ip s sv = (Inr (writeHttpResponse env (rp_response rp)),
         add_access (LogAccess ip scheme (rp_method rp) (rp_target rp) (rp_status rp)
           (length (writeHttpResponse env (rp_response rp)))) sv1)"
  | e sv1 where "snd (handleClientStream env s tls ip sv) = sv1" "serve_client env scheme tls ip s sv = (Inl e, sv1)"
proof -
  obtain r sv1 where h: "handleClientStream env s tls ip sv = (r, sv1)" by fastforce
  show thesis
  proof (cases r)
    case (Inl e)
    with h that(2) show thesis by (simp add: serve_client_def)
  next
    case (Inr rp)
    with h that show thesis by (cases "en_write_ok env") (simp_all add: serve_client_def send_def)
  qed
qed

end
