(* ===== verification/ServerExample.thy ===== *)
theory ServerExample
  imports Server
begin

text \<open>
  A server with a small site, and the requests the theorems about the server are applied to: a file,
  the admin status page and an upload.
\<close>

section \<open>The server\<close>

definition site_config :: server_config where
  "site_config = default_config\<lparr>cfg_defaultRoot := ''/srv/www'', cfg_workerThreads := 4,
     cfg_enableEndpointAuth := True, cfg_authBearerToken := ''s3cret'', cfg_enableAdminStatus := True,
     cfg_enableUploads := True, cfg_uploadDirectory := ''/up'', cfg_uploadSpoolDirectory := ''/spool'',
     cfg_enableHtaccess := False\<rparr>"

definition site_env :: server_env where
  "site_env =
     \<lparr>en_fs = example_fs, en_steady = 1000000000, en_epoch = 1000, en_micros = 1000000000, en_hash = length, en_order = id,
      en_php = None, en_upload = \<lparr>ue_mkdir = (\<lambda>p. True), ue_creatable = (\<lambda>p. True), ue_clock = int\<rparr>,
      en_spool_mkdir = (\<lambda>p. True), en_spool_creatable = (\<lambda>p. True), en_removable = (\<lambda>p. True), en_version = ''dev'',
      en_dropped = 0, en_handshake_ok = True, en_write_ok = True\<rparr>"

definition site_auth :: auth_store where
  "site_auth = projr (make_store [] [] True 0 example_fs 1000000000 1000)"

definition site_workers :: "connection pool" where
  "site_workers = projr (make_pool 4 4096)"

definition site_server :: server where
  "site_server =
     \<lparr>sv_config = site_config, sv_auth = site_auth,
      sv_limiter = make_limiter (cfg_rateLimitPerMinute site_config) (cfg_rateLimiterShards site_config),
      sv_pool = site_workers,
      sv_cache = make_cache True 32 4096 268435456 4194304 1000,
      sv_uploads = \<lparr>us_store = Map.empty, us_ticks = 0\<rparr>, sv_log = [], sv_accesses = [], sv_startedAt = 1000000000\<rparr>"

definition get_request :: string where
  "get_request = ''GET /a%20b.html HTTP/1.1'' @ crlf @ ''Host: x'' @ crlf2"

lemma site_fields: "en_fs site_env = example_fs" "sv_config site_server = site_config"
  by (simp_all add: site_env_def site_server_def)

lemma site_store: "make_store [] [] True 0 example_fs 1000000000 1000 = Inr site_auth"
  by (simp add: make_store_def combineAndValidate_def site_auth_def)

lemma site_pool: "make_pool 4 4096 = Inr site_workers"
  by (simp add: make_pool_def site_workers_def)

lemma site_started: "make_server site_env site_config = Inr site_server"
proof -
  have c: "cfg_authTokens site_config = []" "cfg_authSecretsFile site_config = []" "cfg_authHotReload site_config"
    "cfg_authReloadIntervalSeconds site_config = 0" "cfg_workerThreads site_config = 4" "cfg_maxPendingConnections site_config = 4096"
    "cfg_defaultRoot site_config = ''/srv/www''" "cfg_virtualHosts site_config = Map.empty"
    by (simp_all add: site_config_def default_config_def)
  have r: "weakly_canonical example_fs ''/srv/www'' = Inr ''/srv/www''" by code_simp
  have s: "site_config\<lparr>cfg_defaultRoot := ''/srv/www'', cfg_virtualHosts := Map.empty\<rparr> = site_config"
    by (simp add: site_config_def default_config_def)
  show ?thesis
    unfolding make_server_def c
    by (simp add: site_env_def site_store site_pool r hosts_resolve_def c site_server_def s)
      (simp add: site_config_def default_config_def)
qed

definition open_server :: server where
  "open_server = site_server\<lparr>sv_config := site_config\<lparr>cfg_enableEndpointAuth := False, cfg_enableAdminStatus := False\<rparr>\<rparr>"

section \<open>The requests\<close>

lemma get_answer:
  "\<exists>rp sv'. handleClientStream site_env [Chunk get_request] False ''10.0.0.1'' site_server = (Inr rp, sv') \<and>
     rs_sharedBody (rp_response rp) = Some ''hello''"
proof -
  have "(case handleClientStream site_env [Chunk get_request] False ''10.0.0.1'' site_server of
      (Inr rp, sv) \<Rightarrow> rs_sharedBody (rp_response rp) | _ \<Rightarrow> None) = Some ''hello''"
    by code_simp
  then show ?thesis by (auto split: prod.splits sum.splits)
qed

definition admin_request :: string where
  "admin_request = ''GET /__hydrogen/admin/status HTTP/1.1'' @ crlf @ ''Host: x'' @ crlf @ ''Authorization: Bearer s3cret'' @ crlf2"

definition admin_parsed :: http_request where
  "admin_parsed = projr (parseHeadersOnly admin_request (parse_limits site_config))"

lemma admin_read: "readHeadersOnly (cfg_maxRequestBytes site_config) [Chunk admin_request] =
    Inr (\<lparr>hr_headerPart = admin_request, hr_leftover = []\<rparr>, [])"
  by code_simp

lemma admin_parse: "parseHeadersOnly admin_request (parse_limits site_config) = Inr admin_parsed"
proof -
  have "\<not> isl (parseHeadersOnly admin_request (parse_limits site_config))" by code_simp
  then show ?thesis by (simp add: admin_parsed_def)
qed

lemma admin_fields: "rq_target admin_parsed = cfg_adminStatusEndpoint site_config" "rq_method admin_parsed = ''GET''"
  "rq_headers admin_parsed ''authorization'' = Some ''Bearer s3cret''"
  by code_simp+

lemma admin_answer:
  "\<exists>rp sv'. handleClientStream site_env [Chunk admin_request] False ''10.0.0.1'' site_server = (Inr rp, sv') \<and>
     rp_status rp = 200 \<and> rp_target rp = cfg_adminStatusEndpoint site_config"
proof -
  have c: "cfg_enableEndpointAuth site_config" "cfg_enableAdminStatus site_config" "cfg_authBearerToken site_config = ''s3cret''"
    "sv_config site_server = site_config" "cfg_adminStatusEndpoint site_config \<noteq> []"
    by (simp_all add: site_server_def site_config_def default_config_def)
  have st: "as_secretsFile (sv_auth site_server) = []" "as_activeTokens (sv_auth site_server) = []"
    by (simp_all add: site_server_def site_auth_def make_store_def combineAndValidate_def)
  have eq: "constantTimeEquals ''s3cret'' ''s3cret''" by (simp add: equal_strings)
  have auth: "authorizeEndpoint site_env admin_parsed ''admin'' site_server =
      (Inr \<lparr>ad_code = Allowed, ad_tokenName = ''legacy''\<rparr>, site_server)"
    by (simp add: authorizeEndpoint_def c header_or_empty_def admin_fields store_authorize_def refresh_def st
        authorize_def starts_with_def eq log_reload_def current_result_def)
  show ?thesis
    by (simp add: handleClientStream_def c admin_read admin_parse admin_fields handle_admin_def auth or_dash_def)
      (simp add: adminStatusResponse_def Let_def)
qed

definition upload_body :: string where
  "upload_body = ''--b'' @ crlf @ ''Content-Disposition: form-data; name='' @ quoted ''f'' @ ''; filename='' @ quoted ''a.txt'' @
     crlf2 @ ''hi'' @ crlf @ ''--b--'' @ crlf"

definition upload_request :: string where
  "upload_request = ''POST /__hydrogen/upload HTTP/1.1'' @ crlf @ ''Host: x'' @ crlf @
     ''Content-Type: multipart/form-data; boundary=b'' @ crlf @
     ''Content-Length: '' @ to_string (length upload_body) @ crlf2 @ upload_body"

lemma upload_changes:
  "us_ticks (sv_uploads (snd (handleClientStream site_env [Chunk upload_request] False ''10.0.0.1'' open_server))) \<noteq> 0"
  by code_simp

definition site_client :: connection where
  "site_client = \<lparr>cn_tls = False, cn_ip = Some ''10.0.0.1'', cn_stream = [Chunk get_request]\<rparr>"

end
