(* ===== verification/StaticContent.thy ===== *)
theory StaticContent
  imports HandlerFrame ServerExample
begin

text \<open>
  Which files a client gets to see: the way from \<open>handleClientStream\<close> of \<open>src/src/Server.cpp\<close> to
  the only place that sends the content of a file, and what was checked on it.
\<close>

section \<open>Static files\<close>

lemma new_response_shared [simp]: "rs_sharedBody (new_response tls sv) = None"
  by (simp add: new_response_def default_response_def)

lemma with_status_fields [simp]:
  "rs_sharedBody (with_status st r res) = rs_sharedBody res"
  "rs_status (with_status st r res) = st"
  "rs_reason (with_status st r res) = r"
  "rs_headOnly (with_status st r res) = rs_headOnly res"
  "rs_contentType (with_status st r res) = rs_contentType res"
  "rs_cacheControl (with_status st r res) = rs_cacheControl res"
  "rs_extraHeaders (with_status st r res) = rs_extraHeaders res"
  by (simp_all add: with_status_def)

lemma endpoint_response_shared [simp]:
  "rs_sharedBody (unauthorizedResponse tls bad sv) = None" "rs_sharedBody (forbiddenResponse tls sv) = None"
  by (simp_all add: unauthorizedResponse_def forbiddenResponse_def Let_def)

lemma upload_response_shared [simp]: "rs_sharedBody (upload_response s result res) = rs_sharedBody res"
  by (simp add: upload_response_def)

text \<open>The one place that sets a shared body.\<close>

definition static_reply :: "server_env \<Rightarrow> http_request \<Rightarrow> server \<Rightarrow> string \<Rightarrow> string \<Rightarrow> bool" where
  "static_reply env req sv path body \<longleftrightarrow>
     rq_method req \<noteq> ''POST'' \<and> path_extension path \<noteq> cfg_phpExtension (sv_config sv) \<and>
     (\<exists>cached c'. cache_get (en_hash env) (en_fs env) path (en_steady env) (sv_cache sv) = (Some cached, c') \<and>
        body = cf_body cached)"

lemma php_shared: "answer_php env req res path sv = (r, sv') \<Longrightarrow> rs_sharedBody r = rs_sharedBody res"
  by (auto simp: answer_php_def split: if_splits prod.splits)

lemma static_shared:
  assumes "answer_static env req res path sv = (r, sv')" "rs_sharedBody r = Some body" "rs_sharedBody res = None"
  obtains cached c' where "cache_get (en_hash env) (en_fs env) path (en_steady env) (sv_cache sv) = (Some cached, c')"
    "body = cf_body cached"
  using assms by (auto simp: answer_static_def Let_def split: prod.splits option.splits if_splits)

lemma existing_shared:
  assumes "answer_existing env req res path sv = (r, sv')" "rs_sharedBody r = Some body" "rs_sharedBody res = None"
  shows "static_reply env req sv path body"
  using assms php_shared [of env req res path sv r sv']
  by (auto simp: answer_existing_def static_reply_def split: if_splits elim: static_shared)

lemma path_shared:
  assumes "answer_path env req res root path sv = (Inr r, sv')" "rs_sharedBody r = Some body" "rs_sharedBody res = None"
  shows "static_reply env req sv path body \<and> isForbiddenFile (en_fs env) (sv_config sv) root path = Inr False \<and>
    is_regular_file (en_fs env) path = Inr True \<and>
    (\<exists>rules. htaccess_rules_for env (sv_config sv) root path = Inr rules \<and> \<not> ht_denyAll rules)"
proof -
  let ?fs = "en_fs env"
  note a = assms(1) [unfolded answer_path_def Let_def]
  from a obtain f where f: "isForbiddenFile ?fs (sv_config sv) root path = Inr f" by (auto elim: go_on_result)
  from assms(2,3) a f have nf: "\<not> f" by auto
  from a f nf obtain rules where h: "htaccess_rules_for env (sv_config sv) root path = Inr rules" by (auto elim: go_on_result)
  have nd: "\<not> ht_denyAll rules" using assms(2,3) a f nf h by (auto simp: add_headers_def)
  obtain there where t: "path_exists ?fs path = Inr there" using a f nf h nd by (auto elim: go_on_result)
  have there by (rule ccontr) (use assms(2,3) a f nf h nd t in \<open>auto simp: add_headers_def\<close>)
  with t have t: "path_exists ?fs path = Inr True" by simp
  obtain reg where g: "is_regular_file ?fs path = Inr reg" using a f nf h nd t by (auto elim: go_on_result)
  have reg by (rule ccontr) (use assms(2,3) a f nf h nd t g in \<open>auto simp: add_headers_def\<close>)
  with g have g: "is_regular_file ?fs path = Inr True" by simp
  obtain r1 sv1 where e: "answer_existing env req (add_headers (ht_responseHeaders rules) res) path sv = (r1, sv1)" by fastforce
  then have "r1 = r" using a f nf h nd t g by simp
  with e existing_shared [OF _ assms(2)] assms(3) have "static_reply env req sv path body" by (simp add: add_headers_def)
  with f nf g h nd show ?thesis by auto
qed

lemma file_shared:
  assumes "answer_file env req res sv = (Inr r, sv')" "rs_sharedBody r = Some body" "rs_sharedBody res = None"
  obtains root path where "root = selectDocumentRoot (sv_config sv) (header_or_empty req ''host'')"
    "resolveSafePath (en_fs env) root (rq_target req) = Inr (Some path)"
    "static_reply env req sv path body" "isForbiddenFile (en_fs env) (sv_config sv) root path = Inr False"
    "is_regular_file (en_fs env) path = Inr True"
    "\<exists>rules. htaccess_rules_for env (sv_config sv) root path = Inr rules \<and> \<not> ht_denyAll rules"
proof -
  define root where "root = selectDocumentRoot (sv_config sv) (header_or_empty req ''host'')"
  note a = assms(1) [unfolded answer_file_def Let_def root_def [symmetric]]
  from a obtain sp where sp: "resolveSafePath (en_fs env) root (rq_target req) = Inr sp" by (auto elim: go_on_result)
  with a assms(2,3) obtain path where path: "sp = Some path" by (cases sp) auto
  with a sp have "answer_path env req (res\<lparr>rs_headOnly := (rq_method req = ''HEAD'')\<rparr>) root path sv = (Inr r, sv')" by simp
  from path_shared [OF this assms(2)] assms(3) sp path that [OF root_def] show thesis by simp
qed

lemma memory_upload_shared:
  "handleUploadRequest env req res sv = (Inr r, sv') \<Longrightarrow> rs_sharedBody res = None \<Longrightarrow> rs_sharedBody r = None"
  unfolding handleUploadRequest_def
  by (auto elim!: go_on_result split: if_splits option.splits prod.splits sum.splits)

lemma response_shared:
  assumes "makeResponse env raw tls m t sv = (Inr rp, sv')" "rs_sharedBody (rp_response rp) = Some body"
  obtains req r where "strict_parse raw (parse_limits (sv_config sv)) = Inr req" "rq_method req \<in> {''GET'', ''HEAD'', ''POST''}"
    "tls \<or> \<not> cfg_forceHttps (sv_config sv)" "answer_file env req (new_response tls sv) sv = (Inr r, sv')"
    "rs_sharedBody r = Some body" "rp = finish (or_dash (rq_method req)) (or_dash (rq_target req)) r"
proof -
  note a = assms(1) [unfolded makeResponse_def Let_def]
  from a assms(2) obtain req where req: "strict_parse raw (parse_limits (sv_config sv)) = Inr req"
    by (auto simp: parse_failed_def split: if_splits sum.splits)
  with a assms(2) obtain r where r: "answer_request env req tls (new_response tls sv) sv = (Inr r, sv')"
    and rp: "rp = finish (or_dash (rq_method req)) (or_dash (rq_target req)) r"
    by (auto split: if_splits elim!: go_on_result)
  have "isMethodAllowed (rq_method req) \<and> (tls \<or> \<not> cfg_forceHttps (sv_config sv)) \<and>
      answer_file env req (new_response tls sv) sv = (Inr r, sv')"
    using r assms(2) memory_upload_shared [of env req "new_response tls sv" sv r sv']
    by (auto simp: rp answer_request_def redirect_response_def Let_def split: if_splits)
  with req rp assms(2) that show thesis by (auto simp: isMethodAllowed_def)
qed

lemma refuse_shared: "refuse_endpoint tls ip t s d sv = (r, sv') \<Longrightarrow> rs_sharedBody r = None"
  unfolding refuse_endpoint_def by (cases "ad_code d") auto

lemma admin_shared: "handle_admin env tls ip req sv = (Inr r, sv') \<Longrightarrow> rs_sharedBody r = None"
  unfolding handle_admin_def Let_def
  by (auto elim!: go_on_result split: if_splits prod.splits dest: refuse_shared simp: adminStatusResponse_def)

lemma receive_shared:
  assumes "receive_upload env headers s n ct p res sv = (Inr r, sv')" "rs_sharedBody res = None"
  shows "rs_sharedBody r = None"
proof -
  from assms(1) have "spool_upload env headers s n ct p res sv = (Inr r, sv')"
    by (auto simp: receive_upload_def elim!: go_on_result split: prod.splits sum.splits)
  then show ?thesis using assms(2)
    unfolding spool_upload_def Let_def
    by (auto elim!: go_on_result split: if_splits option.splits prod.splits sum.splits)
qed

lemma upload_shared: "handle_upload env tls ip headers s req sv = (Inr r, sv') \<Longrightarrow> rs_sharedBody r = None"
  unfolding handle_upload_def Let_def
  by (auto elim!: go_on_result receive_shared split: if_splits prod.splits option.splits dest: refuse_shared)

lemma go_on_answered: "go_on x (\<lambda>res sv1. (Inr (f res), sv1)) = (map_sum id f (fst x), snd x)"
  by (cases x; cases "fst x") (simp_all add: go_on_def)

text \<open>The ways a client is answered.\<close>

lemma client_cases:
  assumes "handleClientStream env s tls ip sv = (r, sv')"
  obtains
    (failed) e where "r = Inl e" "sv' = sv"
  | (malformed) hp x where "parseHeadersOnly hp (parse_limits (sv_config sv)) = Inl x"
      "r = Inr (finish ''-'' ''-'' (parse_failed x (new_response tls sv)))" "sv' = sv"
  | (admin) headers s' req r1 where "readHeadersOnly (cfg_maxRequestBytes (sv_config sv)) s = Inr (headers, s')"
      "parseHeadersOnly (hr_headerPart headers) (parse_limits (sv_config sv)) = Inr req"
      "rq_target req = cfg_adminStatusEndpoint (sv_config sv)" "handle_admin env tls ip req sv = (r1, sv')"
      "r = map_sum id (finish (or_dash (rq_method req)) (or_dash (rq_target req))) r1"
  | (upload) headers s' req r1 where "readHeadersOnly (cfg_maxRequestBytes (sv_config sv)) s = Inr (headers, s')"
      "parseHeadersOnly (hr_headerPart headers) (parse_limits (sv_config sv)) = Inr req"
      "rq_target req \<noteq> cfg_adminStatusEndpoint (sv_config sv)"
      "rq_target req = cfg_uploadEndpoint (sv_config sv)" "handle_upload env tls ip headers s' req sv = (r1, sv')"
      "r = map_sum id (finish (or_dash (rq_method req)) (or_dash (rq_target req))) r1"
  | (content) headers s' req raw s'' where "readHeadersOnly (cfg_maxRequestBytes (sv_config sv)) s = Inr (headers, s')"
      "parseHeadersOnly (hr_headerPart headers) (parse_limits (sv_config sv)) = Inr req"
      "rq_target req \<noteq> cfg_adminStatusEndpoint (sv_config sv)" "rq_target req \<noteq> cfg_uploadEndpoint (sv_config sv)"
      "completeRequestInMemory (cfg_maxBodyBytes (sv_config sv)) headers s' = Inr (raw, s'')"
      "makeResponse env raw tls (or_dash (rq_method req)) (or_dash (rq_target req)) sv = (r, sv')"
proof -
  note a = assms [unfolded handleClientStream_def Let_def]
  show thesis
  proof (cases "readHeadersOnly (cfg_maxRequestBytes (sv_config sv)) s")
    case (Inl e)
    with a show thesis by (intro failed [of e]) simp_all
  next
    case h: (Inr b)
    obtain headers s' where b: "b = (headers, s')" by (cases b)
    show thesis
    proof (cases "parseHeadersOnly (hr_headerPart headers) (parse_limits (sv_config sv))")
      case (Inl x)
      with a h b show thesis by (intro malformed [OF Inl]) auto
    next
      case p: (Inr req)
      note a = a [unfolded h b p sum.case prod.case go_on_answered]
      consider "rq_target req = cfg_adminStatusEndpoint (sv_config sv)"
        | "rq_target req \<noteq> cfg_adminStatusEndpoint (sv_config sv)" "rq_target req = cfg_uploadEndpoint (sv_config sv)"
        | "rq_target req \<noteq> cfg_adminStatusEndpoint (sv_config sv)" "rq_target req \<noteq> cfg_uploadEndpoint (sv_config sv)"
        by blast
      then show thesis
      proof cases
        case 1
        obtain r1 sv1 where r1: "handle_admin env tls ip req sv = (r1, sv1)" by fastforce
        with a 1 have "map_sum id (finish (or_dash (rq_method req)) (or_dash (rq_target req))) r1 = r" "sv1 = sv'" by simp_all
        with r1 show thesis by (intro admin [OF h [unfolded b] p 1]) auto
      next
        case 2
        obtain r1 sv1 where r1: "handle_upload env tls ip headers s' req sv = (r1, sv1)" by fastforce
        with a 2 have "map_sum id (finish (or_dash (rq_method req)) (or_dash (rq_target req))) r1 = r" "sv1 = sv'" by simp_all
        with r1 show thesis by (intro upload [OF h [unfolded b] p 2]) auto
      next
        case 3
        show thesis
        proof (cases "completeRequestInMemory (cfg_maxBodyBytes (sv_config sv)) headers s'")
          case (Inl e)
          with a 3 show thesis by (intro failed [of e]) simp_all
        next
          case (Inr c)
          obtain raw s'' where "c = (raw, s'')" by (cases c)
          with Inr a 3 show thesis by (intro content [OF h [unfolded b] p 3]) simp_all
        qed
      qed
    qed
  qed
qed

lemma map_sum_Inr: "Inr y = map_sum id f x \<longleftrightarrow> (\<exists>z. x = Inr z \<and> y = f z)"
  by (cases x) auto

lemma client_shared:
  assumes "handleClientStream env s tls ip sv = (Inr rp, sv')" "rs_sharedBody (rp_response rp) = Some body"
  obtains raw m t where "makeResponse env raw tls m t sv = (Inr rp, sv')"
  using assms(1)
proof (cases rule: client_cases)
  case admin
  with assms(2) admin_shared show thesis by (fastforce simp: map_sum_Inr)
next
  case upload
  with assms(2) upload_shared show thesis by (fastforce simp: map_sum_Inr)
next
  case content
  then show thesis using that by blast
qed (use assms(2) in \<open>auto simp: parse_failed_def\<close>)

text \<open>Where the content of a file in a response comes from, for a cache that holds what is in the files.\<close>

lemma static_content:
  assumes "handleClientStream env s tls ip sv = (Inr rp, sv')" "rs_sharedBody (rp_response rp) = Some body"
    and "canonical_stable (en_fs env)" "cache_current (en_fs env) (sv_cache sv)"
  shows "\<exists>req root rc path cached rules.
    rq_method req \<in> {''GET'', ''HEAD''} \<and> (tls \<or> \<not> cfg_forceHttps (sv_config sv)) \<and>
    root = selectDocumentRoot (sv_config sv) (header_or_empty req ''host'') \<and>
    weakly_canonical (en_fs env) root = Inr rc \<and> prefix (path_components rc) (path_components path) \<and>
    isForbiddenFile (en_fs env) (sv_config sv) root path = Inr False \<and>
    path_extension path \<noteq> cfg_phpExtension (sv_config sv) \<and> is_regular_file (en_fs env) path = Inr True \<and>
    htaccess_rules_for env (sv_config sv) root path = Inr rules \<and> \<not> ht_denyAll rules \<and>
    direct_read (en_fs env) path = Some cached \<and> body = cf_body cached"
proof -
  obtain raw m t where mk: "makeResponse env raw tls m t sv = (Inr rp, sv')" by (rule client_shared [OF assms(1,2)])
  obtain req r where req: "rq_method req \<in> {''GET'', ''HEAD'', ''POST''}" "tls \<or> \<not> cfg_forceHttps (sv_config sv)"
    and r: "answer_file env req (new_response tls sv) sv = (Inr r, sv')" "rs_sharedBody r = Some body"
    by (rule response_shared [OF mk assms(2)])
  show ?thesis
  proof (rule file_shared [OF r new_response_shared])
    fix root path
    assume f: "root = selectDocumentRoot (sv_config sv) (header_or_empty req ''host'')"
      "resolveSafePath (en_fs env) root (rq_target req) = Inr (Some path)"
      "static_reply env req sv path body" "isForbiddenFile (en_fs env) (sv_config sv) root path = Inr False"
      "is_regular_file (en_fs env) path = Inr True"
      "\<exists>rules. htaccess_rules_for env (sv_config sv) root path = Inr rules \<and> \<not> ht_denyAll rules"
    from f(3) obtain cached c' where c: "cache_get (en_hash env) (en_fs env) path (en_steady env) (sv_cache sv) = (Some cached, c')"
      and s: "rq_method req \<noteq> ''POST''" "path_extension path \<noteq> cfg_phpExtension (sv_config sv)" "body = cf_body cached"
      by (auto simp: static_reply_def)
    from get_current [OF assms(4) c] have "direct_read (en_fs env) path = Some cached" by simp
    with f(1,4,5,6) s req resolved_below_root [OF assms(3) f(2)] show ?thesis by blast
  qed
qed

end
