(* ===== verification/Endpoints.thy ===== *)
theory Endpoints
  imports StaticContent
begin

text \<open>
  Who gets past the protected endpoints of \<open>src/src/Server.cpp\<close>: the admin status page is only
  answered, and a file is only written, for a client that presents a valid bearer token with the
  scope of the endpoint.
\<close>

section \<open>A sound server\<close>

text \<open>
  What a server started from a loaded configuration is (theory ServerRuns shows that it stays so):
  a valid configuration whose strings fit the memory, and a token store with its tokens.
\<close>

definition server_sound :: "server \<Rightarrow> bool" where
  "server_sound sv \<longleftrightarrow>
     config_ok (sv_config sv) \<and> config_typed (sv_config sv) \<and> reachable_store (sv_auth sv) \<and>
     as_inlineTokens (sv_auth sv) = cfg_authTokens (sv_config sv) \<and>
     list_all representable (cfg_authTokens (sv_config sv)) \<and> length (cfg_authBearerToken (sv_config sv)) < 2 ^ 64"

text \<open>
  The request carries the secret of a token of the configuration or of the secrets file as it was
  last read, unexpired and with the scope, or the token for everything.
\<close>

definition may_enter :: "server_env \<Rightarrow> http_request \<Rightarrow> string \<Rightarrow> server \<Rightarrow> server \<Rightarrow> bool" where
  "may_enter env req scope sv sv' \<longleftrightarrow>
     (\<exists>presented. presented \<noteq> [] \<and> rq_headers req ''authorization'' = Some (''Bearer '' @ presented) \<and>
        (cfg_authBearerToken (sv_config sv) = presented \<or>
         (\<exists>t \<in> set (cfg_authTokens (sv_config sv)) \<union> set (as_fileTokens (sv_auth sv')).
            token_is presented t \<and> \<not> isExpired t (en_epoch env) \<and> hasScope t scope)))"

section \<open>The length of a header value\<close>

lemma length_substr_le: "length (substr s i n) \<le> n"
  by (simp add: substr_def)

lemma length_strip_le: "length (strip P v) \<le> length v"
proof -
  have b: "length (strip_back P v) \<le> length v" for v
    by (simp add: strip_back_def length_dropWhile_le [THEN order_trans])
  have "length (strip_front P v) \<le> length v" for v by (simp add: strip_front_def length_dropWhile_le)
  then show ?thesis using b [of "strip_front P v"] by (simp add: strip_def le_trans)
qed

lemma accept_header_length:
  assumes "accept_header n v st = Inr st'" "hs_headers st' k = Some w"
  shows "hs_headers st k = Some w \<or> w = v"
  using assms by (auto simp: accept_header_def split: if_splits)

lemma header_value_length:
  assumes "parseHeadersOnly hp limits = Inr req" "rq_headers req k = Some w"
  shows "length w \<le> maxHeaderLineBytes limits"
proof -
  define P where "P st \<longleftrightarrow> (\<forall>k w. hs_headers st k = Some w \<longrightarrow> length w \<le> maxHeaderLineBytes limits)"
    for st :: header_state
  from assms obtain headerEnd start st where
    scan: "scan_lines hp (headers_only_step limits headerEnd) (\<lambda>_. Inl bad_request) start init_header_state = Inr st"
    and h: "rq_headers req = hs_headers st"
    by (auto simp: parseHeadersOnly_def headers_only_length_def split: option.splits if_splits sum.splits)
  have "P st" using scan
  proof (rule scan_lines_invariant)
    show "P init_header_state" by (simp add: P_def init_header_state_def)
  next
    fix s e st st'
    assume "P st" and st: "headers_only_step limits headerEnd s e (substr hp s (e - s)) st = Inr st'"
    from st obtain colon where len: "e - s \<le> maxHeaderLineBytes limits"
      and acc: "\<exists>n. accept_header n (trimHeaderValue (drop (colon + 1) (substr hp s (e - s)))) st = Inr st'"
      by (auto simp: headers_only_step_def Let_def split: if_splits option.splits)
    have "length (trimHeaderValue (drop (colon + 1) (substr hp s (e - s)))) \<le> e - s"
      unfolding trimHeaderValue_def
      by (rule order_trans [OF length_strip_le], simp) (rule order_trans [OF diff_le_self length_substr_le])
    with \<open>P st\<close> len acc show "P st'" unfolding P_def by (metis accept_header_length le_trans)
  qed simp
  with assms(2) h show ?thesis by (auto simp: P_def)
qed

section \<open>Past the token check\<close>

lemma endpoint_credential:
  assumes "authorizeEndpoint env req scope sv = (Inr d, sv')" "ad_code d = Allowed"
    and "cfg_enableEndpointAuth (sv_config sv)" "server_sound sv"
    and "parseHeadersOnly hp (parse_limits (sv_config sv)) = Inr req"
  shows "may_enter env req scope sv sv'"
proof -
  let ?c = "sv_config sv" and ?h = "header_or_empty req ''authorization''"
  from assms(1,3) obtain reload st' where
    st: "store_authorize ?h (cfg_authBearerToken ?c) scope (en_epoch env) (en_fs env) (en_steady env) (en_epoch env) (sv_auth sv) =
      (Inr (d, reload), st')" and sv': "sv_auth sv' = st'"
    by (auto simp: authorizeEndpoint_def split: prod.splits sum.splits)
  have "length ?h \<le> cfg_maxHeaderLineBytes ?c"
    using header_value_length [OF assms(5)] by (simp add: header_or_empty_def parse_limits_def split: option.split)
  moreover have "cfg_maxHeaderLineBytes ?c < 2 ^ 64" using assms(4) by (simp add: server_sound_def config_typed_def)
  ultimately have "length ?h < 2 ^ 64" by simp
  then obtain presented where p: "presented \<noteq> []" "?h = ''Bearer '' @ presented"
    "cfg_authBearerToken ?c = presented \<or> (\<exists>t \<in> set (as_inlineTokens (sv_auth sv)) \<union> set (as_fileTokens st').
       token_is presented t \<and> \<not> isExpired t (en_epoch env) \<and> hasScope t scope)"
    using store_allowed [OF _ _ _ _ st assms(2)] assms(4) by (auto simp: server_sound_def)
  have "rq_headers req ''authorization'' = Some ?h"
    using p(2) by (auto simp: header_or_empty_def split: option.splits)
  with p sv' assms(4) show ?thesis unfolding may_enter_def server_sound_def by metis
qed

text \<open>The parts of the server that the decision leaves as they are.\<close>

lemma endpoint_config: "authorizeEndpoint env req scope sv = (r, sv') \<Longrightarrow> sv_config sv' = sv_config sv \<and> sv_uploads sv' = sv_uploads sv"
  using authorize_touches [of env sv req scope] by (auto simp: touches_def same_parts_def)

lemma may_enter_later: "may_enter env req scope sv sv1 \<Longrightarrow> sv_auth sv' = sv_auth sv1 \<Longrightarrow> may_enter env req scope sv sv'"
  by (simp add: may_enter_def)

lemma admin_allowed:
  assumes "handle_admin env tls ip req sv = (Inr res, sv')" "rs_status res = 200" "server_sound sv"
    and "parseHeadersOnly hp (parse_limits (sv_config sv)) = Inr req"
  shows "cfg_enableAdminStatus (sv_config sv) \<and> rq_method req = ''GET'' \<and> may_enter env req ''admin'' sv sv'"
proof -
  have refused: "refuse_endpoint tls ip t s d sv1 = (res, sv2) \<Longrightarrow> False" for t s d sv1 sv2
    using assms(2) unfolding refuse_endpoint_def
    by (cases "ad_code d") (auto simp: unauthorizedResponse_def forbiddenResponse_def Let_def)
  note a = assms(1) [unfolded handle_admin_def Let_def]
  have g: "cfg_enableAdminStatus (sv_config sv)" "rq_method req = ''GET''"
    using a assms(2) by (auto split: if_splits)
  let ?allowed = "\<lambda>d sv1. auditEndpointEvent ''auth_allowed'' ip (rq_target req) ''admin'' (ad_tokenName d) 200 sv1"
  let ?k = "\<lambda>d sv1 :: server. if ad_code d \<noteq> Allowed
      then (case refuse_endpoint tls ip (rq_target req) ''admin'' d sv1 of (res, sv2) \<Rightarrow> (Inr res, sv2))
      else (Inr (adminStatusResponse env tls (?allowed d sv1)), ?allowed d sv1) :: http_response outcome"
  have "go_on (authorizeEndpoint env req ''admin'' sv) ?k = (Inr res, sv')" using a g by simp
  then obtain d sv1 where d: "authorizeEndpoint env req ''admin'' sv = (Inr d, sv1)" and k: "?k d sv1 = (Inr res, sv')"
    by (rule go_on_result)
  have al: "ad_code d = Allowed" using k refused by (auto split: if_splits prod.splits)
  have "cfg_enableEndpointAuth (sv_config sv)" using g(1) assms(3) by (simp add: server_sound_def config_ok_def)
  from endpoint_credential [OF d al this assms(3,4)] have "may_enter env req ''admin'' sv sv1" .
  with g k al show ?thesis by (auto intro: may_enter_later)
qed

text \<open>The strict parser sees the same target, so the answer is for the endpoint that was chosen.\<close>

lemma content_target:
  assumes "readHeadersOnly n s = Inr (headers, s')" "parseHeadersOnly (hr_headerPart headers) (parse_limits (sv_config sv)) = Inr req"
    and "completeRequestInMemory m headers s' = Inr (raw, s'')" "strict_parse raw (parse_limits (sv_config sv)) = Inr r"
  shows "rq_target r = rq_target req \<and> rq_method r = rq_method req"
proof -
  from completed_request [OF assms(3)] obtain b where "raw = hr_headerPart headers @ b" by blast
  with header_only_of_strict [of "hr_headerPart headers" b] header_block_read [OF assms(1)] assms(2,4) show ?thesis by auto
qed

lemma content_reply_target:
  assumes "readHeadersOnly n s = Inr (headers, s')" "parseHeadersOnly (hr_headerPart headers) (parse_limits (sv_config sv)) = Inr req"
    and "completeRequestInMemory k headers s' = Inr (raw, s'')"
    and "makeResponse env raw tls (or_dash (rq_method req)) (or_dash (rq_target req)) sv = (Inr rp, sv')"
  shows "rp_target rp = or_dash (rq_target req)"
  using assms(4) content_target [OF assms(1-3)]
  by (auto simp: makeResponse_def Let_def split: if_splits sum.splits elim!: go_on_result)

lemma endpoint_not_dash: "config_ok c \<Longrightarrow> ''-'' \<noteq> cfg_adminStatusEndpoint c \<and> or_dash (cfg_adminStatusEndpoint c) = cfg_adminStatusEndpoint c"
proof -
  assume "config_ok c"
  then have "cfg_adminStatusEndpoint c \<noteq> []" "hd (cfg_adminStatusEndpoint c) = CHR ''/''" by (simp_all add: config_ok_def)
  then show ?thesis by (cases "cfg_adminStatusEndpoint c") (auto simp: or_dash_def)
qed

lemma or_dash_endpoint: "config_ok c \<Longrightarrow> or_dash t = cfg_adminStatusEndpoint c \<Longrightarrow> t = cfg_adminStatusEndpoint c"
  using endpoint_not_dash [of c] by (auto simp: or_dash_def split: if_splits)

text \<open>
  C2: the admin status page is answered with 200 only when it is enabled, to a GET request, and to a
  client that presents the secret of an unexpired token with the scope admin (or the token for
  everything), from the configuration or from the secrets file as it was read last.
\<close>

theorem admin_page_protected:
  assumes "handleClientStream env s tls ip sv = (Inr rp, sv')" "rp_status rp = 200"
    and "rp_target rp = cfg_adminStatusEndpoint (sv_config sv)" "server_sound sv"
  shows "cfg_enableAdminStatus (sv_config sv) \<and> rp_method rp = ''GET'' \<and>
    (\<exists>headers s' req. readHeadersOnly (cfg_maxRequestBytes (sv_config sv)) s = Inr (headers, s') \<and>
       parseHeadersOnly (hr_headerPart headers) (parse_limits (sv_config sv)) = Inr req \<and>
       may_enter env req ''admin'' sv sv')"
  using assms(1)
proof (cases rule: client_cases)
  case malformed
  with assms(3,4) endpoint_not_dash show ?thesis by (auto simp: server_sound_def)
next
  case (admin headers s' req r1)
  then obtain res where res: "r1 = Inr res" and rp: "rp = finish (or_dash (rq_method req)) (or_dash (rq_target req)) res"
    by (auto simp: map_sum_Inr)
  with assms(2) have "rs_status res = 200" by simp
  from admin_allowed [OF admin(4) [unfolded res] this assms(4) admin(2)] admin(1,2) rp show ?thesis by (auto simp: or_dash_def)
next
  case (upload headers s' req r1)
  then have "rp_target rp = or_dash (rq_target req)" by (auto simp: map_sum_Inr)
  with upload(3) assms(3,4) or_dash_endpoint show ?thesis by (auto simp: server_sound_def)
next
  case (content headers s' req raw s'')
  then have "rp_target rp = or_dash (rq_target req)" by (intro content_reply_target)
  with content(3) assms(3,4) or_dash_endpoint show ?thesis by (auto simp: server_sound_def)
qed simp

section \<open>Uploads\<close>

text \<open>
  What an upload may do to the files: the spool file comes and goes, and files are created under the
  upload directory as the multipart parsers do.
\<close>

definition spool_frame :: "string \<Rightarrow> string \<Rightarrow> multipart_limits \<Rightarrow> upload_state \<Rightarrow> upload_state \<Rightarrow> bool" where
  "spool_frame spool dir limits st st' \<longleftrightarrow>
     (\<forall>p. p = spool \<or> us_store st' p = us_store st p \<or>
        (\<exists>n c. stored_ok n \<and> p = path_join dir n \<and> us_store st' p = Some c \<and> length c \<le> ml_maxFileBytes limits))"

lemma spool_frame_refl [simp]: "spool_frame spool dir limits st st"
  by (simp add: spool_frame_def)

lemma spool_frame_trans: "spool_frame s d l a b \<Longrightarrow> spool_frame s d l b c \<Longrightarrow> spool_frame s d l a c"
  unfolding spool_frame_def by metis

lemma spool_frame_write: "spool_frame s d l (sv_uploads sv) (sv_uploads (write_spool s data sv))"
  by (simp add: spool_frame_def write_spool_def)

lemma spool_frame_remove: "spool_frame s d l (sv_uploads sv) (sv_uploads (snd (remove_spool env s sv)))"
  by (simp add: spool_frame_def remove_spool_def)

lemma spool_frame_save:
  "saveUploadsFromSpoolFile e spool ct d l st = (r, st') \<Longrightarrow> spool_frame s d l st st'"
  using saveUploadsFromSpoolFile_inv [of e spool ct d l st r st']
  by (cases r) (auto simp: spool_frame_def upload_inv_def upload_frame_def)

lemma spool_upload_frame:
  assumes "spool_upload env headers s n ct p res sv = (r, sv')"
  shows "spool_frame p (cfg_uploadDirectory (sv_config sv)) (upload_limits (sv_config sv)) (sv_uploads sv) (sv_uploads sv')"
proof -
  let ?frame = "spool_frame p (cfg_uploadDirectory (sv_config sv)) (upload_limits (sv_config sv)) (sv_uploads sv)"
  define begun where "begun = take (min (length (hr_leftover headers)) n) (hr_leftover headers)"
  obtain err written data where f: "fill_spool n (length begun) begun s = (err, written, data)"
    by (cases "fill_spool n (length begun) begun s")
  define sv1 where "sv1 = write_spool p data sv"
  have c: "sv_config sv1 = sv_config sv" by (simp add: sv1_def write_spool_def)
  obtain q st where save: "saveUploadsFromSpoolFile (en_upload env) (us_store (sv_uploads sv1) p) ct
      (cfg_uploadDirectory (sv_config sv1)) (upload_limits (sv_config sv1)) (sv_uploads sv1) = (q, st)" by fastforce
  have w: "?frame (sv_uploads sv1)" by (simp add: sv1_def spool_frame_write)
  have w2: "?frame (sv_uploads (sv1\<lparr>sv_uploads := st\<rparr>))"
    using spool_frame_trans [OF w spool_frame_save [OF save [unfolded c]]] by simp
  have rm: "?frame (sv_uploads (snd (go_on (remove_spool env p sv2) (\<lambda>_ sv3. (x, sv3)))))"
    if "?frame (sv_uploads sv2)" for sv2 and x :: "string + http_response"
    using spool_frame_trans [OF that spool_frame_remove [of p _ _ sv2 env]]
    by (cases "remove_spool env p sv2"; cases "fst (remove_spool env p sv2)") auto
  have "?frame (sv_uploads (snd (spool_upload env headers s n ct p res sv)))"
    unfolding spool_upload_def Let_def begun_def [symmetric] f prod.case sv1_def [symmetric] save
    using w w2 rm [OF w] rm [OF w2] by (cases err; cases q) simp_all
  with assms show ?thesis by simp
qed

lemma receive_upload_frame:
  assumes "receive_upload env headers s n ct p res sv = (r, sv')"
  shows "spool_frame p (cfg_uploadDirectory (sv_config sv)) (upload_limits (sv_config sv)) (sv_uploads sv) (sv_uploads sv')"
proof -
  obtain q sv1 where q: "spool_upload env headers s n ct p res sv = (q, sv1)" by fastforce
  note f = spool_upload_frame [OF q]
  show ?thesis
  proof (cases q)
    case (Inr x)
    with q f assms show ?thesis by (simp add: receive_upload_def)
  next
    case (Inl e)
    then have "sv' = snd (remove_spool env p sv1)" using q assms by (auto simp: receive_upload_def remove_spool_def split: if_splits)
    with spool_frame_trans [OF f spool_frame_remove] show ?thesis by simp
  qed
qed

lemma upload_allowed:
  assumes "handle_upload env tls ip headers s req sv = (r, sv')" "sv_uploads sv' \<noteq> sv_uploads sv" "server_sound sv"
    and "parseHeadersOnly hp (parse_limits (sv_config sv)) = Inr req"
  shows "cfg_enableUploads (sv_config sv) \<and> rq_method req = ''POST'' \<and>
    (cfg_enableEndpointAuth (sv_config sv) \<longrightarrow> may_enter env req ''upload'' sv sv') \<and>
    spool_frame (uniqueSpoolPath env (cfg_uploadSpoolDirectory (sv_config sv))) (cfg_uploadDirectory (sv_config sv))
      (upload_limits (sv_config sv)) (sv_uploads sv) (sv_uploads sv')"
proof -
  let ?c = "sv_config sv" and ?res = "new_response tls sv"
  let ?allowed = "\<lambda>d sv1. auditEndpointEvent ''auth_allowed'' ip (rq_target req) ''upload'' (ad_tokenName d) 200 sv1"
  note a = assms(1) [unfolded handle_upload_def Let_def]
  have g: "cfg_enableUploads ?c" "rq_method req = ''POST''"
    using a assms(2) by (simp_all split: if_splits)
  obtain q sv1 where q: "authorizeEndpoint env req ''upload'' sv = (q, sv1)" by fastforce
  have same: "sv_config sv1 = ?c" "sv_uploads sv1 = sv_uploads sv" using endpoint_config [OF q] by simp_all
  note a = a [unfolded q]
  obtain d where d: "q = Inr d"
  proof (cases q)
    case (Inl e)
    with a g have "sv1 = sv'" by simp
    with same assms(2) show ?thesis by simp
  qed
  have al: "ad_code d = Allowed"
  proof (rule ccontr)
    assume "ad_code d \<noteq> Allowed"
    then have "sv' = snd (refuse_endpoint tls ip (rq_target req) ''upload'' d sv1)" using a g d by (simp split: prod.splits)
    then have "sv_uploads sv' = sv_uploads sv1"
      using refuse_touches [of env False False sv1 tls ip "rq_target req" "''upload''" d] by (simp add: touches_def)
    with assms(2) same show False by simp
  qed
  note a = a [unfolded d go_on_simps]
  have kept: "x = (r, sv') \<Longrightarrow> snd x \<noteq> ?allowed d sv1" for x using assms(2) same by auto
  have rec: "\<exists>ct. receive_upload env headers s (rq_contentLength req) ct (uniqueSpoolPath env (cfg_uploadSpoolDirectory ?c)) ?res
      (?allowed d sv1) = (r, sv')"
    using a g al same kept [OF a] by (simp split: if_splits option.splits) blast
  then obtain ct where rec: "receive_upload env headers s (rq_contentLength req) ct
      (uniqueSpoolPath env (cfg_uploadSpoolDirectory ?c)) ?res (?allowed d sv1) = (r, sv')" by blast
  have auth: "sv_auth sv' = sv_auth sv1"
    using receive_touches [of env "?allowed d sv1" headers s "rq_contentLength req" ct
        "uniqueSpoolPath env (cfg_uploadSpoolDirectory ?c)" ?res]
    by (simp add: rec touches_def)
  have "may_enter env req ''upload'' sv sv'" if "cfg_enableEndpointAuth ?c"
    using endpoint_credential [OF q [unfolded d] al that assms(3,4)] auth by (rule may_enter_later)
  with g receive_upload_frame [OF rec] same show ?thesis by simp
qed

text \<open>
  C3: files only change when uploads are enabled, in answer to a POST to the upload endpoint and,
  with endpoint authentication, of a client that presents the secret of an unexpired token with the
  scope upload. Apart from the spool file of that request, which is the only other file touched, every
  file that is new or different is directly in the upload directory, has a safe name without a blocked
  extension, and at most \<open>max_upload_file_bytes\<close> bytes. This holds for requests that fail, too.
\<close>

theorem uploads_protected:
  assumes "handleClientStream env s tls ip sv = (r, sv')" "sv_uploads sv' \<noteq> sv_uploads sv" "server_sound sv"
  shows "cfg_enableUploads (sv_config sv) \<and>
    (\<exists>headers s' req. readHeadersOnly (cfg_maxRequestBytes (sv_config sv)) s = Inr (headers, s') \<and>
       parseHeadersOnly (hr_headerPart headers) (parse_limits (sv_config sv)) = Inr req \<and>
       rq_target req = cfg_uploadEndpoint (sv_config sv) \<and> rq_method req = ''POST'' \<and>
       (cfg_enableEndpointAuth (sv_config sv) \<longrightarrow> may_enter env req ''upload'' sv sv')) \<and>
    spool_frame (uniqueSpoolPath env (cfg_uploadSpoolDirectory (sv_config sv))) (cfg_uploadDirectory (sv_config sv))
      (upload_limits (sv_config sv)) (sv_uploads sv) (sv_uploads sv')"
  using assms(1)
proof (cases rule: client_cases)
  case (admin headers s' req r1)
  with admin_touches [of env sv tls ip req] assms(2) show ?thesis by (simp add: touches_def)
next
  case (upload headers s' req r1)
  from upload_allowed [OF upload(5) assms(2,3) upload(2)] upload(1,2,4) show ?thesis by blast
next
  case (content headers s' req raw s'')
  have "sv_uploads sv' = sv_uploads sv"
  proof (cases "strict_parse raw (parse_limits (sv_config sv))")
    case (Inl x)
    with content(6) show ?thesis by (auto simp: makeResponse_def Let_def split: if_splits)
  next
    case (Inr q)
    have t: "rq_target q \<noteq> cfg_uploadEndpoint (sv_config sv)" using content_target [OF content(1,2,5) Inr] content(4) by simp
    have "sv_uploads (snd (answer_request env q tls res sv)) = sv_uploads sv" for res
      using t file_touches [of env sv q res] by (simp add: answer_request_def touches_def)
    moreover have "sv_uploads (snd (go_on x (\<lambda>y sv1. (Inr (f y), sv1)))) = sv_uploads (snd x)" for x and f :: "http_response \<Rightarrow> reply"
      by (simp add: go_on_answered)
    ultimately have "sv_uploads (snd (makeResponse env raw tls m t sv)) = sv_uploads sv" for m t
      by (simp add: makeResponse_def Let_def Inr)
    with content(6) show ?thesis by (metis snd_conv)
  qed
  with assms(2) show ?thesis by simp
qed (use assms(2) in simp_all)

section \<open>The theorems at concrete requests\<close>

lemma site_sound: "server_sound site_server"
proof -
  have "reachable_store (sv_auth site_server)" "as_inlineTokens (sv_auth site_server) = []"
    using reachable_store.start [OF site_store] by (simp_all add: site_server_def site_auth_def make_store_def combineAndValidate_def)
  moreover have "config_ok site_config" "config_typed site_config"
    by (simp_all add: config_ok_def config_typed_def site_config_def default_config_def)
  ultimately show ?thesis
    by (simp add: server_sound_def) (simp add: site_server_def site_config_def default_config_def)
qed

theorem admin_page_protected_witness:
  "\<exists>sv'. may_enter site_env admin_parsed ''admin'' site_server sv'"
proof -
  obtain rp sv' where a: "handleClientStream site_env [Chunk admin_request] False ''10.0.0.1'' site_server = (Inr rp, sv')"
    "rp_status rp = 200" "rp_target rp = cfg_adminStatusEndpoint (sv_config site_server)"
    using admin_answer by (auto simp: site_server_def)
  show ?thesis
    using admin_page_protected [OF a site_sound] admin_read admin_parse by (auto simp: site_server_def)
qed

lemma open_sound: "server_sound open_server"
proof -
  have "reachable_store (sv_auth open_server)" "as_inlineTokens (sv_auth open_server) = []"
    using reachable_store.start [OF site_store]
    by (simp_all add: open_server_def site_server_def site_auth_def make_store_def combineAndValidate_def)
  moreover have "config_ok (sv_config open_server)" "config_typed (sv_config open_server)"
    by (simp_all add: config_ok_def config_typed_def open_server_def site_config_def default_config_def)
  ultimately show ?thesis
    by (simp add: server_sound_def) (simp add: open_server_def site_config_def default_config_def)
qed

theorem uploads_protected_witness:
  "\<exists>st'. st' \<noteq> sv_uploads open_server \<and>
     spool_frame (uniqueSpoolPath site_env ''/spool'') ''/up'' (upload_limits (sv_config open_server)) (sv_uploads open_server) st'"
proof -
  obtain r sv' where h: "handleClientStream site_env [Chunk upload_request] False ''10.0.0.1'' open_server = (r, sv')" by fastforce
  have "sv_uploads sv' \<noteq> sv_uploads open_server"
  proof -
    have "us_ticks (sv_uploads open_server) = 0" by (simp add: open_server_def site_server_def)
    with upload_changes h show ?thesis by auto
  qed
  from this uploads_protected [OF h this open_sound]
  have "sv_uploads sv' \<noteq> sv_uploads open_server \<and>
     spool_frame (uniqueSpoolPath site_env ''/spool'') ''/up'' (upload_limits (sv_config open_server)) (sv_uploads open_server) (sv_uploads sv')"
    by (simp add: open_server_def site_config_def)
  then show ?thesis by blast
qed

end
