(* ===== verification/Framing.thy ===== *)
theory Framing
  imports Endpoints
begin

text \<open>
  What a client of \<open>src/src/Server.cpp\<close> reads: whatever it has sent, the bytes written to it are one
  well-framed response, because no header line contains a line feed.
\<close>

section \<open>Clean responses\<close>

lemma clean_update: "list_all (\<lambda>(n, v). one_line n \<and> one_line v) (AList.update k w hs)"
  if "list_all (\<lambda>(n, v). one_line n \<and> one_line v) hs" "one_line k" "one_line w"
  using that set_update [of k w hs] by (auto simp: list_all_iff)

lemma one_line_Nil [simp]: "one_line []"
  by (simp add: one_line_def)

lemma one_line_Cons [simp]: "one_line (c # s) \<longleftrightarrow> c \<noteq> LF \<and> one_line s"
  by (auto simp: one_line_def)

lemma one_line_append [simp]: "one_line (a @ b) \<longleftrightarrow> one_line a \<and> one_line b"
  by (auto simp: one_line_def)

lemma one_line_number [simp]: "one_line (to_string n)"
  using one_line_to_string by (simp add: one_line_def)

lemma new_response_clean [simp]: "response_one_line (new_response tls sv)"
  by (simp add: new_response_def default_response_def response_one_line_def)

lemma new_response_parts [simp]:
  "one_line (rs_contentType (new_response tls sv))" "one_line (rs_cacheControl (new_response tls sv))"
  "rs_extraHeaders (new_response tls sv) = []"
  by (simp_all add: new_response_def default_response_def)

lemma with_status_clean [simp]:
  "response_one_line (with_status st reason res) \<longleftrightarrow>
     one_line reason \<and> one_line (rs_contentType res) \<and> one_line (rs_cacheControl res) \<and>
     list_all (\<lambda>(n, v). one_line n \<and> one_line v) (rs_extraHeaders res)"
  by (simp add: response_one_line_def)

lemma clean_parts:
  assumes "response_one_line res"
  shows "one_line (rs_reason res)" "one_line (rs_contentType res)" "one_line (rs_cacheControl res)"
    "list_all (\<lambda>(n, v). one_line n \<and> one_line v) (rs_extraHeaders res)"
  using assms by (simp_all add: response_one_line_def)

lemma unauthorized_clean [simp]: "response_one_line (unauthorizedResponse tls bad sv)"
  by (simp add: unauthorizedResponse_def Let_def response_one_line_def new_response_def default_response_def clean_update)

lemma forbidden_clean [simp]: "response_one_line (forbiddenResponse tls sv)"
  by (simp add: forbiddenResponse_def clean_parts)

lemma refuse_clean: "refuse_endpoint tls ip t s d sv = (r, sv') \<Longrightarrow> response_one_line r"
  unfolding refuse_endpoint_def by (cases "ad_code d") auto

lemma admin_clean: "handle_admin env tls ip req sv = (Inr r, sv') \<Longrightarrow> response_one_line r"
  unfolding handle_admin_def Let_def
  by (auto elim!: go_on_result split: if_splits prod.splits
      simp: adminStatusResponse_def response_one_line_def new_response_def default_response_def
      dest!: refuse_clean)

lemma upload_response_clean: "response_one_line res \<Longrightarrow> response_one_line (upload_response streamed result res)"
  by (auto simp: upload_response_def upload_reason_def response_one_line_def)

lemma receive_clean:
  assumes "receive_upload env headers s n ct p res sv = (Inr r, sv')" "response_one_line res"
  shows "response_one_line r"
proof -
  from assms(1) have "spool_upload env headers s n ct p res sv = (Inr r, sv')"
    by (auto simp: receive_upload_def elim!: go_on_result split: prod.splits sum.splits)
  then show ?thesis using assms(2)
    unfolding spool_upload_def Let_def
    by (auto elim!: go_on_result simp: clean_parts upload_response_clean split: if_splits option.splits prod.splits sum.splits)
qed

lemma upload_clean: "handle_upload env tls ip headers s req sv = (Inr r, sv') \<Longrightarrow> response_one_line r"
  unfolding handle_upload_def Let_def
  by (auto elim!: go_on_result receive_clean simp: clean_parts split: if_splits prod.splits option.splits dest: refuse_clean)

section \<open>Failures of the parsers\<close>

lemmas failure_defs = bad_request_def headers_too_large_def method_not_allowed_def uri_too_long_def
  version_not_supported_def not_implemented_def payload_too_large_def parse_fail_def

lemma failures_clean [simp]:
  "one_line (pf_reason bad_request)" "one_line (pf_reason headers_too_large)" "one_line (pf_reason method_not_allowed)"
  "one_line (pf_reason uri_too_long)" "one_line (pf_reason version_not_supported)" "one_line (pf_reason not_implemented)"
  "one_line (pf_reason payload_too_large)"
  by (simp_all add: failure_defs)

lemma accept_failure: "accept_header n v st = Inl x \<Longrightarrow> one_line (pf_reason x)"
  by (auto simp: accept_header_def split: if_splits)

lemma request_line_failure: "check_request_line limits l = Inl x \<Longrightarrow> one_line (pf_reason x)"
  by (auto simp: check_request_line_def Let_def split: if_splits prod.splits)

lemma header_scan_failure:
  "scan_lines raw (strict_header_step limits e) (\<lambda>_. Inl bad_request) start st = Inl x \<Longrightarrow> one_line (pf_reason x)"
  "scan_lines raw (headers_only_step limits e) (\<lambda>_. Inl bad_request) start st = Inl x \<Longrightarrow> one_line (pf_reason x)"
  by (erule scan_lines_failure;
      auto simp: strict_header_step_def headers_only_step_def Let_def split: if_splits option.splits dest: accept_failure)+

lemma strict_failure: "strict_parse raw limits = Inl x \<Longrightarrow> one_line (pf_reason x)"
  by (auto simp: strict_parse_def strict_body_def split: if_splits option.splits sum.splits prod.splits
      dest: request_line_failure header_scan_failure(1))

lemma headers_only_failure: "parseHeadersOnly hp limits = Inl x \<Longrightarrow> one_line (pf_reason x)"
  by (auto simp: parseHeadersOnly_def headers_only_length_def split: if_splits option.splits sum.splits prod.splits
      dest: request_line_failure header_scan_failure(2))

lemma parse_failed_clean [simp]: "response_one_line (parse_failed x (new_response tls sv)) \<longleftrightarrow> one_line (pf_reason x)"
  by (simp add: parse_failed_def response_one_line_def new_response_def default_response_def)

section \<open>Content\<close>

lemma mimeType_clean [simp]: "one_line (mimeType path)"
  by (simp add: mimeType_def Let_def)

lemma makeEtag_clean [simp]: "one_line (makeEtag n m)"
proof -
  have "one_line (to_hex k)" for k
  proof -
    have "c \<noteq> LF" if "c \<in> set (to_hex k)" for c
      using to_hex_chars [OF that] by (auto simp: ctype_defs uc_def)
    then show ?thesis by (auto simp: one_line_def)
  qed
  then show ?thesis by (simp add: makeEtag_def)
qed

text \<open>Every file the cache gives out carries an ETag that was made by \<open>makeEtag\<close>.\<close>

lemma get_etag:
  assumes "cache_ok n c" "cache_get hash fs path now c = (Some f, c')"
  shows "\<exists>sz m. cf_etag f = makeEtag sz m"
proof -
  have entry: "\<exists>sz m. cf_etag (ce_file e) = makeEtag sz m"
    if "map_of (cs_entries (sc_shards d ! shardIndex hash d path)) path = Some e" "sc_shards d = sc_shards c" for d e
  proof -
    have "sc_shards d ! shardIndex hash d path \<in> set (sc_shards c)"
      using assms(1) that(2) shardIndex_less [of d hash path] by (simp add: cache_ok_def)
    with assms(1) map_of_SomeD [OF that(1)] have "file_ok e" by (auto simp: cache_ok_def)
    then show ?thesis by (auto simp: file_ok_def)
  qed
  obtain r1 c1 where l: "cache_lookup hash path now c = (r1, c1)" by fastforce
  have s1: "sc_shards c1 = sc_shards c" "r1 = Some f \<Longrightarrow> \<exists>sz m. cf_etag f = makeEtag sz m"
    using l entry [of c] by (auto simp: cache_lookup_def split: if_splits option.splits)
  show ?thesis
  proof (cases r1)
    case (Some g)
    with assms(2) l s1(2) show ?thesis by (simp add: cache_get_def)
  next
    case r1: None
    with assms(2) l obtain sz where sz: "fs_size fs path = Some sz" by (auto simp: cache_get_def split: option.splits)
    obtain r2 c2 where v: "cache_revalidate hash path now sz (modified_time fs path) c1 = (r2, c2)" by fastforce
    have r2: "r2 = Some g \<Longrightarrow> \<exists>sz m. cf_etag g = makeEtag sz m" for g
      using v entry [of c1] s1(1) by (auto simp: cache_revalidate_def Let_def split: if_splits option.splits)
    show ?thesis
    proof (cases r2)
      case (Some g)
      with assms(2) l r1 sz v r2 show ?thesis by (simp add: cache_get_def)
    next
      case None
      with assms(2) l r1 sz v have "cache_load hash fs path now sz c2 = (Some f, c')" by (simp add: cache_get_def)
      then have "cf_etag f = makeEtag sz (modified_time fs path)"
        by (auto simp: cache_load_def Let_def split: option.splits if_splits)
      then show ?thesis by blast
    qed
  qed
qed

lemma php_clean: "answer_php env req res path sv = (r, sv') \<Longrightarrow> response_one_line res \<Longrightarrow> response_one_line r"
  by (auto simp: answer_php_def response_one_line_def split: if_splits prod.splits)

lemma static_clean:
  assumes "answer_static env req res path sv = (r, sv')" "response_one_line res"
    and "one_line (cfg_staticCacheControl (sv_config sv))" "cache_ok n (sv_cache sv)"
  shows "response_one_line r"
proof -
  obtain q c' where q: "cache_get (en_hash env) (en_fs env) path (en_steady env) (sv_cache sv) = (q, c')" by fastforce
  show ?thesis
  proof (cases q)
    case None
    with q assms(1-3) show ?thesis by (auto simp: answer_static_def clean_parts)
  next
    case (Some f)
    with get_etag [OF assms(4)] q have "one_line (cf_etag f)" by fastforce
    then have "list_all (\<lambda>(n, v). one_line n \<and> one_line v) (AList.update ''ETag'' (cf_etag f) (rs_extraHeaders res))"
      using clean_parts(4) [OF assms(2)] by (intro clean_update) simp_all
    with q Some assms(1-3) show ?thesis by (auto simp: answer_static_def Let_def response_one_line_def)
  qed
qed

lemma existing_clean:
  assumes "answer_existing env req res path sv = (r, sv')" "response_one_line res"
    and "one_line (cfg_staticCacheControl (sv_config sv))" "cache_ok n (sv_cache sv)"
  shows "response_one_line r"
  using assms(1) php_clean [of env req res path sv r sv', OF _ assms(2)] static_clean [of env req res path sv r sv', OF _ assms(2-4)]
    clean_parts [OF assms(2)]
  by (auto simp: answer_existing_def split: if_splits)

text \<open>The headers of \<open>.htaccess\<close> files are what their author wrote, but on one line.\<close>

lemma safe_name_clean: "safeName n \<Longrightarrow> one_line n"
  by (auto simp: safeName_def one_line_def list_all_iff ctype_defs uc_def)

lemma htaccess_headers_clean:
  assumes "htaccess_rules_for env c root path = Inr rules"
  shows "list_all (\<lambda>(n, v). one_line n \<and> one_line v) (ht_responseHeaders rules)"
proof -
  have "rules_ok rules"
    using assms evaluate_ok default_rules_ok by (auto simp: htaccess_rules_for_def split: if_splits)
  then have "header_allowed x" if "x \<in> set (ht_responseHeaders rules)" for x using that by (simp add: rules_ok_def list_all_iff)
  then show ?thesis using safe_name_clean by (fastforce simp: header_allowed_def list_all_iff one_line_def)
qed

lemma add_headers_clean:
  assumes "response_one_line res" "list_all (\<lambda>(n, v). one_line n \<and> one_line v) hs"
  shows "response_one_line (add_headers hs res)"
proof -
  have "list_all (\<lambda>(n, v). one_line n \<and> one_line v) (foldl (\<lambda>m h. AList.update (fst h) (snd h) m) xs hs)"
    if "list_all (\<lambda>(n, v). one_line n \<and> one_line v) xs" for xs
    using assms(2) that by (induction hs arbitrary: xs) (simp_all add: clean_update split_beta)
  with assms(1) show ?thesis by (simp add: response_one_line_def add_headers_def)
qed

lemma file_clean:
  assumes "answer_file env req res0 sv = (Inr r, sv')" "response_one_line res0"
    and "one_line (cfg_staticCacheControl (sv_config sv))" "cache_ok n (sv_cache sv)"
  shows "response_one_line r"
proof -
  have path: "response_one_line r" if a: "answer_path env req res root path sv = (Inr r, sv')" and c: "response_one_line res" for res root path
  proof -
    consider (denied) "r = with_status 403 ''Forbidden'' res"
      | (ruled) rules res' where "htaccess_rules_for env (sv_config sv) root path = Inr rules"
          "res' = add_headers (ht_responseHeaders rules) res"
          "r = with_status 403 ''Forbidden'' res' \<or> r = with_status 404 ''Not Found'' res' \<or>
            answer_existing env req res' path sv = (r, sv')"
      using a by (auto simp: answer_path_def Let_def split: if_splits prod.splits elim!: go_on_result)
    then show ?thesis
    proof cases
      case denied
      then show ?thesis using clean_parts [OF c] by simp
    next
      case ruled
      have c': "response_one_line res'" using ruled(1,2) add_headers_clean [OF c htaccess_headers_clean] by simp
      with ruled(3) existing_clean [OF _ c' assms(3,4)] clean_parts [OF c'] show ?thesis by auto
    qed
  qed
  have head: "response_one_line (res0\<lparr>rs_headOnly := b\<rparr>)" for b using assms(2) by (simp add: response_one_line_def)
  show ?thesis
    using assms(1) head path clean_parts [OF head]
    by (auto simp: answer_file_def Let_def split: option.splits elim!: go_on_result)
qed

lemma space_free: "\<forall>c \<in> set s. \<not> isspace c \<Longrightarrow> one_line s"
  by (auto simp: one_line_def ctype_defs uc_def)

lemma tolower_LF: "LF = tolower c \<Longrightarrow> c = LF"
proof (rule ccontr)
  assume "LF = tolower c" "c \<noteq> LF"
  then have "isupper c" "char_of (uc c + 32) = LF" by (auto simp: tolower_def split: if_splits)
  moreover have "uc (char_of (uc c + 32)) = (uc c + 32) mod 256" by (simp add: uc_def)
  moreover have "uc LF = 10" by (simp add: uc_def)
  ultimately show False by (auto simp: ctype_defs)
qed

lemma lowercase_clean: "one_line s \<Longrightarrow> one_line (lowercase s)"
  unfolding one_line_def lowercase_def set_map by (blast dest: tolower_LF)

lemma normalizeHost_clean: "one_line host \<Longrightarrow> one_line (normalizeHost host)"
proof -
  assume "one_line host"
  then have "one_line (case find_char host CHR '':'' of None \<Rightarrow> host | Some colon \<Rightarrow> substr host 0 colon)"
    by (auto simp: one_line_def substr_def split: option.split dest: in_set_takeD)
  from lowercase_clean [OF this] show ?thesis using set_strip unfolding normalizeHost_def one_line_def by blast
qed

lemma redirect_clean:
  assumes "strict_parse raw limits = Inr req"
  shows "response_one_line (redirect_response c req (new_response tls sv))"
proof -
  note acc = strict_parse_accepted [OF assms]
  have t: "one_line (rq_target req)" using acc by (intro space_free) (simp add: accepted_request_def)
  have h: "one_line (header_or_empty req ''host'')"
    using acc value_ok_no_LF by (auto simp: accepted_request_def header_or_empty_def one_line_def split: option.split)
  have "one_line (httpsRedirectLocation c (header_or_empty req ''host'') (rq_target req))"
    using t normalizeHost_clean [OF h] by (simp add: httpsRedirectLocation_def Let_def)
  then show ?thesis
    by (simp add: redirect_response_def Let_def response_one_line_def new_response_def default_response_def clean_update)
qed

lemma memory_upload_clean:
  assumes "handleUploadRequest env req res sv = (Inr r, sv')" "response_one_line res"
  shows "response_one_line r"
  using assms(1) clean_parts [OF assms(2)] upload_response_clean [OF assms(2)] unfolding handleUploadRequest_def
  by (auto elim!: go_on_result split: if_splits option.splits prod.splits sum.splits)

lemma response_clean:
  assumes "makeResponse env raw tls m t sv = (Inr rp, sv')"
    and "one_line (cfg_staticCacheControl (sv_config sv))" "cache_ok n (sv_cache sv)"
  shows "response_one_line (rp_response rp)"
proof (cases "strict_parse raw (parse_limits (sv_config sv))")
  case (Inl x)
  with assms(1) strict_failure [OF Inl] clean_parts [OF new_response_clean] show ?thesis
    by (auto simp: makeResponse_def Let_def split: if_splits)
next
  case (Inr req)
  let ?res = "new_response tls sv"
  note a = assms(1) [unfolded makeResponse_def Let_def Inr sum.case go_on_answered]
  consider "rp_response rp = with_status 400 ''Bad Request'' ?res"
    | r where "answer_request env req tls ?res sv = (Inr r, sv')" "rp_response rp = r"
    using a by (cases "answer_request env req tls ?res sv"; cases "fst (answer_request env req tls ?res sv)")
      (auto split: if_splits)
  then show ?thesis
  proof cases
    case 1
    then show ?thesis by simp
  next
    case 2
    consider "response_one_line r" | "handleUploadRequest env req ?res sv = (Inr r, sv')"
      | "answer_file env req ?res sv = (Inr r, sv')"
      using 2(1) redirect_clean [OF Inr, of "sv_config sv" tls sv]
      by (auto simp: answer_request_def split: if_splits)
    then show ?thesis
      using file_clean [OF _ new_response_clean assms(2,3)] memory_upload_clean [OF _ new_response_clean] 2(2)
      by cases auto
  qed
qed

lemma client_clean:
  assumes "handleClientStream env s tls ip sv = (Inr rp, sv')"
    and "one_line (cfg_staticCacheControl (sv_config sv))" "cache_ok n (sv_cache sv)"
  shows "response_one_line (rp_response rp)"
  using assms(1)
proof (cases rule: client_cases)
  case malformed
  with headers_only_failure show ?thesis by simp
next
  case admin
  with admin_clean show ?thesis by (auto simp: map_sum_Inr)
next
  case upload
  with upload_clean show ?thesis by (auto simp: map_sum_Inr)
next
  case content
  with response_clean [OF _ assms(2,3)] show ?thesis by blast
qed simp

section \<open>The written bytes\<close>

text \<open>
  The first empty line of the bytes is the end of the header block, the announced Content-Length is the size of the
  body, and the rest of the bytes is exactly that body.
\<close>

definition well_framed :: "server_env \<Rightarrow> http_response \<Rightarrow> bool" where
  "well_framed env res \<longleftrightarrow>
     find_str (writeHttpResponse env res) crlf2 = Some (length (headersToString (en_order env) res) - 4) \<and>
     ''Content-Length: '' @ to_string (length (bodyData res)) \<in> set (headerLines (en_order env) res) \<and>
     list_all one_line (headerLines (en_order env) res) \<and>
     drop (length (headersToString (en_order env) res)) (writeHttpResponse env res) =
       (if rs_headOnly res then [] else bodyData res)"

lemma one_line_framed:
  assumes "iteration_order (en_order env)" "response_one_line res"
  shows "well_framed env res"
proof -
  have w: "writeHttpResponse env res = headersToString (en_order env) res @ (if rs_headOnly res then [] else bodyData res)"
    by (auto simp: writeHttpResponse_def bodySize_bodyData)
  show ?thesis
    using headersToString_end [OF assms] content_length_line headerLines_one_line [OF assms]
    by (simp add: well_framed_def w list_all_iff one_line_def)
qed

lemma client_framed:
  assumes "handleClientStream env s tls ip sv = (Inr rp, sv')" "iteration_order (en_order env)"
    and "one_line (cfg_staticCacheControl (sv_config sv))" "cache_ok n (sv_cache sv)"
  shows "well_framed env (rp_response rp)"
  using one_line_framed [OF assms(2) client_clean [OF assms(1,3,4)]] .

end
