(* ===== verification/ServerRuns.thy ===== *)
theory ServerRuns
  imports Framing
begin

text \<open>
  Whole connections and sequences of them: what is logged about a connection, what holds in every
  state of a server that was started from a configuration file, and how many requests of one
  client the rate limiter lets through.
\<close>

section \<open>One connection\<close>

lemma reject_eq:
  "reject_client env scheme tls ip sv =
     (let res = with_status 429 ''Too Many Requests'' (new_response tls sv); bytes = writeHttpResponse env res
      in if en_write_ok env then (Inr bytes, add_access (LogAccess ip scheme ''-'' ''-'' 429 (length bytes)) sv)
         else (Inl ''write'', sv))"
  by (simp add: reject_client_def send_def Let_def)

text \<open>
  The ways a connection ends: with an error before the limiter is asked, refused by it, served, or with an
  error after it.
\<close>

lemma connection_cases:
  assumes "handle_connection env conn sv = (out, sv')"
  obtains
    (unreached) e where "limiter_key env conn = None" "out = None" "sv' = add_log (LogError e) sv"
  | (refused) key sv1 ip scheme where "limiter_key env conn = Some key" "admit env key sv = (False, sv1)"
      "en_write_ok env" "out = Some (writeHttpResponse env (with_status 429 ''Too Many Requests'' (new_response (cn_tls conn) sv1)))"
      "sv' = add_access (LogAccess ip scheme ''-'' ''-'' 429 (length (the out))) sv1"
  | (served) key sv1 sv2 s ip scheme rp where "limiter_key env conn = Some key" "admit env key sv = (True, sv1)"
      "handleClientStream env s (cn_tls conn) ip sv1 = (Inr rp, sv2)" "en_write_ok env"
      "out = Some (writeHttpResponse env (rp_response rp))"
      "sv' = add_access (LogAccess ip scheme (rp_method rp) (rp_target rp) (rp_status rp) (length (the out))) sv2"
  | (broken) key ok sv1 sv2 s ip e where "limiter_key env conn = Some key" "admit env key sv = (ok, sv1)"
      "sv2 = (if ok then snd (handleClientStream env s (cn_tls conn) ip sv1) else sv1)"
      "out = None" "sv' = add_log (LogError e) sv2"
proof -
  define scheme where "scheme = (if cn_tls conn then ''https'' else ''http'')"
  show thesis
  proof (cases "limiter_key env conn")
    case None
    then have "\<exists>scheme ip e. handle_connection env conn sv = catch_error scheme ip (Inl e, sv)"
      by (cases "cn_ip conn")
        (auto simp: limiter_key_def handle_connection_def handleTlsClient_def handlePlainClient_def split: if_splits)
    then obtain e where "handle_connection env conn sv = (None, add_log (LogError e) sv)" by (auto simp: catch_error_def)
    with assms show thesis by (intro unreached [OF None, of e]) auto
  next
    case key: (Some key)
    then obtain ip where ip: "cn_ip conn = Some ip" and k: "key = scheme @ '':'' @ ip"
      by (auto simp: limiter_key_def scheme_def split: option.splits if_splits)
    obtain ok sv1 where ad: "admit env key sv = (ok, sv1)" by fastforce
    have h: "handle_connection env conn sv =
        catch_error scheme ip (if ok then serve_client env scheme (cn_tls conn) ip (cn_stream conn) sv1
          else reject_client env scheme (cn_tls conn) ip sv1)"
    proof -
      have "handle_connection env conn sv = catch_error scheme ip (client_session env scheme (cn_tls conn) ip (cn_stream conn) sv)"
        using key by (simp add: ip limiter_key_def scheme_def handle_connection_def handleTlsClient_def handlePlainClient_def
            split: if_splits)
      with ad [unfolded k] show ?thesis by (cases ok) (simp_all add: client_session_def)
    qed
    show thesis
    proof (cases ok)
      case False
      with ad have ad0: "admit env key sv = (False, sv1)" by simp
      show thesis
      proof (cases "en_write_ok env")
        case True
        with h False assms show thesis
          by (intro refused [OF key ad0 True, of ip scheme]) (auto simp: reject_eq Let_def catch_error_def)
      next
        case w: False
        with h False assms show thesis
          by (intro broken [OF key ad, of sv1]) (auto simp: reject_eq Let_def catch_error_def)
      qed
    next
      case True
      with ad have ad1: "admit env key sv = (True, sv1)" by simp
      show thesis
      proof (rule serve_cases [of env "cn_stream conn" "cn_tls conn" ip sv1 scheme])
        fix rp sv2
        assume r: "handleClientStream env (cn_stream conn) (cn_tls conn) ip sv1 = (Inr rp, sv2)" "en_write_ok env"
          "serve_client env scheme (cn_tls conn) ip (cn_stream conn) sv1 = (Inr (writeHttpResponse env (rp_response rp)),
             add_access (LogAccess ip scheme (rp_method rp) (rp_target rp) (rp_status rp)
               (length (writeHttpResponse env (rp_response rp)))) sv2)"
        with h True assms show thesis
          by (intro served [OF key ad1 r(1,2), of scheme]) (auto simp: catch_error_def)
      next
        fix e sv2
        assume "snd (handleClientStream env (cn_stream conn) (cn_tls conn) ip sv1) = sv2"
          "serve_client env scheme (cn_tls conn) ip (cn_stream conn) sv1 = (Inl e, sv2)"
        with h True assms show thesis
          by (intro broken [OF key ad, of sv2 "cn_stream conn" ip]) (auto simp: catch_error_def)
      qed
    qed
  qed
qed

lemma admit_frame:
  assumes "admit env key sv = (ok, sv1)"
  shows "sv1 = sv\<lparr>sv_limiter := sv_limiter sv1\<rparr>"
  using assms by (auto simp: admit_def split: if_splits prod.splits)

lemma limiter_update:
  assumes "sv1 = sv\<lparr>sv_limiter := l\<rparr>"
  shows "sv_config sv1 = sv_config sv" "sv_accesses sv1 = sv_accesses sv" "sv_log sv1 = sv_log sv" "sv_auth sv1 = sv_auth sv"
    "sv_cache sv1 = sv_cache sv" "sv_pool sv1 = sv_pool sv" "sv_uploads sv1 = sv_uploads sv" "sv_limiter sv1 = l"
  by (simp_all add: assms)

lemma client_accesses:
  "handleClientStream env s tls ip sv = (r, sv') \<Longrightarrow> sv_accesses sv' = sv_accesses sv \<and> prefix (sv_log sv) (sv_log sv')"
  using client_touches [of env sv s tls ip] by (simp add: touches_def same_parts_def)

lemma written_status: "prefix (''HTTP/1.1 '' @ to_string_int (rs_status res) @ '' '') (writeHttpResponse env res)"
  by (simp add: writeHttpResponse_def headersToString_def headerLines_def)

lemma reply_status:
  assumes "handleClientStream env s tls ip sv = (Inr rp, sv')"
  shows "rp_status rp = rs_status (rp_response rp)"
  using assms
proof (cases rule: client_cases)
  case content
  then show ?thesis
    by (auto simp: makeResponse_def Let_def go_on_answered map_sum_Inr eq_commute [of "map_sum _ _ _"]
        split: if_splits sum.splits)
qed (auto simp: map_sum_Inr)


section \<open>Sequences of connections\<close>

text \<open>A connection is accepted, or a worker handles one, which sees the environment of that moment.\<close>

datatype server_event = Accepted connection | Handled server_env connection

fun apply_event :: "server_event \<Rightarrow> server \<Rightarrow> server" where
  "apply_event (Accepted conn) sv = accept_connection conn sv"
| "apply_event (Handled env conn) sv = snd (handle_connection env conn sv)"

definition run_server :: "server_event list \<Rightarrow> server \<Rightarrow> server" where
  "run_server events sv = fold apply_event events sv"

text \<open>A condition on the environments of the handlers.\<close>

fun event_env :: "(server_env \<Rightarrow> bool) \<Rightarrow> server_event \<Rightarrow> bool" where
  "event_env ok (Accepted conn) = True"
| "event_env ok (Handled env conn) = ok env"

abbreviation event_hash :: "(string \<Rightarrow> nat) \<Rightarrow> server_event \<Rightarrow> bool" where
  "event_hash hash \<equiv> event_env (\<lambda>env. en_hash env = hash)"

text \<open>
  The contract between the handlers and what is to hold in every state of a running server: a property of the state, which
  may count the events, that only depends on the configuration, the token store, the cache and the
  queue, survives whatever a handler may do to the first three and a connection that is queued.
\<close>

locale kept_by_handlers =
  fixes ok :: "server_env \<Rightarrow> bool" and inv :: "nat \<Rightarrow> server \<Rightarrow> bool"
  assumes later: "inv n sv \<Longrightarrow> inv (Suc n) sv"
    and parts: "inv n sv \<Longrightarrow> sv_config sv' = sv_config sv \<Longrightarrow> sv_auth sv' = sv_auth sv \<Longrightarrow> sv_cache sv' = sv_cache sv \<Longrightarrow>
      sv_pool sv' = sv_pool sv \<Longrightarrow> inv n sv'"
    and handler: "inv n sv \<Longrightarrow> ok env \<Longrightarrow> touches env a c u sv sv' \<Longrightarrow> inv (Suc n) sv'"
    and queued: "inv n sv \<Longrightarrow> inv n (accept_connection conn sv)"
begin

lemma admitted: "inv n sv \<Longrightarrow> admit env key sv = (admitted, sv1) \<Longrightarrow> inv n sv1"
  by (rule parts) (simp_all add: limiter_update [OF admit_frame])

lemma client: "inv n sv \<Longrightarrow> ok env \<Longrightarrow> inv (Suc n) (snd (handleClientStream env s tls ip sv))"
  by (rule handler [OF _ _ client_touches])

lemma connection:
  assumes "inv n sv" "ok env" "handle_connection env conn sv = (out, sv')"
  shows "inv (Suc n) sv'"
  using assms(3)
proof (cases rule: connection_cases)
  case (unreached e)
  then show ?thesis using parts [OF later [OF assms(1)]] by simp
next
  case (refused key sv1)
  then show ?thesis using parts [OF later [OF admitted [OF assms(1) refused(2)]], of sv'] by (simp add: add_access_def)
next
  case (served key sv1 sv2 s ip)
  then show ?thesis
    using parts [OF client [OF admitted [OF assms(1) served(2)] assms(2), of s "cn_tls conn" ip], of sv'] by (simp add: add_access_def)
next
  case (broken key admitted' sv1 sv2 s ip)
  then have "inv (Suc n) sv2"
    using client [OF admitted [OF assms(1) broken(2)] assms(2), of s "cn_tls conn" ip] later [OF admitted [OF assms(1) broken(2)]]
    by (cases admitted') auto
  with broken(5) show ?thesis using parts by simp
qed

lemma event: "inv n sv \<Longrightarrow> event_env ok e \<Longrightarrow> inv (Suc n) (apply_event e sv)"
  by (cases e) (auto intro: later [OF queued] connection [OF _ _ prod.collapse [symmetric]])

lemma run: "inv n sv \<Longrightarrow> list_all (event_env ok) events \<Longrightarrow> inv (n + length events) (run_server events sv)"
proof (induction events arbitrary: n sv)
  case (Cons e events)
  with Cons.IH [OF event [of n sv e]] show ?case by (simp add: run_server_def)
qed (simp add: run_server_def)

end

text \<open>The cache of a server after \<open>n\<close> events, and its whole state.\<close>

definition cache_inv :: "(string \<Rightarrow> nat) \<Rightarrow> nat \<Rightarrow> server_config \<Rightarrow> server \<Rightarrow> bool" where
  "cache_inv hash n c sv \<longleftrightarrow> sv_config sv = c \<and> (\<exists>m \<le> 3 * n. cache_run hash m (sv_cache sv))"

definition server_inv :: "(string \<Rightarrow> nat) \<Rightarrow> nat \<Rightarrow> server_config \<Rightarrow> server \<Rightarrow> bool" where
  "server_inv hash n c sv \<longleftrightarrow>
     cache_inv hash n c sv \<and> server_sound sv \<and>
     length (tp_tasks (sv_pool sv)) \<le> tp_maxQueueSize (sv_pool sv) \<and>
     tp_maxQueueSize (sv_pool sv) = cfg_maxPendingConnections c"

lemma cache_get_run:
  assumes "cache_run hash n c" "cache_get hash fs path now c = (r, c')"
  shows "\<exists>m \<le> n + 3. cache_run hash m c'"
proof -
  obtain r1 c1 where l: "cache_lookup hash path now c = (r1, c1)" by fastforce
  note s1 = cache_run.lookup [OF assms(1) l]
  show ?thesis
  proof (cases "r1 = None \<and> fs_size fs path \<noteq> None")
    case False
    with l assms(2) have "c' = c1" by (auto simp: cache_get_def split: option.splits)
    with s1 show ?thesis by (intro exI [of _ "Suc n"]) simp
  next
    case True
    then obtain sz where sz: "fs_size fs path = Some sz" by blast
    obtain r2 c2 where v: "cache_revalidate hash path now sz (modified_time fs path) c1 = (r2, c2)" by fastforce
    note s2 = cache_run.revalidate [OF s1 v]
    show ?thesis
    proof (cases r2)
      case (Some f)
      with l v sz True assms(2) have "c' = c2" by (simp add: cache_get_def)
      with s2 show ?thesis by (intro exI [of _ "Suc (Suc n)"]) simp
    next
      case None
      with l v sz True assms(2) have "cache_load hash fs path now sz c2 = (r, c')" by (simp add: cache_get_def)
      from cache_run.load [OF s2 this] show ?thesis by (intro exI [of _ "Suc (Suc (Suc n))"]) simp
    qed
  qed
qed

lemma refresh_inline:
  assumes "reachable_store st" "refresh force fs now epoch st = (r, st')"
  shows "reachable_store st' \<and> as_inlineTokens st' = as_inlineTokens st"
  using reachable_store.step [OF assms] refresh_outcome [OF reachable_ok [OF assms(1)] assms(2)]
  by (auto simp: same_tokens_def read_tokens_def revoked_tokens_def)

text \<open>What these conditions look at, and what a handler may do to it.\<close>

lemma cache_inv_mono: "cache_inv hash n c sv \<Longrightarrow> n \<le> m \<Longrightarrow> cache_inv hash m c sv"
  unfolding cache_inv_def by (meson le_trans mult_le_mono2)

lemma cache_inv_ok: "cache_inv hash n c sv \<Longrightarrow> 3 * n < 2 ^ 64 - 1 \<Longrightarrow> \<exists>m. cache_ok m (sv_cache sv)"
  unfolding cache_inv_def by (meson cache_run_ok le_less_trans)

lemma touches_cache:
  assumes "touches env a c u sv sv'" "cache_inv (en_hash env) n conf sv"
  shows "cache_inv (en_hash env) (Suc n) conf sv'"
proof -
  obtain m where m: "m \<le> 3 * n" "cache_run (en_hash env) m (sv_cache sv)" using assms(2) by (auto simp: cache_inv_def)
  have "\<exists>k \<le> m + 3. cache_run (en_hash env) k (sv_cache sv')"
    using assms(1) cache_get_run [OF m(2)] m(2) unfolding touches_def by (metis le_add1)
  moreover have "m + 3 \<le> 3 * Suc n" using m(1) by simp
  ultimately have "\<exists>k \<le> 3 * Suc n. cache_run (en_hash env) k (sv_cache sv')" by (meson le_trans)
  with assms show ?thesis by (simp add: cache_inv_def touches_def same_parts_def)
qed

interpretation cached: kept_by_handlers "\<lambda>env. en_hash env = hash" "\<lambda>n. cache_inv hash n c" for hash c
proof
  show "cache_inv hash n c sv \<Longrightarrow> cache_inv hash (Suc n) c sv" for n sv by (erule cache_inv_mono) simp
  show "cache_inv hash n c sv \<Longrightarrow> en_hash env = hash \<Longrightarrow> touches env a k u sv sv' \<Longrightarrow> cache_inv hash (Suc n) c sv'"
    for n sv env a k u sv' using touches_cache by blast
qed (auto simp: accept_connection_def enqueue_def cache_inv_def)

lemma touches_inv:
  assumes "touches env a c u sv sv'" "server_inv (en_hash env) n conf sv"
  shows "server_inv (en_hash env) (Suc n) conf sv'"
proof -
  have same: "sv_config sv' = sv_config sv" "sv_pool sv' = sv_pool sv" using assms(1) by (simp_all add: touches_def same_parts_def)
  have auth: "reachable_store (sv_auth sv') \<and> as_inlineTokens (sv_auth sv') = as_inlineTokens (sv_auth sv)"
    using assms refresh_inline [of "sv_auth sv"] unfolding touches_def server_inv_def server_sound_def by metis
  show ?thesis using assms(2) same auth touches_cache [OF assms(1)] by (auto simp: server_inv_def server_sound_def)
qed

interpretation invariant: kept_by_handlers "\<lambda>env. en_hash env = hash" "\<lambda>n. server_inv hash n c" for hash c
proof
  show "server_inv hash n c sv \<Longrightarrow> server_inv hash (Suc n) c sv" for n sv by (simp add: server_inv_def cached.later)
  show "server_inv hash n c sv \<Longrightarrow> en_hash env = hash \<Longrightarrow> touches env a k u sv sv' \<Longrightarrow> server_inv hash (Suc n) c sv'"
    for n sv env a k u sv' using touches_inv by blast
  show "server_inv hash n c sv \<Longrightarrow> server_inv hash n c (accept_connection conn sv)" for n sv conn
    by (auto simp: accept_connection_def enqueue_def server_inv_def server_sound_def cache_inv_def)
qed (auto simp: server_inv_def server_sound_def cache_inv_def)

lemma run_inv:
  "server_inv hash n c sv \<Longrightarrow> list_all (event_hash hash) events \<Longrightarrow> server_inv hash (n + length events) c (run_server events sv)"
  by (rule invariant.run)

text \<open>While the files stay as they are, the cache holds what is in them.\<close>

definition site_inv :: "file_system \<Rightarrow> server_config \<Rightarrow> server \<Rightarrow> bool" where
  "site_inv fs c sv \<longleftrightarrow> sv_config sv = c \<and> cache_current fs (sv_cache sv)"

lemma touches_site: "touches env a k u sv sv' \<Longrightarrow> site_inv (en_fs env) c sv \<Longrightarrow> site_inv (en_fs env) c sv'"
  by (auto simp: site_inv_def touches_def same_parts_def dest: get_current)

interpretation site: kept_by_handlers "\<lambda>env. en_fs env = fs" "\<lambda>n. site_inv fs c" for fs c
proof
  show "site_inv fs c sv \<Longrightarrow> en_fs env = fs \<Longrightarrow> touches env a k u sv sv' \<Longrightarrow> site_inv fs c sv'" for sv env a k u sv'
    using touches_site by blast
qed (auto simp: accept_connection_def enqueue_def site_inv_def)

lemma make_server_parts:
  assumes "make_server env config = Inr sv"
  obtains auth workers root where
    "make_store (cfg_authTokens config) (cfg_authSecretsFile config) (cfg_authHotReload config)
      (cfg_authReloadIntervalSeconds config) (en_fs env) (en_steady env) (en_epoch env) = Inr auth"
    "make_pool (cfg_workerThreads config) (cfg_maxPendingConnections config) = Inr workers"
    "sv_auth sv = auth" "sv_pool sv = workers"
    "sv_config sv = config\<lparr>cfg_defaultRoot := root,
       cfg_virtualHosts := (\<lambda>host. Option.bind (cfg_virtualHosts config host) (fs_weakly_canonical (en_fs env)))\<rparr>"
    "sv_cache sv = make_cache (cfg_enableStaticCache config) (cfg_staticCacheShards config)
       (cfg_staticCacheMaxEntries config) (cfg_staticCacheMaxBytes config)
       (cfg_staticCacheMaxFileBytes config) (cfg_staticCacheRevalidateMs config)"
    "sv_limiter sv = make_limiter (cfg_rateLimitPerMinute config) (cfg_rateLimiterShards config)"
proof -
  have "\<exists>auth workers root. make_store (cfg_authTokens config) (cfg_authSecretsFile config) (cfg_authHotReload config)
      (cfg_authReloadIntervalSeconds config) (en_fs env) (en_steady env) (en_epoch env) = Inr auth \<and>
    make_pool (cfg_workerThreads config) (cfg_maxPendingConnections config) = Inr workers \<and>
    (if \<not> hosts_resolve env config then Inl ''filesystem error: cannot make canonical path''
     else Inr \<lparr>sv_config = config\<lparr>cfg_defaultRoot := root,
                   cfg_virtualHosts := (\<lambda>host. Option.bind (cfg_virtualHosts config host) (fs_weakly_canonical (en_fs env)))\<rparr>,
                 sv_auth = auth,
                 sv_limiter = make_limiter (cfg_rateLimitPerMinute config) (cfg_rateLimiterShards config),
                 sv_pool = workers,
                 sv_cache = make_cache (cfg_enableStaticCache config) (cfg_staticCacheShards config)
                   (cfg_staticCacheMaxEntries config) (cfg_staticCacheMaxBytes config)
                   (cfg_staticCacheMaxFileBytes config) (cfg_staticCacheRevalidateMs config),
                 sv_uploads = \<lparr>us_store = Map.empty, us_ticks = 0\<rparr>, sv_log = [], sv_accesses = [],
                 sv_startedAt = en_steady env\<rparr>) = Inr sv"
    using assms unfolding make_server_def and_then_eq_Inr by blast
  then show thesis
    by (elim exE conjE) (rule that; (assumption | simp split: if_split_asm)?; auto split: if_split_asm)
qed

lemma start_inv:
  assumes "config_load m path = Inr config" "make_server env config = Inr sv"
    and "list_all representable (cfg_authTokens config)" "length (cfg_authBearerToken config) < 2 ^ 64"
  shows "server_inv (en_hash env) 0 (sv_config sv) sv" "cfg_maxPendingConnections (sv_config sv) = cfg_maxPendingConnections config"
proof -
  obtain auth workers root where auth: "make_store (cfg_authTokens config) (cfg_authSecretsFile config) (cfg_authHotReload config)
      (cfg_authReloadIntervalSeconds config) (en_fs env) (en_steady env) (en_epoch env) = Inr auth"
    and w: "make_pool (cfg_workerThreads config) (cfg_maxPendingConnections config) = Inr workers"
    and sv: "sv_auth sv = auth" "sv_pool sv = workers"
      "sv_config sv = config\<lparr>cfg_defaultRoot := root,
         cfg_virtualHosts := (\<lambda>host. Option.bind (cfg_virtualHosts config host) (fs_weakly_canonical (en_fs env)))\<rparr>"
      "sv_cache sv = make_cache (cfg_enableStaticCache config) (cfg_staticCacheShards config)
         (cfg_staticCacheMaxEntries config) (cfg_staticCacheMaxBytes config)
         (cfg_staticCacheMaxFileBytes config) (cfg_staticCacheRevalidateMs config)"
    by (rule make_server_parts [OF assms(2)])
  have c: "config_ok (sv_config sv)" "config_typed (sv_config sv)"
    using config_load_ok [OF assms(1)] config_load_types [OF assms(1)]
    unfolding sv(3) by (simp_all add: config_ok_def config_typed_def)
  have st: "reachable_store auth" "as_inlineTokens auth = cfg_authTokens config"
    using reachable_store.start [OF auth] make_store_cases [OF auth] by auto
  have "\<exists>m \<le> 3 * 0. cache_run (en_hash env) m (sv_cache sv)" by (simp add: sv(4) cache_run.new)
  moreover have "tp_tasks workers = []" "tp_maxQueueSize workers = cfg_maxPendingConnections config"
    using w by (auto simp: make_pool_def split: if_splits)
  ultimately show "server_inv (en_hash env) 0 (sv_config sv) sv"
    "cfg_maxPendingConnections (sv_config sv) = cfg_maxPendingConnections config"
    using c st assms(3,4) sv by (simp_all add: server_inv_def server_sound_def cache_inv_def)
qed


section \<open>The rate limit of a client\<close>

text \<open>The calls of the limiter that a sequence of connections makes, and what they return.\<close>

fun limiter_calls :: "(server_env \<times> connection) list \<Rightarrow> (string \<times> int) list" where
  "limiter_calls [] = []"
| "limiter_calls ((env, conn) # cs) =
     (case limiter_key env conn of None \<Rightarrow> limiter_calls cs | Some key \<Rightarrow> (key, en_steady env) # limiter_calls cs)"

fun admissions :: "(server_env \<times> connection) list \<Rightarrow> server \<Rightarrow> bool list" where
  "admissions [] sv = []"
| "admissions ((env, conn) # cs) sv =
     (let later = admissions cs (snd (handle_connection env conn sv))
      in (case limiter_key env conn of None \<Rightarrow> later | Some key \<Rightarrow> fst (admit env key sv) # later))"

lemma connection_limiter:
  "sv_config (snd (handle_connection env conn sv)) = sv_config sv \<and>
   sv_limiter (snd (handle_connection env conn sv)) =
     (case limiter_key env conn of None \<Rightarrow> sv_limiter sv | Some key \<Rightarrow> sv_limiter (snd (admit env key sv)))"
proof -
  obtain out sv' where h: "handle_connection env conn sv = (out, sv')" by fastforce
  have client: "sv_config sv2 = sv_config sv \<and> sv_limiter sv2 = sv_limiter sv1"
    if "admit env key sv = (ok, sv1)" "sv2 = snd (handleClientStream env s tls ip sv1)" for key ok sv1 sv2 s tls ip
    using client_touches [of env sv1 s tls ip] limiter_update(1) [OF admit_frame [OF that(1)]] that(2)
    by (simp add: touches_def same_parts_def)
  from h show ?thesis
  proof (cases rule: connection_cases)
    case (refused key sv1)
    with h limiter_update(1) [OF admit_frame [OF refused(2)]] show ?thesis by (simp add: add_access_def)
  next
    case (served key sv1 sv2 s ip)
    with h client [OF served(2), of sv2 s "cn_tls conn" ip] show ?thesis by (simp add: add_access_def)
  next
    case (broken key ok sv1 sv2 s ip)
    with h client [OF broken(2), of sv2 s "cn_tls conn" ip] limiter_update(1) [OF admit_frame [OF broken(2)]]
    show ?thesis by (cases ok) simp_all
  qed (use h in simp)
qed

lemma admissions_limiter:
  assumes "cfg_enableRateLimiter (sv_config sv)" "list_all (\<lambda>(env, conn). en_hash env = hash) cs"
  shows "admissions cs sv = run_limiter hash (sv_limiter sv) (limiter_calls cs)"
  using assms
proof (induction cs arbitrary: sv)
  case (Cons x cs)
  obtain env conn where x: "x = (env, conn)" by (cases x)
  let ?sv' = "snd (handle_connection env conn sv)"
  from Cons.prems x have "en_hash env = hash" "list_all (\<lambda>(env, conn). en_hash env = hash) cs" by auto
  with Cons.IH [of ?sv'] Cons.prems(1) connection_limiter [of env conn sv]
  show ?case by (auto simp: x admit_def split: option.splits prod.splits)
qed simp

text \<open>
  C10: with the rate limiter enabled no address gets more than twice the configured number of its connections
  past the limiter in any 60 seconds, plain and TLS connections counted apart, whatever other clients do in
  between and however the requests are answered.
\<close>

theorem client_minute_bound:
  assumes "make_server env config = Inr sv" "cfg_enableRateLimiter config"
    and "list_all (\<lambda>(env, conn). en_hash env = hash) clients" "call_times 1 (limiter_calls clients)"
  shows "allowed_count key t (limiter_calls clients) (admissions clients sv) \<le> 2 * cfg_rateLimitPerMinute config"
proof -
  have sv: "cfg_enableRateLimiter (sv_config sv)"
    "sv_limiter sv = make_limiter (cfg_rateLimitPerMinute config) (cfg_rateLimiterShards config)"
    by (rule make_server_parts [OF assms(1)]; simp add: assms(2))+
  show ?thesis
    using limiter.minute_bound [OF assms(4), of key t hash] by (simp add: admissions_limiter [OF sv(1) assms(3)] sv(2))
qed

text \<open>A client that is refused gets the 429 response and nothing it sent is looked at.\<close>

lemma refused_connection:
  assumes "limiter_key env conn = Some key" "admit env key sv = (False, sv1)" "handle_connection env conn sv = (out, sv')"
  shows "out \<in> {None, Some (writeHttpResponse env (with_status 429 ''Too Many Requests'' (new_response (cn_tls conn) sv1)))} \<and>
    sv_cache sv' = sv_cache sv \<and> sv_uploads sv' = sv_uploads sv \<and> sv_auth sv' = sv_auth sv"
  using assms(3)
proof (cases rule: connection_cases)
  case (unreached e)
  with assms(1) show ?thesis by simp
next
  case (refused k sv2 ip scheme)
  then have "sv2 = sv1" using assms(1,2) by simp
  with refused(4,5) limiter_update(4,5,7) [OF admit_frame [OF assms(2)]] show ?thesis by (simp add: add_access_def)
next
  case (served k sv2)
  with assms(1,2) show ?thesis by simp
next
  case (broken k ok sv2 sv3 s ip e)
  then have "sv3 = sv1" using assms(1,2) by simp
  with broken(4,5) limiter_update(4,5,7) [OF admit_frame [OF assms(2)]] show ?thesis by simp
qed


section \<open>The bytes of a response\<close>

text \<open>A configuration file is read line by line, so no setting of it holds a line feed.\<close>

lemma one_line_result: "Inr x = Inr c \<Longrightarrow> one_line (cfg_staticCacheControl x) \<Longrightarrow> one_line (cfg_staticCacheControl c)"
  by simp

lemma apply_setting_line:
  assumes "one_line (cfg_staticCacheControl c)" "one_line val" "apply_setting key val c = Inr c'"
  shows "one_line (cfg_staticCacheControl c')"
proof -
  have "apply_setting key val c = Inr c' \<Longrightarrow> one_line (cfg_staticCacheControl c')"
    unfolding apply_setting_def
    by (elim if_result and_then_result; erule one_line_result; simp add: assms(1,2))
  then show ?thesis using assms(3) .
qed

lemma apply_line_line:
  assumes "one_line (cfg_staticCacheControl c)" "one_line l" "apply_config_line l c = Inr c'"
  shows "one_line (cfg_staticCacheControl c')"
proof -
  have cut: "one_line (cfg_trim s)" "one_line (substr s i n)" "one_line (drop k s)" if "one_line s" for s i n k
    using that set_strip by (auto simp: one_line_def cfg_trim_def substr_def dest: in_set_takeD in_set_dropD)
  define line where "line = cfg_trim (case find_char l CHR ''#'' of None \<Rightarrow> l | Some comment \<Rightarrow> substr l 0 comment)"
  have line: "one_line line" using cut assms(2) by (simp add: line_def split: option.split)
  have "c' = c \<or> (\<exists>eq. apply_setting (cfg_trim (substr line 0 eq)) (cfg_trim (drop (eq + 1) line)) c = Inr c')"
    using assms(3) unfolding apply_config_line_def Let_def line_def [symmetric] by (auto split: if_splits option.splits)
  then show ?thesis using assms(1) apply_setting_line [OF assms(1) cut(1) [OF cut(3) [OF line]]] by blast
qed

lemma apply_lines_line:
  "one_line (cfg_staticCacheControl c) \<Longrightarrow> list_all one_line ls \<Longrightarrow> apply_config_lines ls c = Inr c' \<Longrightarrow>
    one_line (cfg_staticCacheControl c')"
  by (induction ls arbitrary: c) (auto elim!: and_then_result intro: apply_line_line)

lemma loaded_cache_control: "config_load m path = Inr c \<Longrightarrow> one_line (cfg_staticCacheControl c)"
proof (erule config_load_result)
  fix content c0 c1
  assume l: "apply_config_lines (all_lines_delim LF content) default_config = Inr c0"
    and c: "c1 = resolve_paths (parent_path (absolute_path (mc_cwd m) path)) c0" "c = default_workers (mc_hardware m) c1"
  have "list_all one_line (all_lines_delim LF content)" using all_lines_no_delim by (fastforce simp: list_all_iff one_line_def)
  from apply_lines_line [OF _ this l] have "one_line (cfg_staticCacheControl c0)" by (simp add: default_config_def one_line_def)
  then show ?thesis by (simp add: c default_workers_def resolve_paths_def)
qed


section \<open>The theorems at concrete connections\<close>



theorem client_minute_bound_witness:
  "allowed_count ''http:10.0.0.1'' 0 [(''http:10.0.0.1'', 1000000000), (''http:10.0.0.1'', 1000000000)]
     (admissions [(site_env, site_client), (site_env, site_client)] site_server) \<le> 240"
proof -
  let ?cs = "[(site_env, site_client), (site_env, site_client)]"
  have calls: "limiter_calls ?cs = [(''http:10.0.0.1'', 1000000000), (''http:10.0.0.1'', 1000000000)]"
    by (simp add: limiter_key_def site_client_def site_env_def)
  have times: "call_times 1 (limiter_calls ?cs)" unfolding calls by simp
  have "cfg_enableRateLimiter site_config" "list_all (\<lambda>(env, conn). en_hash env = length) ?cs"
    by (simp_all add: site_config_def default_config_def site_env_def)
  from client_minute_bound [OF site_started this times, of "''http:10.0.0.1''" 0] show ?thesis
    unfolding calls by (simp add: site_config_def default_config_def)
qed

definition loaded_workers :: "connection pool" where
  "loaded_workers = projr (make_pool 8 4096)"

definition loaded_server :: server where
  "loaded_server =
     \<lparr>sv_config = example_config\<lparr>cfg_defaultRoot := projr (weakly_canonical example_fs (cfg_defaultRoot example_config)),
         cfg_virtualHosts := (\<lambda>host. None)\<rparr>,
      sv_auth = site_auth,
      sv_limiter = make_limiter (cfg_rateLimitPerMinute example_config) (cfg_rateLimiterShards example_config),
      sv_pool = loaded_workers,
      sv_cache = make_cache (cfg_enableStaticCache example_config) (cfg_staticCacheShards example_config)
        (cfg_staticCacheMaxEntries example_config) (cfg_staticCacheMaxBytes example_config)
        (cfg_staticCacheMaxFileBytes example_config) (cfg_staticCacheRevalidateMs example_config),
      sv_uploads = \<lparr>us_store = Map.empty, us_ticks = 0\<rparr>, sv_log = [], sv_accesses = [], sv_startedAt = 1000000000\<rparr>"

lemma loaded_started: "make_server site_env example_config = Inr loaded_server"
proof -
  have c: "cfg_authTokens example_config = []" "cfg_authSecretsFile example_config = []" "cfg_authHotReload example_config"
    "cfg_authReloadIntervalSeconds example_config = 0" "cfg_workerThreads example_config = 8"
    "cfg_maxPendingConnections example_config = 4096" "cfg_virtualHosts example_config = Map.empty"
    by (auto simp: example_config_def default_workers_def resolve_paths_def resolvePath_def default_config_def)
  have p: "make_pool 8 4096 = Inr loaded_workers" by (simp add: make_pool_def loaded_workers_def)
  obtain root where r: "weakly_canonical example_fs (cfg_defaultRoot example_config) = Inr root"
    by (simp add: weakly_canonical_def example_fs_def lexical_canonical_def)
  show ?thesis
    unfolding make_server_def c
    by (simp add: site_env_def site_store p r hosts_resolve_def c loaded_server_def)
qed

definition put_client :: connection where
  "put_client = \<lparr>cn_tls = False, cn_ip = Some ''10.0.0.2'', cn_stream = [Chunk (''PUT / HTTP/1.1'' @ crlf @ ''Host: x'' @ crlf2)]\<rparr>"

lemma put_answer:
  "\<exists>rp sv'. handleClientStream site_env (cn_stream put_client) False ''10.0.0.2''
      (run_server [Accepted put_client, Handled site_env put_client] loaded_server) = (Inr rp, sv') \<and>
     rs_status (rp_response rp) = 405"
proof -
  have "(case handleClientStream site_env (cn_stream put_client) False ''10.0.0.2''
      (run_server [Accepted put_client, Handled site_env put_client] loaded_server) of
      (Inr rp, sv) \<Rightarrow> rs_status (rp_response rp) | _ \<Rightarrow> 0) = 405"
    by code_simp
  then show ?thesis by (auto split: prod.splits sum.splits)
qed



end
