(* ===== verification/AuditTrail.thy ===== *)
theory AuditTrail
  imports Endpoints
begin

text \<open>
  The audit trail of the protected endpoints: every request that reaches the decision on its bearer token
  leaves one line about it, which is the last thing that is logged for the request.
\<close>

section \<open>The line\<close>

definition endpoint_event :: "string \<Rightarrow> string \<Rightarrow> string \<Rightarrow> string \<Rightarrow> string \<Rightarrow> int \<Rightarrow> log_call" where
  "endpoint_event event clientIp target scope token status =
     LogAudit (''event='' @ event @ '' ip='' @ clientIp @ '' target='' @ [DQUOTE] @ target @ [DQUOTE] @
       '' required_scope='' @ scope @ '' token='' @ [DQUOTE] @ token @ [DQUOTE] @ '' status='' @ to_string_int status)"

lemma audit_event_log [simp]:
  "sv_log (auditEndpointEvent event ip t scope token st sv) = sv_log sv @ [endpoint_event event ip t scope token st]"
  by (simp add: auditEndpointEvent_def endpoint_event_def)

text \<open>What is logged about a decision: the event with its status, and the name of the token.\<close>

fun decision_event :: "auth_decision_code \<Rightarrow> string \<times> int" where
  "decision_event Missing = (''auth_missing'', 401)"
| "decision_event InsufficientScope = (''auth_scope_denied'', 403)"
| "decision_event Expired = (''auth_expired'', 401)"
| "decision_event Invalid = (''auth_invalid'', 401)"
| "decision_event Allowed = (''auth_allowed'', 200)"

definition decision_token :: "auth_decision \<Rightarrow> string" where
  "decision_token d =
     (case ad_code d of Missing \<Rightarrow> ''-'' | Invalid \<Rightarrow> ''unknown'' | _ \<Rightarrow> ad_tokenName d)"

definition decision_line :: "string \<Rightarrow> string \<Rightarrow> string \<Rightarrow> auth_decision \<Rightarrow> log_call" where
  "decision_line clientIp target scope d =
     endpoint_event (fst (decision_event (ad_code d))) clientIp target scope (decision_token d) (snd (decision_event (ad_code d)))"

text \<open>The requests of the two endpoints that get to the decision, with the scope they need.\<close>

definition endpoint_scope :: "server_config \<Rightarrow> http_request \<Rightarrow> string option" where
  "endpoint_scope c req =
     (if rq_target req = cfg_adminStatusEndpoint c
      then (if cfg_enableAdminStatus c \<and> rq_method req = ''GET'' then Some ''admin'' else None)
      else if rq_target req = cfg_uploadEndpoint c
      then (if cfg_enableUploads c \<and> rq_method req = ''POST'' then Some ''upload'' else None)
      else None)"

section \<open>What the handlers log\<close>

lemma log_reload_log: "\<exists>more. sv_log (log_reload r sv) = sv_log sv @ more \<and> length more \<le> 2"
  by (cases "rr_code r") (auto simp: log_reload_def Let_def)

lemma authorize_log:
  assumes "authorizeEndpoint env req scope sv = (r, sv')"
  shows "case r of Inl e \<Rightarrow> sv_log sv' = sv_log sv | Inr d \<Rightarrow> \<exists>more. sv_log sv' = sv_log sv @ more \<and> length more \<le> 2"
proof (cases "cfg_enableEndpointAuth (sv_config sv)")
  case False
  with assms show ?thesis by (auto simp: authorizeEndpoint_def)
next
  case True
  obtain q st' where q: "store_authorize (header_or_empty req ''authorization'') (cfg_authBearerToken (sv_config sv)) scope
      (en_epoch env) (en_fs env) (en_steady env) (en_epoch env) (sv_auth sv) = (q, st')" by fastforce
  show ?thesis
  proof (cases q)
    case (Inl m)
    with assms True q show ?thesis by (auto simp: authorizeEndpoint_def)
  next
    case (Inr x)
    obtain d reload where x: "x = (d, reload)" by (cases x)
    with assms True q Inr have "r = Inr d" "sv' = log_reload reload (sv\<lparr>sv_auth := st'\<rparr>)"
      by (auto simp: authorizeEndpoint_def)
    with log_reload_log [of reload "sv\<lparr>sv_auth := st'\<rparr>"] show ?thesis by simp
  qed
qed

lemma refuse_log:
  assumes "refuse_endpoint tls ip t scope d sv = (res, sv')" "ad_code d \<noteq> Allowed"
  shows "sv_log sv' = sv_log sv @ [decision_line ip t scope d]" "rs_status res = snd (decision_event (ad_code d))"
    "sv_uploads sv' = sv_uploads sv"
  using assms unfolding refuse_endpoint_def decision_line_def decision_token_def
  by (cases "ad_code d"; auto simp: unauthorizedResponse_def forbiddenResponse_def with_status_def Let_def)+

lemma remove_spool_log: "sv_log (snd (go_on (remove_spool env p sv) (\<lambda>u sv1. (r, sv1)))) = sv_log sv"
  by (simp add: remove_spool_def)

lemma spool_upload_log: "sv_log (snd (spool_upload env headers s n ct p res sv)) = sv_log sv"
  unfolding spool_upload_def Let_def
  by (simp add: write_spool_def remove_spool_log split: prod.split sum.split option.split)

lemma receive_log: "sv_log (snd (receive_upload env headers s n ct p res sv)) = sv_log sv"
  using spool_upload_log [of env headers s n ct p res sv]
  by (auto simp: receive_upload_def remove_spool_log split: prod.split sum.split)

section \<open>Both endpoints\<close>

text \<open>What an endpoint does behind its first checks: the decision, and then an answer that logs nothing more.\<close>

lemma decided:
  assumes "go_on (authorizeEndpoint env req scope sv) (\<lambda>d sv1.
        if ad_code d \<noteq> Allowed
        then (case refuse_endpoint tls ip (rq_target req) scope d sv1 of (res, sv2) \<Rightarrow> (Inr res, sv2))
        else answer (auditEndpointEvent ''auth_allowed'' ip (rq_target req) scope (ad_tokenName d) 200 sv1)) = (r, sv')"
    and "\<And>sv1. sv_log (snd (answer sv1)) = sv_log sv1"
  obtains (failed) e where "r = Inl e" "sv_log sv' = sv_log sv" "sv_uploads sv' = sv_uploads sv"
  | (decided) d more sv1 where "authorizeEndpoint env req scope sv = (Inr d, sv1)" "length more \<le> 2"
      "sv_log sv' = sv_log sv @ more @ [decision_line ip (rq_target req) scope d]"
      "ad_code d \<noteq> Allowed \<Longrightarrow> sv_uploads sv' = sv_uploads sv \<and> (\<exists>res. r = Inr res \<and> rs_status res = snd (decision_event (ad_code d)))"
proof -
  obtain q sv1 where q: "authorizeEndpoint env req scope sv = (q, sv1)" by fastforce
  have up: "sv_uploads sv1 = sv_uploads sv" using endpoint_config [OF q] by simp
  show thesis
  proof (cases q)
    case (Inl e)
    with assms(1) q authorize_log [OF q] up show thesis by (intro failed [of e]) simp_all
  next
    case (Inr d)
    with authorize_log [OF q] obtain more where more: "sv_log sv1 = sv_log sv @ more" "length more \<le> 2" by auto
    note a = assms(1) [unfolded q Inr go_on_simps]
    show thesis
    proof (cases "ad_code d = Allowed")
      case True
      with a have "sv_log sv' = sv_log sv1 @ [decision_line ip (rq_target req) scope d]"
        using assms(2) [of "auditEndpointEvent ''auth_allowed'' ip (rq_target req) scope (ad_tokenName d) 200 sv1"]
        by (simp add: decision_line_def decision_token_def)
      with more True show thesis by (intro decided [OF q [unfolded Inr] more(2)]) simp_all
    next
      case False
      obtain res sv2 where f: "refuse_endpoint tls ip (rq_target req) scope d sv1 = (res, sv2)" by fastforce
      with a False have "r = Inr res" "sv' = sv2" by simp_all
      with refuse_log [OF f False] more up show thesis by (intro decided [OF q [unfolded Inr] more(2)]) simp_all
    qed
  qed
qed

definition decision_logged ::
  "string \<Rightarrow> http_request \<Rightarrow> string \<Rightarrow> auth_decision \<Rightarrow> server \<Rightarrow> string + http_response \<Rightarrow> server \<Rightarrow> bool" where
  "decision_logged ip req scope d sv r sv' \<longleftrightarrow>
     (\<exists>more. length more \<le> 2 \<and> sv_log sv' = sv_log sv @ more @ [decision_line ip (rq_target req) scope d]) \<and>
     (ad_code d \<noteq> Allowed \<longrightarrow> sv_uploads sv' = sv_uploads sv) \<and>
     (ad_code d \<noteq> Allowed \<or> scope = ''admin'' \<longrightarrow> (\<exists>res. r = Inr res \<and> rs_status res = snd (decision_event (ad_code d))))"

lemma admin_logged:
  assumes "handle_admin env tls ip req sv = (r, sv')" "cfg_enableAdminStatus (sv_config sv)" "rq_method req = ''GET''"
  shows "isl r \<and> sv_log sv' = sv_log sv \<and> sv_uploads sv' = sv_uploads sv \<or>
    (\<exists>d. fst (authorizeEndpoint env req ''admin'' sv) = Inr d \<and> decision_logged ip req ''admin'' d sv r sv')"
proof -
  define answer where "answer = (\<lambda>sv2. (Inr (adminStatusResponse env tls sv2), sv2) :: http_response outcome)"
  have h: "go_on (authorizeEndpoint env req ''admin'' sv) (\<lambda>d sv1.
        if ad_code d \<noteq> Allowed
        then (case refuse_endpoint tls ip (rq_target req) ''admin'' d sv1 of (res, sv2) \<Rightarrow> (Inr res, sv2))
        else answer (auditEndpointEvent ''auth_allowed'' ip (rq_target req) ''admin'' (ad_tokenName d) 200 sv1)) = (r, sv')"
    using assms unfolding handle_admin_def Let_def answer_def by simp
  have "sv_log (snd (answer sv1)) = sv_log sv1" for sv1 by (simp add: answer_def)
  from h this show ?thesis
  proof (cases rule: decided)
    case (decided d more sv1)
    have "\<exists>res. r = Inr res \<and> rs_status res = snd (decision_event (ad_code d))"
    proof (cases "ad_code d = Allowed")
      case True
      with h decided(1) have "r = Inr (adminStatusResponse env tls (auditEndpointEvent ''auth_allowed'' ip (rq_target req) ''admin'' (ad_tokenName d) 200 sv1))"
        by (auto simp: answer_def)
      with True show ?thesis by (simp add: adminStatusResponse_def)
    qed (use decided(4) in simp)
    with decided show ?thesis by (auto simp: decision_logged_def)
  qed simp_all
qed

lemma upload_logged:
  assumes "handle_upload env tls ip headers s req sv = (r, sv')" "cfg_enableUploads (sv_config sv)" "rq_method req = ''POST''"
  shows "isl r \<and> sv_log sv' = sv_log sv \<and> sv_uploads sv' = sv_uploads sv \<or>
    (\<exists>d. fst (authorizeEndpoint env req ''upload'' sv) = Inr d \<and> decision_logged ip req ''upload'' d sv r sv')"
proof -
  define answer where "answer = (\<lambda>sv2. (case rq_headers req ''content-type'' of
       None \<Rightarrow> (Inr (with_status 415 ''Unsupported Media Type'' (new_response tls sv)), sv2)
     | Some ct \<Rightarrow>
         if \<not> rq_hasContentLength req \<or> rq_contentLength req = 0
         then (Inr (with_status 400 ''Bad Request'' (new_response tls sv)), sv2)
         else if cfg_maxBodyBytes (sv_config sv2) < rq_contentLength req
         then (Inr (with_status 413 ''Payload Too Large'' (new_response tls sv)), sv2)
         else if \<not> en_spool_mkdir env (cfg_uploadSpoolDirectory (sv_config sv2))
         then (Inl ''filesystem error: cannot create directories'', sv2)
         else receive_upload env headers s (rq_contentLength req) ct
           (uniqueSpoolPath env (cfg_uploadSpoolDirectory (sv_config sv2))) (new_response tls sv) sv2) :: http_response outcome)"
  have h: "go_on (authorizeEndpoint env req ''upload'' sv) (\<lambda>d sv1.
        if ad_code d \<noteq> Allowed
        then (case refuse_endpoint tls ip (rq_target req) ''upload'' d sv1 of (res, sv2) \<Rightarrow> (Inr res, sv2))
        else answer (auditEndpointEvent ''auth_allowed'' ip (rq_target req) ''upload'' (ad_tokenName d) 200 sv1)) = (r, sv')"
    using assms unfolding handle_upload_def Let_def answer_def by simp
  have "sv_log (snd (answer sv1)) = sv_log sv1" for sv1
    by (simp add: answer_def receive_log split: option.split)
  from h this show ?thesis
  proof (cases rule: decided)
    case (decided d more sv1)
    then show ?thesis by (auto simp: decision_logged_def)
  qed simp_all
qed


section \<open>The theorem at a concrete request\<close>


end
