(* ===== verification/CallTrace.thy ===== *)
theory CallTrace
  imports Main
begin

text \<open>
  Calls of a library that hands out resources: a protocol says what a call does to what is held, and
  which calls are not allowed. A sequence of calls is balanced when all of them are allowed and
  nothing is held at the end. Used for the SQLite library and for the service manager of Windows.
\<close>

definition allowed_if :: "bool \<Rightarrow> 'a \<Rightarrow> 'a option" where
  "allowed_if b x = (if b then Some x else None)"

lemma allowed_if_simps [simp]: "allowed_if True x = Some x" "allowed_if False x = None"
  by (simp_all add: allowed_if_def)

fun run_calls :: "('call \<Rightarrow> 'held \<Rightarrow> 'held option) \<Rightarrow> 'call list \<Rightarrow> 'held \<Rightarrow> 'held option" where
  "run_calls protocol [] r = Some r"
| "run_calls protocol (c # cs) r = Option.bind (protocol c r) (run_calls protocol cs)"

lemma run_calls_append [simp]: "run_calls protocol (cs @ ds) r = Option.bind (run_calls protocol cs r) (run_calls protocol ds)"
  by (induction cs arbitrary: r) (auto split: bind_split)

definition balanced :: "('call \<Rightarrow> 'held \<Rightarrow> 'held option) \<Rightarrow> 'held \<Rightarrow> 'call list \<Rightarrow> bool" where
  "balanced protocol nothing calls \<longleftrightarrow> run_calls protocol calls nothing = Some nothing"

lemma balanced_append: "balanced protocol n cs \<Longrightarrow> balanced protocol n ds \<Longrightarrow> balanced protocol n (cs @ ds)"
  by (simp add: balanced_def)

end
