(* ===== verification/Sqlite.thy ===== *)
theory Sqlite
  imports Security CallTrace
begin

text \<open>
  \<open>src/src/SqliteModule.cpp\<close> and the stub \<open>src/src/SqliteModuleStub.cpp\<close> that replaces it in a build
  without SQLite. The library is the argument \<open>sqlite_api\<close>: how it answers the calls. An operation
  returns its result and the calls of the library it has made, in their order.
\<close>

section \<open>The library and its calls\<close>

text \<open>
  \<open>sqlite3_open\<close> gives a handle when it succeeds and may give one when it fails; \<open>sqlite3_exec\<close> may
  give an error message, to be freed by the caller, when it fails.
\<close>

datatype open_answer = OpenOk | OpenFailed bool

datatype exec_answer = ExecOk | ExecFailed "string option"

record sqlite_api =
  sq_mkdir :: "string \<Rightarrow> bool"
  sq_open :: "string \<Rightarrow> open_answer"
  sq_exec :: "string \<Rightarrow> exec_answer"
  sq_prepare :: "string \<Rightarrow> bool"
  sq_step_done :: "string \<Rightarrow> string list \<Rightarrow> bool"

datatype sql_call =
    SqlOpen string bool
  | SqlExec string bool
  | SqlFree
  | SqlPrepare string bool
  | SqlBind nat string
  | SqlStep
  | SqlFinalize
  | SqlClose

fun handle_given :: "open_answer \<Rightarrow> bool" where
  "handle_given OpenOk = True"
| "handle_given (OpenFailed h) = h"

definition close_if :: "bool \<Rightarrow> sql_call list" where
  "close_if h = (if h then [SqlClose] else [])"

fun message_given :: "exec_answer \<Rightarrow> bool" where
  "message_given (ExecFailed (Some m)) = True"
| "message_given a = False"

definition free_if :: "bool \<Rightarrow> sql_call list" where
  "free_if m = (if m then [SqlFree] else [])"

section \<open>The module\<close>

record sql_result =
  qr_ok :: bool
  qr_error :: string

definition create_table :: string where
  "create_table =
     ''CREATE TABLE IF NOT EXISTS hydrogen_events ('' @ ''id INTEGER PRIMARY KEY AUTOINCREMENT,'' @
     ''created_at TEXT DEFAULT CURRENT_TIMESTAMP,'' @ ''event_type TEXT NOT NULL,'' @ ''message TEXT NOT NULL'' @ '');''"

definition insert_event :: string where
  "insert_event = ''INSERT INTO hydrogen_events(event_type, message) VALUES(?, ?);''"

definition sql_initialize :: "sqlite_api \<Rightarrow> string \<Rightarrow> (string + bool) \<times> sql_call list" where
  "sql_initialize api databasePath =
     (if \<not> sq_mkdir api (parent_path databasePath) then (Inl ''filesystem error: cannot create directories'', [])
      else
        let p = c_string databasePath; opened = sq_open api p; open_call = SqlOpen p (handle_given opened)
        in if opened \<noteq> OpenOk then (Inr False, [open_call] @ close_if (handle_given opened))
           else
             let rc = sq_exec api create_table
             in (Inr (rc = ExecOk),
                 [open_call, SqlExec create_table (message_given rc)] @ free_if (message_given rc) @ [SqlClose]))"

definition exec_error :: "exec_answer \<Rightarrow> string" where
  "exec_error rc = (case rc of ExecFailed (Some err) \<Rightarrow> c_string err | _ \<Rightarrow> ''sqlite error'')"

definition executeSafeStatement :: "sqlite_api \<Rightarrow> string \<Rightarrow> string \<Rightarrow> sql_result \<times> sql_call list" where
  "executeSafeStatement api databasePath sql =
     (let p = c_string databasePath; opened = sq_open api p; open_call = SqlOpen p (handle_given opened)
      in if opened \<noteq> OpenOk
         then (\<lparr>qr_ok = False, qr_error = ''failed to open database''\<rparr>, [open_call] @ close_if (handle_given opened))
         else
           let rc = sq_exec api (c_string sql);
               calls = [open_call, SqlExec (c_string sql) (message_given rc)] @ free_if (message_given rc) @ [SqlClose]
           in (if rc \<noteq> ExecOk then \<lparr>qr_ok = False, qr_error = exec_error rc\<rparr> else \<lparr>qr_ok = True, qr_error = []\<rparr>, calls))"

definition recordEvent :: "sqlite_api \<Rightarrow> string \<Rightarrow> string \<Rightarrow> string \<Rightarrow> sql_result \<times> sql_call list" where
  "recordEvent api databasePath eventType message =
     (let p = c_string databasePath; opened = sq_open api p; open_call = SqlOpen p (handle_given opened)
      in if opened \<noteq> OpenOk
         then (\<lparr>qr_ok = False, qr_error = ''failed to open database''\<rparr>, [open_call] @ close_if (handle_given opened))
         else if \<not> sq_prepare api insert_event
         then (\<lparr>qr_ok = False, qr_error = ''prepare failed''\<rparr>, [open_call, SqlPrepare insert_event False, SqlClose])
         else
           (if \<not> sq_step_done api insert_event [c_string eventType, c_string message]
            then \<lparr>qr_ok = False, qr_error = ''insert failed''\<rparr> else \<lparr>qr_ok = True, qr_error = []\<rparr>,
            [open_call, SqlPrepare insert_event True, SqlBind 1 (c_string eventType), SqlBind 2 (c_string message),
             SqlStep, SqlFinalize, SqlClose]))"

text \<open>The module of a build without SQLite.\<close>

definition stub_initialize :: "string \<Rightarrow> (string + bool) \<times> sql_call list" where
  "stub_initialize databasePath = (Inr False, [])"

definition stub_result :: sql_result where
  "stub_result = \<lparr>qr_ok = False, qr_error = ''SQLite module disabled at build time''\<rparr>"

section \<open>The resources of the library\<close>

text \<open>
  What is held, a handle, a statement and an error message, and what a call does to it: \<^const>\<open>None\<close> for
  a call that the library does not allow in that state.
\<close>

record sql_held =
  qh_handle :: bool
  qh_statement :: bool
  qh_message :: bool

definition nothing_held :: sql_held where
  "nothing_held = \<lparr>qh_handle = False, qh_statement = False, qh_message = False\<rparr>"

fun sql_next :: "sql_call \<Rightarrow> sql_held \<Rightarrow> sql_held option" where
  "sql_next (SqlOpen p h) r = allowed_if (r = nothing_held) (r\<lparr>qh_handle := h\<rparr>)"
| "sql_next (SqlExec s m) r = allowed_if (qh_handle r \<and> \<not> qh_message r) (r\<lparr>qh_message := m\<rparr>)"
| "sql_next SqlFree r = allowed_if (qh_message r) (r\<lparr>qh_message := False\<rparr>)"
| "sql_next (SqlPrepare s ok) r = allowed_if (qh_handle r \<and> \<not> qh_statement r) (r\<lparr>qh_statement := ok\<rparr>)"
| "sql_next (SqlBind i v) r = allowed_if (qh_statement r) r"
| "sql_next SqlStep r = allowed_if (qh_statement r) r"
| "sql_next SqlFinalize r = allowed_if (qh_statement r) (r\<lparr>qh_statement := False\<rparr>)"
| "sql_next SqlClose r = allowed_if (qh_handle r \<and> \<not> qh_statement r) (r\<lparr>qh_handle := False\<rparr>)"

definition releases_all :: "sql_call list \<Rightarrow> bool" where
  "releases_all calls \<longleftrightarrow> balanced sql_next nothing_held calls"

lemmas sql_call_defs = releases_all_def balanced_def nothing_held_def close_if_def free_if_def

text \<open>The texts that are compiled as SQL.\<close>

fun sql_text :: "sql_call \<Rightarrow> string list" where
  "sql_text (SqlExec s m) = [s]"
| "sql_text (SqlPrepare s ok) = [s]"
| "sql_text c = []"

lemma initialize_releases: "releases_all (snd (sql_initialize api path))"
  by (cases "sq_open api (c_string path)"; cases "sq_exec api create_table")
    (auto simp: sql_initialize_def sql_call_defs Let_def)

lemma execute_releases: "releases_all (snd (executeSafeStatement api path sql))"
  by (cases "sq_open api (c_string path)"; cases "sq_exec api (c_string sql)")
    (auto simp: executeSafeStatement_def sql_call_defs Let_def)

lemma record_releases: "releases_all (snd (recordEvent api path ty message))"
  by (cases "sq_open api (c_string path)") (auto simp: recordEvent_def sql_call_defs Let_def)

lemma record_texts: "set (concat (map sql_text (snd (recordEvent api path ty message)))) \<subseteq> {insert_event}"
  by (simp add: recordEvent_def Let_def close_if_def)

lemma record_ok:
  "qr_ok (fst (recordEvent api path ty message)) \<longleftrightarrow>
     sq_open api (c_string path) = OpenOk \<and> sq_prepare api insert_event \<and>
     sq_step_done api insert_event [c_string ty, c_string message]"
  by (simp add: recordEvent_def Let_def)

text \<open>
  C40: however SQLite answers, no operation of the module leaks a handle, a statement or an error message,
  frees one twice or uses one that is gone; and the type and the message of a recorded event reach
  SQLite as bound values only, up to their first NUL: the only text that is compiled is the constant
  INSERT. The event is reported as recorded exactly when the database was opened, the statement was
  compiled and its execution was done.
\<close>

theorem sqlite_calls_safe:
  "releases_all (snd (sql_initialize api path)) \<and> releases_all (snd (executeSafeStatement api path sql)) \<and>
   releases_all (snd (recordEvent api path ty message)) \<and>
   set (concat (map sql_text (snd (recordEvent api path ty message)))) \<subseteq> {insert_event} \<and>
   (qr_ok (fst (recordEvent api path ty message)) \<longleftrightarrow>
      sq_open api (c_string path) = OpenOk \<and> sq_prepare api insert_event \<and>
      sq_step_done api insert_event [c_string ty, c_string message])"
  by (intro conjI initialize_releases execute_releases record_releases record_texts record_ok)

end
