(* ===== verification/WindowsService.thy ===== *)
theory WindowsService
  imports ServerState CallTrace
begin

text \<open>
  \<open>src/src/WindowsService.cpp\<close>: the server as a service of Windows. The service manager runs
  \<open>serviceMain\<close> on one thread and \<open>serviceControlHandler\<close> on another; they share global variables without
  a lock, and are a step relation here. Installing and removing the service are calls of the service
  manager, whose answers are the argument \<open>scm_api\<close>. Wide strings are strings.
\<close>

section \<open>The status\<close>

datatype service_state = StartPending | Running | StopPending | Stopped

definition NO_ERROR :: nat where "NO_ERROR = 0"

definition ERROR_SERVICE_SPECIFIC_ERROR :: nat where "ERROR_SERVICE_SPECIFIC_ERROR = 1066"

definition ERROR_SERVICE_EXISTS :: nat where "ERROR_SERVICE_EXISTS = 1073"

definition ERROR_SERVICE_DOES_NOT_EXIST :: nat where "ERROR_SERVICE_DOES_NOT_EXIST = 1060"

definition SERVICE_CONTROL_STOP :: nat where "SERVICE_CONTROL_STOP = 1"

definition SERVICE_CONTROL_SHUTDOWN :: nat where "SERVICE_CONTROL_SHUTDOWN = 5"

record service_status =
  ss_currentState :: service_state
  ss_exitCode :: nat
  ss_waitHint :: nat
  ss_acceptsStop :: bool
  ss_checkPoint :: "32 word"

text \<open>Where the two threads are, and what became of the \<open>io_context\<close> of \<open>runHydrogenHttpd\<close>.\<close>

datatype main_place = Registering | Starting | Announcing | Loading | Serving | Returned int | Cleared int | Finished

datatype handler_place = Idle | Received nat | Stopping

datatype io_state = NoContext | Working | Halted | Destroyed

record service =
  wv_status :: "service_status option"
  wv_checkpoint :: "32 word"
  wv_reports :: "service_status list"
  wv_io :: bool
  wv_context :: io_state
  wv_main :: main_place
  wv_handler :: handler_place
  wv_dangling :: bool

definition new_service :: service where
  "new_service =
     \<lparr>wv_status = None, wv_checkpoint = 1, wv_reports = [], wv_io = False, wv_context = NoContext,
      wv_main = Registering, wv_handler = Idle, wv_dangling = False\<rparr>"

text \<open>The handle is set at every place where a status is reported, so it always reaches the service manager.\<close>

definition reportStatus :: "service_state \<Rightarrow> nat \<Rightarrow> nat \<Rightarrow> service \<Rightarrow> service" where
  "reportStatus state exitCode waitHint sv =
     (let plain = (state = Running \<or> state = Stopped);
          status = \<lparr>ss_currentState = state, ss_exitCode = exitCode, ss_waitHint = waitHint,
                    ss_acceptsStop = (state \<noteq> StartPending),
                    ss_checkPoint = (if plain then 0 else wv_checkpoint sv)\<rparr>
      in sv\<lparr>wv_status := Some status, wv_reports := wv_reports sv @ [status],
            wv_checkpoint := (if plain then wv_checkpoint sv else wv_checkpoint sv + 1)\<rparr>)"

section \<open>The two threads\<close>

text \<open>\<open>serviceControlHandler\<close>: the report, and then the look at \<open>g_io\<close>, which may be gone when \<open>stop\<close> is called.\<close>

definition handler_step :: "service \<Rightarrow> service option" where
  "handler_step sv =
     (case wv_handler sv of
        Idle \<Rightarrow> None
      | Received control \<Rightarrow>
          Some (if control = SERVICE_CONTROL_STOP \<or> control = SERVICE_CONTROL_SHUTDOWN
                then reportStatus StopPending NO_ERROR 5000 (sv\<lparr>wv_handler := Stopping\<rparr>) else sv\<lparr>wv_handler := Idle\<rparr>)
      | Stopping \<Rightarrow>
          let sv1 = sv\<lparr>wv_handler := Idle\<rparr>
          in Some (if \<not> wv_io sv then sv1
                   else if wv_context sv = Destroyed then sv1\<lparr>wv_dangling := True\<rparr>
                   else sv1\<lparr>wv_context := Halted\<rparr>))"

text \<open>
  \<open>serviceMain\<close>, with \<open>ok\<close> for the outcome of a call: the registration, loading the configuration up to
  \<open>onIoReady\<close>, and the rest of \<open>runHydrogenHttpd\<close>, whose \<open>io.run()\<close> only returns when the context was
  stopped; it destroys the context on its way out, before \<open>g_io\<close> is cleared.
\<close>

definition main_step :: "bool \<Rightarrow> service \<Rightarrow> service option" where
  "main_step ok sv =
     (case wv_main sv of
        Registering \<Rightarrow> Some (sv\<lparr>wv_main := (if ok then Starting else Finished)\<rparr>)
      | Starting \<Rightarrow> Some (reportStatus StartPending NO_ERROR 5000 (sv\<lparr>wv_main := Announcing\<rparr>))
      | Announcing \<Rightarrow> Some (reportStatus Running NO_ERROR 0 (sv\<lparr>wv_main := Loading\<rparr>))
      | Loading \<Rightarrow>
          Some (if ok then sv\<lparr>wv_io := True, wv_context := Working, wv_main := Serving\<rparr> else sv\<lparr>wv_main := Returned 1\<rparr>)
      | Serving \<Rightarrow>
          if ok then (if wv_context sv = Halted then Some (sv\<lparr>wv_context := Destroyed, wv_main := Returned 0\<rparr>) else None)
          else Some (sv\<lparr>wv_context := Destroyed, wv_main := Returned 1\<rparr>)
      | Returned result \<Rightarrow> Some (sv\<lparr>wv_io := False, wv_main := Cleared result\<rparr>)
      | Cleared result \<Rightarrow>
          Some (reportStatus Stopped (if result = 0 then NO_ERROR else ERROR_SERVICE_SPECIFIC_ERROR) 0 (sv\<lparr>wv_main := Finished\<rparr>))
      | Finished \<Rightarrow> None)"

text \<open>
  The service manager sends a control to a service that reported last that it is running and accepts it, one at
  a time.
\<close>

definition accepts_control :: "service \<Rightarrow> bool" where
  "accepts_control sv \<longleftrightarrow>
     (case wv_status sv of None \<Rightarrow> False | Some s \<Rightarrow> ss_currentState s = Running \<and> ss_acceptsStop s) \<and> wv_handler sv = Idle"

inductive service_step :: "service \<Rightarrow> service \<Rightarrow> bool" where
  main: "main_step ok sv = Some sv' \<Longrightarrow> service_step sv sv'"
| handler: "handler_step sv = Some sv' \<Longrightarrow> service_step sv sv'"
| sent: "accepts_control sv \<Longrightarrow> service_step sv (sv\<lparr>wv_handler := Received control\<rparr>)"

inductive_cases service_stepE: "service_step sv sv'"

inductive service_run :: "service \<Rightarrow> bool" where
  new: "service_run new_service"
| more: "service_run sv \<Longrightarrow> service_step sv sv' \<Longrightarrow> service_run sv'"

section \<open>Installing and removing\<close>

datatype create_answer = Created | CreateFailed nat

record scm_api =
  sm_manager :: "nat option"
  sm_create :: create_answer
  sm_open :: "nat option"
  sm_deleted :: bool
  sm_dispatched :: "nat option"
  sm_absolute :: "string \<Rightarrow> string"

text \<open>\<^const>\<open>None\<close> is success, a number the error code; the calls, with whether they gave a handle.\<close>

datatype scm_call =
    ScmManager bool
  | ScmCreate string bool
  | ScmOpen bool
  | ScmConfig string
  | ScmDescription string
  | ScmFailure nat "nat list"
  | ScmStop
  | ScmDelete
  | ScmCloseService
  | ScmCloseManager

definition service_command :: "scm_api \<Rightarrow> string \<Rightarrow> string \<Rightarrow> string" where
  "service_command api executable configPath =
     quoted (sm_absolute api executable) @ '' --service --config '' @ quoted (sm_absolute api configPath)"

definition failed_code :: "string \<Rightarrow> nat \<Rightarrow> string" where
  "failed_code what code = what @ '' failed: '' @ to_string code @ [LF]"

definition service_settings :: "scm_call list" where
  "service_settings =
     [ScmDescription ''High-performance experimental HTTP/HTTPS server.'', ScmFailure 86400 [5000, 15000, 60000]]"

text \<open>The exit code, what is printed to the error output, and the calls.\<close>

definition installHydrogenHttpdWindowsService :: "scm_api \<Rightarrow> string \<Rightarrow> string \<Rightarrow> int \<times> string \<times> scm_call list" where
  "installHydrogenHttpdWindowsService api executable configPath =
     (case sm_manager api of
        Some e \<Rightarrow> (1, failed_code ''OpenSCManager'' e, [ScmManager False])
      | None \<Rightarrow>
          let command = service_command api executable configPath;
              kept = service_settings @ [ScmCloseService, ScmCloseManager]
          in (case sm_create api of
                Created \<Rightarrow> (0, [], [ScmManager True, ScmCreate command True] @ kept)
              | CreateFailed e \<Rightarrow>
                  if e \<noteq> ERROR_SERVICE_EXISTS
                  then (1, failed_code ''Create/Open service'' e, [ScmManager True, ScmCreate command False, ScmCloseManager])
                  else (case sm_open api of
                          None \<Rightarrow> (0, [], [ScmManager True, ScmCreate command False, ScmOpen True, ScmConfig command] @ kept)
                        | Some e' \<Rightarrow>
                            (1, failed_code ''Create/Open service'' e',
                             [ScmManager True, ScmCreate command False, ScmOpen False, ScmCloseManager]))))"

definition uninstallHydrogenHttpdWindowsService :: "scm_api \<Rightarrow> int \<times> scm_call list" where
  "uninstallHydrogenHttpdWindowsService api =
     (case sm_manager api of
        Some e \<Rightarrow> (1, [ScmManager False])
      | None \<Rightarrow>
          (case sm_open api of
             Some e \<Rightarrow> (if e = ERROR_SERVICE_DOES_NOT_EXIST then 0 else 1, [ScmManager True, ScmOpen False, ScmCloseManager])
           | None \<Rightarrow>
               (if sm_deleted api then 0 else 1,
                [ScmManager True, ScmOpen True, ScmStop, ScmDelete, ScmCloseService, ScmCloseManager])))"

text \<open>\<open>runHydrogenHttpdWindowsService\<close> hands \<open>serviceMain\<close> to the dispatcher and returns when the service has ended.\<close>

definition runHydrogenHttpdWindowsService :: "scm_api \<Rightarrow> int \<times> string" where
  "runHydrogenHttpdWindowsService api =
     (case sm_dispatched api of Some e \<Rightarrow> (1, failed_code ''StartServiceCtrlDispatcher'' e) | None \<Rightarrow> (0, []))"

section \<open>What the service manager sees\<close>

definition report_states :: "service \<Rightarrow> service_state list" where
  "report_states sv = map ss_currentState (wv_reports sv)"

lemma reportStatus_simps [simp]:
  "report_states (reportStatus st e w sv) = report_states sv @ [st]"
  "wv_main (reportStatus st e w sv) = wv_main sv"
  "wv_handler (reportStatus st e w sv) = wv_handler sv"
  "wv_io (reportStatus st e w sv) = wv_io sv"
  "wv_context (reportStatus st e w sv) = wv_context sv"
  "wv_dangling (reportStatus st e w sv) = wv_dangling sv"
  "wv_status (reportStatus st e w sv) = Some (last (wv_reports (reportStatus st e w sv)))"
  "ss_currentState (last (wv_reports (reportStatus st e w sv))) = st"
  "ss_exitCode (last (wv_reports (reportStatus st e w sv))) = e"
  by (simp_all add: reportStatus_def report_states_def Let_def)

lemma report_states_updates [simp]:
  "report_states (sv\<lparr>wv_main := m\<rparr>) = report_states sv"
  "report_states (sv\<lparr>wv_handler := h\<rparr>) = report_states sv"
  "report_states (sv\<lparr>wv_io := b\<rparr>) = report_states sv"
  "report_states (sv\<lparr>wv_context := c\<rparr>) = report_states sv"
  "report_states (sv\<lparr>wv_dangling := b\<rparr>) = report_states sv"
  by (simp_all add: report_states_def)

text \<open>The reports that belong to a place of the two threads, and what is known of the context there.\<close>

definition running_reports :: "service_state list set" where
  "running_reports = {[StartPending, Running], [StartPending, Running, StopPending]}"

definition final_reports :: "service_state list set" where
  "final_reports = {[StartPending, Running, Stopped], [StartPending, Running, StopPending, Stopped],
     [StartPending, Running, Stopped, StopPending]}"

definition main_inv :: "service \<Rightarrow> bool" where
  "main_inv sv \<longleftrightarrow>
     (case wv_main sv of
        Registering \<Rightarrow> report_states sv = [] \<and> \<not> wv_io sv \<and> wv_context sv = NoContext
      | Starting \<Rightarrow> report_states sv = [] \<and> \<not> wv_io sv \<and> wv_context sv = NoContext
      | Announcing \<Rightarrow> report_states sv = [StartPending] \<and> \<not> wv_io sv \<and> wv_context sv = NoContext
      | Loading \<Rightarrow> report_states sv \<in> running_reports \<and> \<not> wv_io sv \<and> wv_context sv = NoContext
      | Serving \<Rightarrow> report_states sv \<in> running_reports \<and> wv_io sv \<and> wv_context sv \<in> {Working, Halted}
      | Returned r \<Rightarrow> report_states sv \<in> running_reports \<and> wv_context sv \<in> {NoContext, Destroyed} \<and>
          (wv_io sv \<longleftrightarrow> wv_context sv = Destroyed)
      | Cleared r \<Rightarrow> report_states sv \<in> running_reports \<and> \<not> wv_io sv
      | Finished \<Rightarrow> report_states sv \<in> {[]} \<union> final_reports \<and> \<not> wv_io sv)"

definition handler_inv :: "service \<Rightarrow> bool" where
  "handler_inv sv \<longleftrightarrow>
     (case wv_handler sv of
        Idle \<Rightarrow> True
      | Received c \<Rightarrow> report_states sv \<in> {[StartPending, Running], [StartPending, Running, Stopped]}
      | Stopping \<Rightarrow> StopPending \<in> set (report_states sv)) \<and>
     (wv_context sv = Halted \<or> wv_main sv \<in> {Returned 0, Cleared 0} \<longrightarrow> StopPending \<in> set (report_states sv))"

text \<open>
  About the reports alone: the check points of the pending ones are numbered from 1, the others have none, and
  an exit without an error is only reported behind a stop.
\<close>

definition pending :: "service_status \<Rightarrow> bool" where
  "pending s \<longleftrightarrow> ss_currentState s \<in> {StartPending, StopPending}"

definition points_ok :: "service_status list \<Rightarrow> 32 word \<Rightarrow> bool" where
  "points_ok rs next_point \<longleftrightarrow>
     map ss_checkPoint (filter pending rs) = map of_nat [1..<Suc (length (filter pending rs))] \<and>
     next_point = of_nat (Suc (length (filter pending rs))) \<and> (\<forall>s \<in> set rs. \<not> pending s \<longrightarrow> ss_checkPoint s = 0)"

definition exit_ok :: "service_status list \<Rightarrow> bool" where
  "exit_ok rs \<longleftrightarrow> (\<forall>s \<in> set rs. ss_currentState s = Stopped \<and> ss_exitCode s = NO_ERROR \<longrightarrow>
     map ss_currentState rs = [StartPending, Running, StopPending, Stopped])"

definition status_inv :: "service \<Rightarrow> bool" where
  "status_inv sv \<longleftrightarrow>
     wv_status sv = (if wv_reports sv = [] then None else Some (last (wv_reports sv))) \<and>
     points_ok (wv_reports sv) (wv_checkpoint sv) \<and> exit_ok (wv_reports sv)"

lemma main_inv_updates [simp]:
  "main_inv (sv\<lparr>wv_handler := h\<rparr>) = main_inv sv"
  "main_inv (sv\<lparr>wv_dangling := b\<rparr>) = main_inv sv"
  by (cases "wv_main sv"; simp add: main_inv_def)+

lemmas service_inv_defs = main_inv_def handler_inv_def running_reports_def final_reports_def

lemma main_step_inv:
  assumes "main_step ok sv = Some sv'" "main_inv sv" "handler_inv sv"
  shows "main_inv sv' \<and> handler_inv sv'"
proof (cases "wv_main sv")
  case Registering
  with assms show ?thesis by (cases ok; cases "wv_handler sv") (auto simp: main_step_def service_inv_defs)
next
  case Starting
  with assms show ?thesis by (cases "wv_handler sv") (auto simp: main_step_def service_inv_defs)
next
  case Announcing
  with assms show ?thesis by (cases "wv_handler sv") (auto simp: main_step_def service_inv_defs)
next
  case Loading
  with assms show ?thesis by (cases "wv_handler sv") (auto simp: main_step_def main_inv_def handler_inv_def split: if_splits)
next
  case Serving
  with assms show ?thesis by (cases "wv_handler sv") (auto simp: main_step_def main_inv_def handler_inv_def split: if_splits)
next
  case (Returned r)
  with assms show ?thesis by (cases "wv_handler sv") (auto simp: main_step_def main_inv_def handler_inv_def)
next
  case (Cleared r)
  with assms show ?thesis by (cases "wv_handler sv") (auto simp: main_step_def service_inv_defs)
next
  case Finished
  with assms show ?thesis by (simp add: main_step_def)
qed

lemma stop_reported:
  assumes "main_inv sv" "report_states sv \<in> {[StartPending, Running], [StartPending, Running, Stopped]}"
    and "sv' = reportStatus StopPending e w (sv\<lparr>wv_handler := Stopping\<rparr>)"
  shows "main_inv sv' \<and> handler_inv sv'"
  using assms by (cases "wv_main sv") (auto simp: service_inv_defs)

lemma handler_step_inv:
  assumes "handler_step sv = Some sv'" "main_inv sv" "handler_inv sv"
  shows "main_inv sv' \<and> handler_inv sv'"
proof (cases "wv_handler sv")
  case Idle
  with assms(1) show ?thesis by (simp add: handler_step_def)
next
  case (Received c)
  show ?thesis
  proof (cases "c = SERVICE_CONTROL_STOP \<or> c = SERVICE_CONTROL_SHUTDOWN")
    case True
    with assms Received show ?thesis by (intro stop_reported [of sv]) (auto simp: handler_step_def handler_inv_def)
  next
    case False
    with assms Received have "sv' = sv\<lparr>wv_handler := Idle\<rparr>" by (auto simp: handler_step_def)
    with assms(2,3) Received show ?thesis by (auto simp: handler_inv_def)
  qed
next
  case Stopping
  with assms(3) have s: "StopPending \<in> set (report_states sv)" by (simp add: handler_inv_def)
  show ?thesis
  proof (cases "wv_io sv \<and> wv_context sv \<noteq> Destroyed")
    case False
    with assms(1) Stopping have "sv' \<in> {sv\<lparr>wv_handler := Idle\<rparr>, sv\<lparr>wv_handler := Idle, wv_dangling := True\<rparr>}"
      by (auto simp: handler_step_def Let_def split: if_splits)
    with assms(2,3) Stopping s show ?thesis by (auto simp: handler_inv_def)
  next
    case True
    with assms(2) have "wv_main sv = Serving" by (auto simp: main_inv_def split: main_place.splits)
    moreover from True assms(1) Stopping have "sv' = sv\<lparr>wv_handler := Idle, wv_context := Halted\<rparr>"
      by (auto simp: handler_step_def Let_def)
    ultimately show ?thesis using assms(2) s by (simp add: main_inv_def handler_inv_def)
  qed
qed

lemma points_report:
  "points_ok (wv_reports sv) (wv_checkpoint sv) \<Longrightarrow>
   points_ok (wv_reports (reportStatus st e w sv)) (wv_checkpoint (reportStatus st e w sv))"
  by (cases st) (auto simp: points_ok_def reportStatus_def Let_def pending_def)

lemma exit_snoc:
  assumes "exit_ok rs" "Stopped \<in> set (map ss_currentState rs) \<Longrightarrow> ss_currentState s \<noteq> Stopped \<and> map ss_currentState rs \<noteq> [StartPending, Running, StopPending, Stopped]"
    and "ss_currentState s = Stopped \<and> ss_exitCode s = NO_ERROR \<Longrightarrow> map ss_currentState rs = [StartPending, Running, StopPending]"
  shows "exit_ok (rs @ [s])"
  using assms unfolding exit_ok_def by fastforce

lemma status_report:
  assumes "status_inv sv" "wv_reports sv' = wv_reports sv" "wv_checkpoint sv' = wv_checkpoint sv"
    and "Stopped \<in> set (report_states sv) \<Longrightarrow> st \<noteq> Stopped \<and> report_states sv \<noteq> [StartPending, Running, StopPending, Stopped]"
    and "st = Stopped \<and> e = NO_ERROR \<Longrightarrow> report_states sv = [StartPending, Running, StopPending]"
  shows "status_inv (reportStatus st e w sv')"
proof -
  let ?r = "reportStatus st e w sv'"
  have "exit_ok (wv_reports sv @ [last (wv_reports ?r)])"
    using assms(1,4,5) by (intro exit_snoc) (auto simp: status_inv_def report_states_def)
  moreover have "wv_reports ?r = wv_reports sv @ [last (wv_reports ?r)]"
    using assms(2) by (simp add: reportStatus_def Let_def)
  moreover have "points_ok (wv_reports ?r) (wv_checkpoint ?r)"
    using assms(1-3) by (intro points_report) (simp add: status_inv_def)
  moreover have "wv_reports ?r \<noteq> []" by (simp add: reportStatus_def Let_def)
  ultimately show ?thesis by (simp add: status_inv_def)
qed

lemma status_same:
  "status_inv sv \<Longrightarrow> wv_reports sv' = wv_reports sv \<Longrightarrow> wv_checkpoint sv' = wv_checkpoint sv \<Longrightarrow> wv_status sv' = wv_status sv \<Longrightarrow>
   status_inv sv'"
  by (simp add: status_inv_def)

definition service_inv :: "service \<Rightarrow> bool" where
  "service_inv sv \<longleftrightarrow> main_inv sv \<and> handler_inv sv \<and> status_inv sv"

lemma error_codes: "ERROR_SERVICE_SPECIFIC_ERROR \<noteq> NO_ERROR"
  by (simp add: NO_ERROR_def ERROR_SERVICE_SPECIFIC_ERROR_def)

lemma main_step_status:
  assumes "main_step ok sv = Some sv'" "service_inv sv"
  shows "status_inv sv'"
proof (cases "wv_main sv")
  case Starting
  with assms show ?thesis
    by (auto simp: main_step_def service_inv_def main_inv_def intro!: status_report [of sv])
next
  case Announcing
  with assms show ?thesis
    by (auto simp: main_step_def service_inv_def main_inv_def intro!: status_report [of sv])
next
  case (Cleared r)
  with assms have "report_states sv \<in> running_reports" "r = 0 \<longrightarrow> StopPending \<in> set (report_states sv)"
    by (auto simp: service_inv_def main_inv_def handler_inv_def)
  then have "Stopped \<notin> set (report_states sv)" "r = 0 \<Longrightarrow> report_states sv = [StartPending, Running, StopPending]"
    by (auto simp: running_reports_def)
  with Cleared assms show ?thesis
    by (auto simp: main_step_def service_inv_def error_codes split: if_splits intro!: status_report [of sv])
qed (use assms in \<open>auto simp: main_step_def service_inv_def split: if_splits intro: status_same\<close>)

lemma handler_step_status:
  assumes "handler_step sv = Some sv'" "service_inv sv"
  shows "status_inv sv'"
proof (cases "wv_handler sv")
  case Idle
  with assms show ?thesis by (simp add: handler_step_def)
next
  case (Received c)
  with assms have "report_states sv \<in> {[StartPending, Running], [StartPending, Running, Stopped]}"
    by (simp add: service_inv_def handler_inv_def)
  then have "report_states sv \<noteq> [StartPending, Running, StopPending, Stopped]" by auto
  with Received assms show ?thesis
    by (auto simp: handler_step_def service_inv_def split: if_splits intro: status_same intro!: status_report [of sv])
next
  case Stopping
  with assms show ?thesis
    by (auto simp: handler_step_def service_inv_def Let_def split: if_splits intro: status_same)
qed

lemma control_inv:
  assumes "accepts_control sv" "service_inv sv"
  shows "service_inv (sv\<lparr>wv_handler := Received c\<rparr>)"
proof -
  from assms have "wv_reports sv \<noteq> []" "ss_currentState (last (wv_reports sv)) = Running"
    by (auto simp: accepts_control_def service_inv_def status_inv_def split: option.splits if_splits)
  then have "report_states sv \<noteq> []" "last (report_states sv) = Running" by (simp_all add: report_states_def last_map)
  moreover from assms(2) have "report_states sv \<in> {[], [StartPending]} \<union> running_reports \<union> final_reports"
    by (cases "wv_main sv") (auto simp: service_inv_def main_inv_def)
  ultimately have "report_states sv = [StartPending, Running]" by (auto simp: running_reports_def final_reports_def)
  with assms(2) show ?thesis by (auto simp: service_inv_def handler_inv_def intro: status_same)
qed

lemma service_run_inv: "service_run sv \<Longrightarrow> service_inv sv"
proof (induction rule: service_run.induct)
  case new
  show ?case
    by (simp add: service_inv_def main_inv_def handler_inv_def status_inv_def points_ok_def exit_ok_def new_service_def report_states_def)
next
  case (more sv sv')
  from more.hyps(2) show ?case
  proof cases
    case (main ok)
    with more.IH main_step_inv [OF main] main_step_status [OF main] show ?thesis by (simp add: service_inv_def)
  next
    case handler
    with more.IH handler_step_inv [OF handler] handler_step_status [OF handler] show ?thesis by (simp add: service_inv_def)
  next
    case (sent c)
    with control_inv [OF sent(2) more.IH] show ?thesis by simp
  qed
qed


section \<open>Stopping\<close>

text \<open>
  C38: a stop that finds the server running ends it: the context is halted, and three steps of \<open>serviceMain\<close> later the
  service has reported STOPPED without an error and is finished.
\<close>

theorem service_stops:
  assumes "service_run sv" "wv_handler sv = Stopping" "wv_main sv = Serving"
  shows "\<exists>sv1 sv2. handler_step sv = Some sv1 \<and> run_calls main_step [True, True, True] sv1 = Some sv2 \<and>
    wv_main sv2 = Finished \<and> report_states sv2 = [StartPending, Running, StopPending, Stopped] \<and>
    ss_exitCode (last (wv_reports sv2)) = NO_ERROR \<and> \<not> wv_io sv2"
proof -
  have inv: "main_inv sv" "handler_inv sv" using service_run_inv [OF assms(1)] by (simp_all add: service_inv_def)
  then have r: "report_states sv = [StartPending, Running, StopPending]" and io: "wv_io sv" "wv_context sv \<noteq> Destroyed"
    using assms(2,3) by (auto simp: main_inv_def handler_inv_def running_reports_def)
  define sv1 where "sv1 = sv\<lparr>wv_handler := Idle, wv_context := Halted\<rparr>"
  have h: "handler_step sv = Some sv1" using assms(2) io by (simp add: handler_step_def sv1_def)
  define sv2 where "sv2 = reportStatus Stopped NO_ERROR 0 (sv1\<lparr>wv_context := Destroyed, wv_io := False, wv_main := Finished\<rparr>)"
  have "run_calls main_step [True, True, True] sv1 = Some sv2"
    using assms(3) by (simp add: main_step_def sv1_def sv2_def)
  with h show ?thesis by (intro exI [of _ sv1] exI [of _ sv2]) (simp add: sv2_def sv1_def r)
qed

text \<open>Schedules, to exhibit reachable states.\<close>

datatype service_move = Main bool | Handler | Send nat

fun make_move :: "service_move \<Rightarrow> service \<Rightarrow> service option" where
  "make_move (Main ok) sv = main_step ok sv"
| "make_move Handler sv = handler_step sv"
| "make_move (Send control) sv = allowed_if (accepts_control sv) (sv\<lparr>wv_handler := Received control\<rparr>)"

lemma service_moves_run: "service_run sv \<Longrightarrow> run_calls make_move ms sv = Some sv' \<Longrightarrow> service_run sv'"
proof (induction ms arbitrary: sv)
  case (Cons m ms)
  from Cons.prems(2) obtain sv1 where m: "make_move m sv = Some sv1" "run_calls make_move ms sv1 = Some sv'"
    by (auto simp: bind_eq_Some_conv)
  have "service_step sv sv1"
    using m(1) by (cases m) (auto simp: allowed_if_def intro: service_step.intros split: if_splits)
  with Cons.IH [OF _ m(2)] Cons.prems(1) show ?case by (blast intro: service_run.more)
qed simp

definition after :: "service_move list \<Rightarrow> service" where
  "after ms = the (run_calls make_move ms new_service)"

lemma after_run: "run_calls make_move ms new_service \<noteq> None \<Longrightarrow> service_run (after ms)"
  using service_moves_run [OF service_run.new, of ms] by (auto simp: after_def)

text \<open>
  A stop that is handled while the configuration is still loading finds no \<open>g_io\<close> and is lost: the service has reported
  STOP_PENDING, accepts no further stop, and serves on until the server fails.
\<close>

definition lost_stop :: "service_move list" where
  "lost_stop = [Main True, Main True, Main True, Send SERVICE_CONTROL_STOP, Handler, Handler, Main True]"

lemma stop_lost_while_loading:
  "service_run (after lost_stop) \<and> wv_main (after lost_stop) = Serving \<and>
   report_states (after lost_stop) = [StartPending, Running, StopPending] \<and> \<not> accepts_control (after lost_stop) \<and>
   handler_step (after lost_stop) = None \<and> main_step True (after lost_stop) = None"
proof -
  have "run_calls make_move lost_stop new_service \<noteq> None" "wv_main (after lost_stop) = Serving"
    "report_states (after lost_stop) = [StartPending, Running, StopPending]" "\<not> accepts_control (after lost_stop)"
    "handler_step (after lost_stop) = None" "main_step True (after lost_stop) = None"
    by code_simp+
  with after_run [OF this(1)] show ?thesis by simp
qed

text \<open>A stop that is handled while \<open>runHydrogenHttpd\<close> returns calls \<open>stop\<close> on the context that it has destroyed.\<close>

definition late_stop :: "service_move list" where
  "late_stop =
     [Main True, Main True, Main True, Main True, Send SERVICE_CONTROL_STOP, Handler, Main False, Handler]"

lemma stop_on_destroyed_context: "service_run (after late_stop) \<and> wv_dangling (after late_stop)"
proof -
  have "run_calls make_move late_stop new_service \<noteq> None" "wv_dangling (after late_stop)" by code_simp+
  with after_run [OF this(1)] show ?thesis by simp
qed

section \<open>The handles of the service manager\<close>

record scm_held =
  mh_manager :: bool
  mh_service :: bool

definition no_handles :: scm_held where
  "no_handles = \<lparr>mh_manager = False, mh_service = False\<rparr>"

fun scm_next :: "scm_call \<Rightarrow> scm_held \<Rightarrow> scm_held option" where
  "scm_next (ScmManager ok) r = allowed_if (r = no_handles) (r\<lparr>mh_manager := ok\<rparr>)"
| "scm_next (ScmCreate command ok) r = allowed_if (mh_manager r \<and> \<not> mh_service r) (r\<lparr>mh_service := ok\<rparr>)"
| "scm_next (ScmOpen ok) r = allowed_if (mh_manager r \<and> \<not> mh_service r) (r\<lparr>mh_service := ok\<rparr>)"
| "scm_next ScmCloseService r = allowed_if (mh_service r) (r\<lparr>mh_service := False\<rparr>)"
| "scm_next ScmCloseManager r = allowed_if (mh_manager r) (r\<lparr>mh_manager := False\<rparr>)"
| "scm_next c r = allowed_if (mh_service r) r"

lemmas scm_defs = installHydrogenHttpdWindowsService_def uninstallHydrogenHttpdWindowsService_def
  service_settings_def balanced_def no_handles_def Let_def


section \<open>The theorems at concrete schedules\<close>

definition plain_stop :: "service_move list" where
  "plain_stop = [Main True, Main True, Main True, Main True, Send SERVICE_CONTROL_STOP, Handler]"

lemma plain_stop_run: "service_run (after plain_stop)"
  by (rule after_run) code_simp


theorem service_stops_witness:
  "\<exists>sv1 sv2. handler_step (after plain_stop) = Some sv1 \<and> run_calls main_step [True, True, True] sv1 = Some sv2 \<and>
     wv_main sv2 = Finished"
proof -
  have "wv_handler (after plain_stop) = Stopping" "wv_main (after plain_stop) = Serving" by code_simp+
  from service_stops [OF plain_stop_run this] show ?thesis by blast
qed

end
