(* ===== verification/Process.thy ===== *)
theory Process
  imports ServerRuns Sqlite WindowsService "HOL-Library.List_Lexorder" "HOL-Library.Char_ord"
begin

text \<open>
  The process: the command line of \<open>src/src/main.cpp\<close>, \<open>src/src/Application.cpp\<close>, which loads and
  checks the configuration and runs the server, and \<open>Server::run\<close>. The I/O threads of a running
  server are the sequence of accepted and handled connections of theory ServerRuns; they end with a
  signal.
\<close>

section \<open>The command line\<close>

record arguments =
  ar_configPath :: string
  ar_checkConfig :: bool
  ar_showVersion :: bool
  ar_showHelp :: bool
  ar_service :: bool
  ar_installService :: bool
  ar_uninstallService :: bool

definition default_arguments :: arguments where
  "default_arguments =
    \<lparr>ar_configPath = ''server.conf'', ar_checkConfig = False, ar_showVersion = False, ar_showHelp = False,
     ar_service = False, ar_installService = False, ar_uninstallService = False\<rparr>"

text \<open>The loop over the arguments behind the name of the program; a build for Windows knows three more.\<close>

fun parse_arguments :: "bool \<Rightarrow> string list \<Rightarrow> arguments \<Rightarrow> string + arguments" where
  "parse_arguments windows [] args = Inr args"
| "parse_arguments windows (a # rest) args =
     (if (a = ''--config'' \<or> a = ''-c'') \<and> rest \<noteq> []
      then parse_arguments windows (tl rest) (args\<lparr>ar_configPath := hd rest\<rparr>)
      else if a = ''--check-config'' then parse_arguments windows rest (args\<lparr>ar_checkConfig := True\<rparr>)
      else if a = ''--version'' \<or> a = ''-v'' then parse_arguments windows rest (args\<lparr>ar_showVersion := True\<rparr>)
      else if a = ''--help'' \<or> a = ''-h'' then parse_arguments windows rest (args\<lparr>ar_showHelp := True\<rparr>)
      else if windows \<and> a = ''--service'' then parse_arguments windows rest (args\<lparr>ar_service := True\<rparr>)
      else if windows \<and> a = ''--install-service'' then parse_arguments windows rest (args\<lparr>ar_installService := True\<rparr>)
      else if windows \<and> a = ''--uninstall-service'' then parse_arguments windows rest (args\<lparr>ar_uninstallService := True\<rparr>)
      else if a \<noteq> [] \<and> hd a \<noteq> CHR ''-'' then parse_arguments windows rest (args\<lparr>ar_configPath := a\<rparr>)
      else Inl (''Unknown or incomplete argument: '' @ a))"

definition parseArguments :: "bool \<Rightarrow> string list \<Rightarrow> string + arguments" where
  "parseArguments windows argv = parse_arguments windows (tl argv) default_arguments"

section \<open>Starting and running the server\<close>

text \<open>
  What the process sees of the system: the machine that the configuration is read on, the environment
  the server is constructed in, the iteration order of the table of virtual hosts, the exception of the
  calls of the system in the constructor (opening the logs and the ports, reading the TLS files), the
  ports that were bound, and what the binary was built with; the service manager of a build for Windows.
\<close>

record process_env =
  pe_machine :: machine
  pe_server :: server_env
  pe_order :: "(string \<rightharpoonup> string) \<Rightarrow> string list"
  pe_listen_error :: "string option"
  pe_bound_port :: "nat \<Rightarrow> nat"
  pe_tls :: bool
  pe_sqlite :: "sqlite_api option"
  pe_windows :: "scm_api option"

definition windows_build :: "process_env \<Rightarrow> bool" where
  "windows_build env \<longleftrightarrow> pe_windows env \<noteq> None"

definition need_file :: "file_system \<Rightarrow> string \<Rightarrow> string \<Rightarrow> string + unit" where
  "need_file fs message path = and_then (path_exists fs path) (\<lambda>there. if there then Inr () else Inl message)"

text \<open>The loop over the virtual hosts.\<close>

fun check_hosts :: "file_system \<Rightarrow> (string \<rightharpoonup> string) \<Rightarrow> string list \<Rightarrow> string + unit" where
  "check_hosts fs hosts [] = Inr ()"
| "check_hosts fs hosts (host # hs) =
     and_then (need_file fs (''Virtual host document root does not exist: '' @ host @ '' -> '' @ the (hosts host)) (the (hosts host)))
       (\<lambda>u. check_hosts fs hosts hs)"

definition check_tls :: "process_env \<Rightarrow> server_config \<Rightarrow> string + unit" where
  "check_tls env config =
     (let fs = mc_fs (pe_machine env)
      in if \<not> cfg_enableTls config then Inr ()
         else if \<not> pe_tls env then Inl ''TLS is enabled in config, but binary was built without OpenSSL support.''
         else and_then (need_file fs (''TLS certificate does not exist: '' @ cfg_tlsCertFile config) (cfg_tlsCertFile config)) (\<lambda>u.
              need_file fs (''TLS private key does not exist: '' @ cfg_tlsKeyFile config) (cfg_tlsKeyFile config)))"

definition loadAndValidate :: "process_env \<Rightarrow> string \<Rightarrow> string + server_config" where
  "loadAndValidate env path =
     (let fs = mc_fs (pe_machine env)
      in and_then (config_load (pe_machine env) path) (\<lambda>config.
         and_then (need_file fs (''Default document root does not exist: '' @ cfg_defaultRoot config) (cfg_defaultRoot config)) (\<lambda>u.
         and_then (check_hosts fs (cfg_virtualHosts config) (pe_order env (cfg_virtualHosts config))) (\<lambda>u.
         and_then (check_tls env config) (\<lambda>u. Inr config)))))"

definition on_off :: "bool \<Rightarrow> string" where
  "on_off b = (if b then ''enabled'' else ''disabled'')"

definition run_banner :: "process_env \<Rightarrow> server \<Rightarrow> string list" where
  "run_banner env sv =
     (let c = sv_config sv
      in [''HydrogenHttpd v'' @ en_version (pe_server env) @ '' server running'',
          ''HTTP  port: '' @ to_string (pe_bound_port env (cfg_port c)),
          ''I/O threads: '' @ to_string (cfg_ioThreads c),
          ''Worker threads: '' @ to_string (cfg_workerThreads c),
          ''Listen backlog: '' @ to_string_int (cfg_listenBacklog c),
          ''Static cache: '' @ on_off (cfg_enableStaticCache c),
          ''.htaccess: '' @ on_off (cfg_enableHtaccess c),
          ''Force HTTPS: '' @ on_off (cfg_forceHttps c)] @
         (if \<not> pe_tls env then []
          else if cfg_enableTls c then [''HTTPS port: '' @ to_string (pe_bound_port env (cfg_tlsPort c))]
          else [''HTTPS: disabled'']))"

text \<open>\<open>Server::run\<close>: the lines it prints, and the server that accepts connections from then on.\<close>

definition sql_start :: "process_env \<Rightarrow> string \<Rightarrow> string + bool" where
  "sql_start env database =
     fst (case pe_sqlite env of Some api \<Rightarrow> sql_initialize api database | None \<Rightarrow> stub_initialize database)"

definition server_run :: "process_env \<Rightarrow> server \<Rightarrow> string list \<times> (string + server)" where
  "server_run env sv =
     (run_banner env sv,
      if \<not> cfg_enableSql (sv_config sv) then Inr sv
      else and_then (sql_start env (cfg_sqliteDatabase (sv_config sv))) (\<lambda>ok.
        Inr (add_log (LogError (if ok then ''sql_module initialized'' else ''sql_module initialization_failed'')) sv)))"

section \<open>The two commands and the exit code\<close>

text \<open>The exit code, what is printed on the two outputs, and the last state of the server, if one ran.\<close>

record process_result =
  pr_exit :: int
  pr_out :: string
  pr_err :: string
  pr_server :: "server option"

definition printed :: "string list \<Rightarrow> string" where
  "printed ls = concat (map (\<lambda>l. l @ [LF]) ls)"

text \<open>A path on an output stream is quoted, with a backslash in front of quotes and backslashes.\<close>

definition quoted_path :: "string \<Rightarrow> string" where
  "quoted_path p =
     [DQUOTE] @ concat (map (\<lambda>c. if c = DQUOTE \<or> c = CHR 0x5C then [CHR 0x5C, c] else [c]) p) @ [DQUOTE]"

definition checkHydrogenHttpdConfig :: "process_env \<Rightarrow> string \<Rightarrow> process_result" where
  "checkHydrogenHttpdConfig env path =
     (case loadAndValidate env path of
        Inl e \<Rightarrow> \<lparr>pr_exit = 1, pr_out = [], pr_err = printed [''Configuration error: '' @ e], pr_server = None\<rparr>
      | Inr config \<Rightarrow>
          \<lparr>pr_exit = 0,
           pr_out = printed
             [''Configuration OK'', ''Config: '' @ quoted_path (absolute_path (mc_cwd (pe_machine env)) path),
              ''Document root: '' @ quoted_path (cfg_defaultRoot config), ''HTTP port: '' @ to_string (cfg_port config),
              ''TLS enabled: '' @ (if cfg_enableTls config then ''yes'' else ''no'')],
           pr_err = [], pr_server = None\<rparr>)"

definition construct_server :: "process_env \<Rightarrow> server_config \<Rightarrow> string + server" where
  "construct_server env config =
     and_then (make_server (pe_server env) config) (\<lambda>sv.
       (case pe_listen_error env of Some e \<Rightarrow> Inl e | None \<Rightarrow> Inr sv))"

definition runHydrogenHttpd :: "process_env \<Rightarrow> server_event list \<Rightarrow> string \<Rightarrow> process_result" where
  "runHydrogenHttpd env events path =
     (let failed = (\<lambda>out e. \<lparr>pr_exit = 1, pr_out = out, pr_err = printed [''Fatal error: '' @ e], pr_server = None\<rparr>)
      in (case and_then (loadAndValidate env path) (construct_server env) of
            Inl e \<Rightarrow> failed [] e
          | Inr sv \<Rightarrow>
              (case server_run env sv of
                 (ls, Inl e) \<Rightarrow> failed (printed ls) e
               | (ls, Inr sv') \<Rightarrow>
                   \<lparr>pr_exit = 0, pr_out = printed ls, pr_err = [], pr_server = Some (run_server events sv')\<rparr>)))"

definition help_text :: "bool \<Rightarrow> string \<Rightarrow> string" where
  "help_text windows version = printed
     ([''HydrogenHttpd '' @ version, [], ''Usage:'', ''  hydrogen_httpd --config <file>'',
       ''  hydrogen_httpd --check-config --config <file>'', ''  hydrogen_httpd --version''] @
      (if windows
       then [''  hydrogen_httpd --service --config <file>'', ''  hydrogen_httpd --install-service --config <file>'',
             ''  hydrogen_httpd --uninstall-service'']
       else []) @
      [[], ''Options:'', ''  -c, --config <file>  Configuration file'',
       ''      --check-config   Validate configuration and exit'', ''  -v, --version        Print version'',
       ''  -h, --help           Show this help''])"

text \<open>The options of a build for Windows, if one of them was given.\<close>

definition service_command_line :: "process_env \<Rightarrow> string \<Rightarrow> arguments \<Rightarrow> (int \<times> string) option" where
  "service_command_line env program args =
     Option.bind (pe_windows env) (\<lambda>api.
       if ar_service args then Some (runHydrogenHttpdWindowsService api)
       else if ar_installService args
       then (case installHydrogenHttpdWindowsService api (sm_absolute api program) (sm_absolute api (ar_configPath args)) of
               (code, err, calls) \<Rightarrow> Some (code, err))
       else if ar_uninstallService args then Some (fst (uninstallHydrogenHttpdWindowsService api), [])
       else None)"

definition hydrogen_main :: "process_env \<Rightarrow> server_event list \<Rightarrow> string list \<Rightarrow> process_result" where
  "hydrogen_main env events argv =
     (let version = en_version (pe_server env);
          windows = windows_build env;
          say = (\<lambda>code out err. \<lparr>pr_exit = code, pr_out = out, pr_err = err, pr_server = None\<rparr>)
      in (case parseArguments windows argv of
            Inl e \<Rightarrow> say 2 (help_text windows version) (printed [''Argument error: '' @ e])
          | Inr args \<Rightarrow>
              if ar_showHelp args then say 0 (help_text windows version) []
              else if ar_showVersion args then say 0 (printed [''HydrogenHttpd '' @ version]) []
              else (case service_command_line env (hd argv) args of
                      Some (code, err) \<Rightarrow> say code [] err
                    | None \<Rightarrow>
                        if ar_checkConfig args then checkHydrogenHttpdConfig env (ar_configPath args)
                        else runHydrogenHttpd env events (ar_configPath args))))"

section \<open>Rendering a command line\<close>

definition arguments_line :: "string \<Rightarrow> arguments \<Rightarrow> string list" where
  "arguments_line program args =
     [program, ''--config'', ar_configPath args] @
     concat (map (\<lambda>(given, option). if given then [option] else [])
       [(ar_checkConfig args, ''--check-config''), (ar_showVersion args, ''--version''), (ar_showHelp args, ''--help''),
        (ar_service args, ''--service''), (ar_installService args, ''--install-service''),
        (ar_uninstallService args, ''--uninstall-service'')])"

lemma parse_arguments_line: "parseArguments True (arguments_line program args) = Inr args"
  by (simp add: parseArguments_def arguments_line_def default_arguments_def)

section \<open>What --check-config decides\<close>

text \<open>The table of hosts is iterated over completely.\<close>

definition host_order :: "((string \<rightharpoonup> string) \<Rightarrow> string list) \<Rightarrow> bool" where
  "host_order order \<longleftrightarrow> (\<forall>hosts. finite (dom hosts) \<longrightarrow> set (order hosts) = dom hosts)"

definition startable :: "process_env \<Rightarrow> string \<Rightarrow> server_config \<Rightarrow> bool" where
  "startable env path config \<longleftrightarrow>
     (let present = (\<lambda>p. path_exists (mc_fs (pe_machine env)) p = Inr True)
      in config_load (pe_machine env) path = Inr config \<and> present (cfg_defaultRoot config) \<and>
         (\<forall>root \<in> ran (cfg_virtualHosts config). present root) \<and>
         (cfg_enableTls config \<longrightarrow> pe_tls env \<and> present (cfg_tlsCertFile config) \<and> present (cfg_tlsKeyFile config)))"

lemma need_file_iff [simp]: "need_file fs m p = Inr u \<longleftrightarrow> path_exists fs p = Inr True"
  by (auto simp: need_file_def and_then_eq_Inr)

lemma check_hosts_iff:
  "set hs \<subseteq> dom hosts \<Longrightarrow> check_hosts fs hosts hs = Inr u \<longleftrightarrow> (\<forall>h \<in> set hs. path_exists fs (the (hosts h)) = Inr True)"
  by (induction hs) (auto simp: and_then_eq_Inr)

lemma finite_result: "Inr x = Inr c \<Longrightarrow> finite (dom (cfg_virtualHosts x)) \<Longrightarrow> finite (dom (cfg_virtualHosts c))"
  by simp

lemma apply_setting_hosts:
  assumes "finite (dom (cfg_virtualHosts c))" "apply_setting key val c = Inr c'"
  shows "finite (dom (cfg_virtualHosts c'))"
proof -
  have "apply_setting key val c = Inr c' \<Longrightarrow> finite (dom (cfg_virtualHosts c'))"
    unfolding apply_setting_def
    by (elim if_result and_then_result; erule finite_result; simp add: assms(1))
  then show ?thesis using assms(2) .
qed

lemma apply_lines_hosts:
  "finite (dom (cfg_virtualHosts c)) \<Longrightarrow> apply_config_lines ls c = Inr c' \<Longrightarrow> finite (dom (cfg_virtualHosts c'))"
proof (induction ls arbitrary: c)
  case (Cons l ls)
  from Cons.prems(2) obtain c1 where c1: "apply_config_line l c = Inr c1" "apply_config_lines ls c1 = Inr c'"
    by (auto elim: and_then_result)
  have "finite (dom (cfg_virtualHosts c1))"
    using c1(1) Cons.prems(1) by (auto simp: apply_config_line_def Let_def intro: apply_setting_hosts split: if_splits option.splits)
  from Cons.IH [OF this c1(2)] show ?case .
qed simp

lemma loaded_hosts: "config_load m path = Inr c \<Longrightarrow> finite (dom (cfg_virtualHosts c))"
proof (erule config_load_result)
  fix content c0 c1
  assume l: "apply_config_lines (all_lines_delim LF content) default_config = Inr c0"
    and c: "c1 = resolve_paths (parent_path (absolute_path (mc_cwd m) path)) c0" "c = default_workers (mc_hardware m) c1"
  have "finite (dom (cfg_virtualHosts c0))" by (rule apply_lines_hosts [OF _ l]) (simp add: default_config_def)
  moreover have "dom (cfg_virtualHosts c) = dom (cfg_virtualHosts c0)"
    by (auto simp: c default_workers_def resolve_paths_def dom_def)
  ultimately show ?thesis by simp
qed

lemma check_tls_iff: "check_tls env config = Inr u \<longleftrightarrow>
    (cfg_enableTls config \<longrightarrow> pe_tls env \<and> path_exists (mc_fs (pe_machine env)) (cfg_tlsCertFile config) = Inr True \<and>
       path_exists (mc_fs (pe_machine env)) (cfg_tlsKeyFile config) = Inr True)"
  by (simp add: check_tls_def and_then_eq_Inr Let_def)

lemma validate_iff:
  assumes "host_order (pe_order env)"
  shows "loadAndValidate env path = Inr config \<longleftrightarrow> startable env path config"
proof (cases "config_load (pe_machine env) path = Inr config")
  case True
  let ?hosts = "cfg_virtualHosts config"
  have hs: "set (pe_order env ?hosts) = dom ?hosts"
    using assms loaded_hosts [OF True] by (simp add: host_order_def)
  have r: "(\<forall>h \<in> dom ?hosts. P (the (?hosts h))) \<longleftrightarrow> (\<forall>root \<in> ran ?hosts. P root)" for P
    by (force simp: ran_def dom_def)
  from True show ?thesis
    by (simp add: r [where P = "\<lambda>p. path_exists (mc_fs (pe_machine env)) p = Inr True"] loadAndValidate_def and_then_eq_Inr check_hosts_iff hs startable_def Let_def check_tls_iff)
next
  case False
  then show ?thesis by (auto simp: loadAndValidate_def startable_def and_then_eq_Inr Let_def)
qed

lemma check_exit: "pr_exit (checkHydrogenHttpdConfig env path) = (if isl (loadAndValidate env path) then 1 else 0)"
  by (simp add: checkHydrogenHttpdConfig_def split: sum.splits)

lemma run_cases:
  obtains (failed) out e where "runHydrogenHttpd env events path = \<lparr>pr_exit = 1, pr_out = out, pr_err = printed [''Fatal error: '' @ e], pr_server = None\<rparr>"
  | (ran) config sv0 sv1 out where "loadAndValidate env path = Inr config" "construct_server env config = Inr sv0"
      "snd (server_run env sv0) = Inr sv1"
      "runHydrogenHttpd env events path = \<lparr>pr_exit = 0, pr_out = out, pr_err = [], pr_server = Some (run_server events sv1)\<rparr>"
proof (cases "and_then (loadAndValidate env path) (construct_server env)")
  case (Inl e)
  then show thesis by (intro failed [of "[]" e]) (simp add: runHydrogenHttpd_def)
next
  case (Inr sv0)
  then obtain config where c: "loadAndValidate env path = Inr config" "construct_server env config = Inr sv0"
    by (auto simp: and_then_eq_Inr)
  obtain ls r where r: "server_run env sv0 = (ls, r)" by fastforce
  show thesis
  proof (cases r)
    case (Inl e)
    with r Inr show thesis by (intro failed [of "printed ls" e]) (simp add: runHydrogenHttpd_def)
  next
    case r': (Inr sv1)
    with r Inr c show thesis by (intro ran [of config sv0 sv1 "printed ls"]) (simp_all add: runHydrogenHttpd_def)
  qed
qed

text \<open>
  C31: \<open>--check-config\<close> exits with 0 exactly for a configuration file that loads, with every document
  root, and the TLS files where TLS is enabled and was built in, present; otherwise it exits with 1 and says
  why. The server never runs with a file that it refuses.
\<close>

theorem check_config_exact:
  assumes "host_order (pe_order env)"
  shows "(pr_exit (checkHydrogenHttpdConfig env path) = 0 \<longleftrightarrow> (\<exists>config. startable env path config)) \<and>
    (pr_exit (checkHydrogenHttpdConfig env path) = 1 \<longleftrightarrow> pr_err (checkHydrogenHttpdConfig env path) \<noteq> []) \<and>
    (pr_exit (runHydrogenHttpd env events path) = 0 \<longrightarrow> pr_exit (checkHydrogenHttpdConfig env path) = 0)"
proof -
  have "(\<exists>config. startable env path config) \<longleftrightarrow> \<not> isl (loadAndValidate env path)"
    by (cases "loadAndValidate env path") (auto simp flip: validate_iff [OF assms])
  moreover have "isl (loadAndValidate env path) \<longleftrightarrow> pr_err (checkHydrogenHttpdConfig env path) \<noteq> []"
    by (simp add: checkHydrogenHttpdConfig_def printed_def split: sum.splits)
  moreover have "pr_exit (runHydrogenHttpd env events path) = 0 \<Longrightarrow> \<not> isl (loadAndValidate env path)"
    by (cases rule: run_cases [of env events path]) auto
  ultimately show ?thesis by (simp add: check_exit)
qed

lemma run_started: "snd (server_run env sv) = Inr sv' \<Longrightarrow> \<exists>m. sv' \<in> {sv, add_log m sv}"
  by (auto simp: server_run_def and_then_eq_Inr split: if_splits)

lemma construct_made: "construct_server env config = Inr sv \<Longrightarrow> make_server (pe_server env) config = Inr sv"
  by (auto simp: construct_server_def and_then_eq_Inr split: option.splits)

lemma install_exit: "installHydrogenHttpdWindowsService api program path = (code, err, calls) \<Longrightarrow> code \<in> {0, 1} \<and> (code = 0 \<longrightarrow> err = [])"
  by (auto simp: installHydrogenHttpdWindowsService_def Let_def split: option.splits create_answer.splits if_splits)

lemma service_exit:
  assumes "service_command_line env program args = Some (code, err)"
  shows "windows_build env \<and> code \<in> {0, 1} \<and> (code = 0 \<longrightarrow> err = [])"
  using assms
  by (auto simp: windows_build_def service_command_line_def runHydrogenHttpdWindowsService_def uninstallHydrogenHttpdWindowsService_def
      split: if_splits prod.splits option.splits bind_splits dest: install_exit)


section \<open>The theorems at a concrete command line\<close>

text \<open>The server of the configuration file of theory Config, started with \<open>--config h.conf\<close>.\<close>

definition site_process :: process_env where
  "site_process =
     \<lparr>pe_machine = example_machine, pe_server = site_env, pe_order = (\<lambda>hosts. sorted_list_of_set (dom hosts)),
      pe_listen_error = None, pe_bound_port = id, pe_tls = False, pe_sqlite = None,
      pe_windows = None\<rparr>"

lemma site_order: "host_order (pe_order site_process)"
  by (simp add: host_order_def site_process_def)

lemma site_startable: "startable site_process ''h.conf'' example_config"
proof -
  have "cfg_defaultRoot example_config = resolvePath ''/etc'' ''site''" "\<not> cfg_enableTls example_config"
    "cfg_virtualHosts example_config = Map.empty"
    by (simp_all add: example_config_def default_workers_def resolve_paths_def default_config_def)
  moreover have "resolvePath ''/etc'' ''site'' = ''/etc/site''" by code_simp
  moreover have "path_exists (mc_fs example_machine) ''/etc/site'' = Inr True"
    by (simp add: path_exists_def example_machine_def)
  ultimately show ?thesis by (simp add: startable_def site_process_def example_config_loaded)
qed

lemma site_runs:
  "runHydrogenHttpd site_process events ''h.conf'' =
     \<lparr>pr_exit = 0, pr_out = printed (run_banner site_process loaded_server), pr_err = [],
      pr_server = Some (run_server events loaded_server)\<rparr>"
proof -
  have "loadAndValidate site_process ''h.conf'' = Inr example_config" by (simp add: validate_iff [OF site_order] site_startable)
  moreover have "construct_server site_process example_config = Inr loaded_server"
    by (simp add: construct_server_def site_process_def loaded_started)
  moreover have "\<not> cfg_enableSql (sv_config loaded_server)"
    by (rule make_server_parts [OF loaded_started])
      (simp add: example_config_def default_workers_def resolve_paths_def default_config_def)
  ultimately show ?thesis by (simp add: runHydrogenHttpd_def server_run_def)
qed

theorem check_config_exact_witness: "pr_exit (checkHydrogenHttpdConfig site_process ''h.conf'') = 0"
  using check_config_exact [OF site_order, of "''h.conf''" "[]"] by (simp add: site_runs)


end
