(* ===== verification/Spec2Isabelle.thy ===== *)
theory Spec2Isabelle
  imports RequestReader Security Auth AuthStore RateLimiter ThreadPool StaticCache Multipart FastCgi Htaccess Config
    Logger ServerRuns AuditTrail Sqlite Process
begin

text \<open>
  A verification development for HydrogenHttpd, the HTTP server whose C++ sources are under \<open>src/src/\<close>.

  \<^bold>\<open>The program.\<close> \<open>main.cpp\<close> reads the command line and hands the configuration file to
  \<open>Application.cpp\<close>, which loads it (\<open>Config.cpp\<close>), checks it and constructs a \<open>Server\<close>. I/O threads
  accept connections and queue them in the thread pool (\<open>ThreadPool.cpp\<close>); a worker asks the rate
  limiter (\<open>RateLimiter.cpp\<close>), reads the header block, parses it, and branches on the target: the admin
  status page and the upload endpoint decide on a bearer token first (\<open>AuthRuntimeStore.cpp\<close> and
  \<open>Auth.cpp\<close>); an upload is written to a spool file and taken apart from there (\<open>Multipart.cpp\<close>); every
  other request is read completely, parsed strictly (\<open>StrictHttp.cpp\<close>), resolved to a file below a
  document root (\<open>Security.cpp\<close>), checked against forbidden names and \<open>.htaccess\<close> rules (\<open>Htaccess.cpp\<close>),
  and served from the cache (\<open>StaticFileCache.cpp\<close>) or run as a PHP script (\<open>FastCgiClient.cpp\<close>). The
  response is written as \<open>Http.hpp\<close> serialises it, and logged (\<open>Logger.cpp\<close>).

  \<^bold>\<open>The library.\<close>
  Bytes (bytes, character classes, trimming), Search (\<open>find\<close>, \<open>substr\<close>, \<open>getline\<close>), Numbers (\<open>to_string\<close>,
  \<open>std::stoi\<close> and its family with their ranges) and Paths (\<open>std::filesystem\<close> on POSIX paths, results that
  are exceptions or values) model the part of the C++ library that is used. HeaderScan is the loop that the
  header readers share. Four interfaces are locales: \<open>bounded_queue\<close> (BoundedQueue; interpreted for the
  tasks of the pool and the lines of the access log), \<open>codec\<close> (RecordCodec; interpreted for the
  name-value pairs and the records of FastCGI), \<open>window_limiter\<close> (RateLimiter; interpreted for the
  limiter, and used for whole connections in ServerRuns) and \<open>kept_by_handlers\<close> (ServerRuns; what a handler
  may change at all carries a condition through a whole run of the server; interpreted for the
  counters of the cache, for the invariant of the server and for a cache of files that do not change).

  \<^bold>\<open>The components.\<close>
  \<^item> Http: \<open>HttpRequest\<close>, \<open>HttpResponse\<close> and \<open>headersToString\<close>; a serialised response has one header block.
  \<^item> StrictHttp: \<open>StrictHttpParser::parse\<close>, loop by loop; what an accepted request satisfies, the exact body, and
    that parsing a rendered request gives it back.
  \<^item> RequestReader: \<open>readHeadersOnly\<close>, \<open>parseHeadersOnly\<close>, \<open>completeRequestInMemory\<close> and
    \<open>readRequestWithBody\<close> of \<open>Server.cpp\<close>. A socket is the list of the chunks it will deliver and the errors
    in between; what is read is what was sent, and the two parsers agree on a header block.
  \<^item> Security: \<open>urlDecode\<close>, the checks on targets, \<open>resolveSafePath\<close> (what it returns is below the canonical
    root, behind every link) and \<open>normalizeHost\<close>.
  \<^item> Sha256, Auth, AuthStore: \<open>sha256Hex\<close> on 32-bit words is SHA-256 of FIPS 180-4; the decision on a
    bearer token is its specification, and only goes down as time passes;
    token rules and secrets files as text; the store with its reload, generation counter and interval, where
    the tokens in use are always those of the configuration and of the file that was read last.
  \<^item> RateLimiter: shards, buckets, the clean-up; each key sees exactly fixed windows of a minute.
  \<^item> ThreadPool: clients, workers and \<open>shutdown\<close> interleave as a step relation; the queue bound, that
    a shutdown runs every accepted task once, and that it ends.
  \<^item> StaticCache: \<open>get\<close> with its revalidation, insertion and eviction; budgets and counters are exact,
    and the cache cannot be told from reading the file when files change their time or size with their content.
  \<^item> Multipart: both parsers, for bodies in memory and for spool files; what they may write.
  \<^item> FastCgi: the request as bytes and what a FastCGI application decodes from it; the reply from any sequence of
    records; the CGI header block.
  \<^item> Htaccess: the rules of a directory and of a path; the last file in the order decides.
  \<^item> Config: the file line by line with the conversions and their wrap-around, and the checks; what
    a configuration that loads guarantees.
  \<^item> Logger: the access log with its queue and writer thread as a step relation (nothing is lost but
    what is counted as dropped), the audit log and its rotation, the error log.
  \<^item> ServerState, UploadHandler, ContentHandler, Server: \<open>Server.cpp\<close> from the constructor to
    the written response. The state is the record \<open>server\<close>, with a field for each member of the class; a
    handler is a function to a result and the server after it, \<open>go_on\<close> is the next statement after one
    that may throw, and \<open>catch_error\<close> the handler of the exceptions. Every \<open>return\<close> of
    \<open>handleClientStream\<close>, \<open>makeResponse\<close> and \<open>handleUploadRequest\<close> is a branch.
  \<^item> Sqlite, WindowsService, Process: the SQLite module as calls of the library, the server as a service of Windows
    (the thread of \<open>serviceMain\<close> and the one of the control handler as a step relation, the installation as calls
    of the service manager), and the process around the server. CallTrace is what the calls of both
    libraries share: a protocol of what is held, and that nothing is leaked.

  \<^bold>\<open>What is shown of the whole.\<close> HandlerFrame says which parts of the server each handler can
  change at all; the other theories rest on it and on the lemmas of the components.
  \<^item> StaticContent: which file contents one request can be sent.
  \<^item> Endpoints: who gets the admin page, who can change files, and which files; AuditTrail: that each of these
    decisions is audited.
  \<^item> Framing: no header line of a response is broken by a line feed, whatever the client sent and the
    \<open>.htaccess\<close> files say, so the bytes are one well-framed response.
  \<^item> ServerRuns: the trace of a connection in the logs, and what holds after any sequence of
    accepted and handled connections of a server that was started from its configuration: the invariant of
    its state, which files it sends, how its responses are framed, and the bound on the requests of a client.
  \<^item> WindowsService: which states are reported to the service manager, and that a stop that finds the server
    running ends it.
  \<^item> Process: the exit code, what \<open>--check-config\<close> decides, and that only such a configuration runs.
  ServerExample has the concrete server that the theorems are applied to.

  \<^bold>\<open>Modelling.\<close> A \<open>std::string\<close> is a list of bytes. Counters and sums that can wrap are words or written
  with \<open>mod 2 ^ 64\<close>; \<open>std::size_t\<close> values that are bounded by the memory are natural numbers. Maps are
  partial functions where the order does not matter, association lists where it does; the iteration order of an
  unordered map is a parameter. An exception is the left part of a sum, with the changes made before it kept.
  Loops that end by their data are functions with a measure; no fuel is used, and
  no function is partial. Threads are one at a time: each call of a component that locks a mutex is one step, a
  handler is what one worker does between them, and for the thread pool, the access log and the limiter the
  interleaving itself is modelled.

  \<^bold>\<open>Parameters.\<close> Everything that is not under \<open>src/\<close> is an argument: the file system, the clocks,
  \<open>std::hash\<close>, the FastCGI application, the SQLite library, the service manager of Windows, the chunks a socket delivers, whether a handshake, a
  write or the removal of a file works, the addresses of clients, the version and the options of the build. What
  is relied on is stated where it is used: that a canonical path is its own canonical path
  (\<open>canonical_stable\<close>), that \<open>std::hash\<close> gives the same number for the same string (\<open>event_hash\<close>), that an iteration visits
  every entry (\<open>iteration_order\<close>, \<open>host_order\<close>), that the steady clock does not go back (\<open>call_times\<close>), and
  that secrets are shorter than \<open>2 ^ 64\<close> bytes (\<open>representable\<close>).

  \<^bold>\<open>Not modelled.\<close> Socket options, time-outs, the TLS handshake and certificates, and \<open>io_context\<close>, which
  are calls of Boost.Asio and OpenSSL; \<open>strftime\<close> in the time stamp of a log line; \<open>Server::readFile\<close>, \<open>readPlainRequest\<close>
  and \<open>readTlsRequest\<close>, which nothing calls. Writing to an open spool or upload file always
  works in the model; whether a file can be created, read, renamed and removed is up to the environment. The order
  of the writes of two handlers that run at the same time is not modelled beyond the steps of their components.
\<close>

end
